(* ===== verification/Vestigium_Prelude.thy ===== *)
theory Vestigium_Prelude
  imports Main "HOL-Library.Word" "HOL-Library.AList"
begin

text \<open>
  Shared vocabulary of the development: the machine integers of the Rust sources, the three
  ways a Rust call can fail to return a value (a returned error, a panic, undefined behaviour),
  the state-and-failure commands in which every effectful function is written, checked 64-bit
  addition, little-endian byte encodings, and the association-list model of \<open>HashMap\<close>.
  Nothing here is specific to one component; the components import this theory and use its
  collections \<open>cmd_simps\<close> (unfolding commands) and \<open>le_simps\<close> (byte encodings).
\<close>

unbundle bit_operations_syntax

named_theorems cmd_simps \<open>unfolding of commands\<close>
named_theorems le_simps \<open>facts on little-endian byte encodings\<close>

section \<open>Machine integers\<close>

type_synonym u8 = "8 word"
type_synonym u16 = "16 word"
type_synonym u32 = "32 word"
type_synonym u64 = "64 word"

text \<open>The target is x86\_64: \<open>usize\<close> has 64 bits.\<close>

type_synonym usize = u64

section \<open>Failures and commands\<close>

text \<open>
  \<open>WinErr\<close> is the error value of \<open>windows::core::Result\<close> (an HRESULT), which the \<open>?\<close>
  operator propagates; \<open>CodecErr\<close> is the error value of \<open>bincode\<close>. \<open>Panic\<close> is a Rust panic: both cargo profiles set \<open>panic = "abort"\<close>,
  so it ends the program. \<open>Undefined\<close> marks the point at which an \<open>unsafe\<close> operation is
  used outside its contract: nothing the program does after it can be relied on.
\<close>

datatype panic =
    ArithOverflow          \<comment> \<open>overflow check of the dev profile\<close>
  | AssertFailed           \<comment> \<open>\<open>assert!\<close> and \<open>assert_eq!\<close>\<close>
  | SliceOutOfRange        \<comment> \<open>\<open>bytes[start..]\<close> with \<open>start\<close> past the end\<close>
  | Expect string          \<comment> \<open>\<open>expect\<close> on an error or on \<open>None\<close>\<close>

datatype ub =
    ZeroSizeAlloc          \<comment> \<open>\<open>alloc_zeroed\<close> called with a layout of size 0\<close>
  | NullPointer            \<comment> \<open>an access through a null pointer\<close>
  | OutOfBounds            \<comment> \<open>an access past the end of its allocation\<close>
  | Overlap                \<comment> \<open>\<open>copy_nonoverlapping\<close> inside one allocation\<close>
  | Dangling               \<comment> \<open>an access to, or a release of, memory that is not allocated\<close>

datatype failure = WinErr u32 | CodecErr | Panic panic | Undefined ub

text \<open>
  A command runs on a state and either never returns (\<open>None\<close>) or returns a failure or a value
  together with the state it leaves behind.
\<close>

type_synonym ('s, 'a) cmd = "'s \<Rightarrow> ((failure + 'a) \<times> 's) option"

definition ret :: "'a \<Rightarrow> ('s, 'a) cmd" where
  "ret x s = Some (Inr x, s)"

definition raise :: "failure \<Rightarrow> ('s, 'a) cmd" where
  "raise e s = Some (Inl e, s)"

definition bindE :: "('s, 'a) cmd \<Rightarrow> ('a \<Rightarrow> ('s, 'b) cmd) \<Rightarrow> ('s, 'b) cmd" where
  "bindE m f s = (case m s of
      None \<Rightarrow> None
    | Some (Inl e, t) \<Rightarrow> Some (Inl e, t)
    | Some (Inr x, t) \<Rightarrow> f x t)"

definition thenE :: "('s, 'a) cmd \<Rightarrow> ('s, 'b) cmd \<Rightarrow> ('s, 'b) cmd" where
  "thenE m n = bindE m (\<lambda>_. n)"

definition modify :: "('s \<Rightarrow> 's) \<Rightarrow> ('s, unit) cmd" where
  "modify f s = Some (Inr (), f s)"

text \<open>\<open>Result::expect\<close>: an \<open>Err\<close> becomes a panic, everything else is passed on.\<close>

definition expect_ok :: "string \<Rightarrow> ('s, 'a) cmd \<Rightarrow> ('s, 'a) cmd" where
  "expect_ok msg m s = (case m s of
      Some (Inl (WinErr e), t) \<Rightarrow> Some (Inl (Panic (Expect msg)), t)
    | Some (Inl CodecErr, t) \<Rightarrow> Some (Inl (Panic (Expect msg)), t)
    | r \<Rightarrow> r)"

text \<open>\<open>Option::expect\<close>.\<close>

definition expect_some :: "string \<Rightarrow> 'a option \<Rightarrow> ('s, 'a) cmd" where
  "expect_some msg v = (case v of None \<Rightarrow> raise (Panic (Expect msg)) | Some x \<Rightarrow> ret x)"

text \<open>\<open>assert!\<close>.\<close>

definition assert_that :: "bool \<Rightarrow> ('s, unit) cmd" where
  "assert_that b = (if b then ret () else raise (Panic AssertFailed))"

text \<open>A \<open>for\<close> loop whose body may fail: the first failure ends it.\<close>

primrec for_each :: "'a list \<Rightarrow> ('a \<Rightarrow> ('s, unit) cmd) \<Rightarrow> ('s, unit) cmd" where
  "for_each [] body = ret ()"
| "for_each (x # xs) body = thenE (body x) (for_each xs body)"

text \<open>Running a command a given number of times and collecting the results.\<close>

primrec repeat_cmd :: "nat \<Rightarrow> ('s, 'a) cmd \<Rightarrow> ('s, 'a list) cmd" where
  "repeat_cmd 0 m = ret []"
| "repeat_cmd (Suc n) m = bindE m (\<lambda>x. bindE (repeat_cmd n m) (\<lambda>xs. ret (x # xs)))"

text \<open>A command on the first half of a state, for code that also owns a second half.\<close>

definition on_fst :: "('s, 'a) cmd \<Rightarrow> ('s \<times> 't, 'a) cmd" where
  "on_fst m = (\<lambda>(s, t). case m s of
      None \<Rightarrow> None
    | Some (r, s') \<Rightarrow> Some (r, (s', t)))"

lemmas cmd_unfold [cmd_simps] =
  ret_def raise_def bindE_def thenE_def modify_def expect_some_def assert_that_def

lemma bindE_ret [simp]: "bindE (ret x) f = f x"
  by (rule ext) (simp add: cmd_simps)

lemma bindE_raise [simp]: "bindE (raise e) f = raise e"
  by (rule ext) (simp add: cmd_simps)

lemma bindE_assoc: "bindE (bindE m f) g = bindE m (\<lambda>x. bindE (f x) g)"
  by (rule ext) (auto simp: bindE_def split: option.splits sum.splits)

lemma bindE_SomeD:
  assumes "bindE m f s = Some (Inr y, t)"
  obtains x u where "m s = Some (Inr x, u)" and "f x u = Some (Inr y, t)"
  using assms by (auto simp: bindE_def split: option.splits sum.splits)

lemma thenE_SomeD:
  assumes "thenE m n s = Some (Inr y, t)"
  obtains x u where "m s = Some (Inr x, u)" and "n u = Some (Inr y, t)"
  using assms by (auto simp: thenE_def elim: bindE_SomeD)

lemma bindE_step: "m s = Some (Inr x, t) \<Longrightarrow> bindE m f s = f x t"
  by (simp add: bindE_def)

lemma thenE_step: "m s = Some (Inr x, t) \<Longrightarrow> thenE m n s = n t"
  by (simp add: thenE_def bindE_def)

lemma expect_ok_Inr [simp]: "expect_ok msg m s = Some (Inr x, t) \<longleftrightarrow> m s = Some (Inr x, t)"
  by (auto simp: expect_ok_def split: option.splits sum.splits failure.splits)

lemma expect_ok_not_WinErr: "expect_ok msg m s \<noteq> Some (Inl (WinErr e), t)"
  by (auto simp: expect_ok_def split: option.splits sum.splits failure.splits)

lemma on_fst_Inr [simp]:
  "on_fst m (s, t) = Some (Inr x, (s', t')) \<longleftrightarrow> m s = Some (Inr x, s') \<and> t' = t"
  by (auto simp: on_fst_def split: option.splits)

lemma on_fst_None [simp]: "on_fst m (s, t) = None \<longleftrightarrow> m s = None"
  by (auto simp: on_fst_def split: option.splits)

lemma on_fst_ret [simp]: "on_fst (ret x) = ret x"
  by (rule ext) (auto simp: on_fst_def ret_def)

lemma on_fst_bindE: "on_fst (bindE m f) = bindE (on_fst m) (\<lambda>x. on_fst (f x))"
  by (rule ext) (auto simp: on_fst_def bindE_def split: option.splits sum.splits)

lemma on_fst_thenE: "on_fst (thenE m n) = thenE (on_fst m) (on_fst n)"
  by (simp add: thenE_def on_fst_bindE)

lemma for_each_append: "for_each (xs @ ys) body = thenE (for_each xs body) (for_each ys body)"
proof (induction xs)
  case Nil
  then show ?case by (simp add: thenE_def)
next
  case (Cons x xs)
  then show ?case by (simp add: thenE_def bindE_assoc)
qed

section \<open>Checked addition\<close>

text \<open>
  \<open>a + b\<close> on \<open>u64\<close>: with overflow checks (dev profile) an overflow panics, without them
  (release profile) it wraps. Which of the two holds is an argument of the model.
\<close>

definition add_u64 :: "bool \<Rightarrow> u64 \<Rightarrow> u64 \<Rightarrow> ('s, u64) cmd" where
  "add_u64 checks a b =
     (if checks \<and> 2 ^ 64 \<le> unat a + unat b then raise (Panic ArithOverflow) else ret (a + b))"

lemma add_u64_no_overflow [simp]:
  "unat a + unat b < 2 ^ 64 \<Longrightarrow> add_u64 checks a b = ret (a + b)"
  by (simp add: add_u64_def)

lemma add_u64_release [simp]: "add_u64 False a b = ret (a + b)"
  by (simp add: add_u64_def)

lemma add_u64_Inr:
  "add_u64 c a b s = Some (Inr x, t) \<longleftrightarrow> x = a + b \<and> t = s \<and> \<not> (c \<and> 2 ^ 64 \<le> unat a + unat b)"
  by (auto simp: add_u64_def ret_def raise_def)

lemma ret_Inr: "ret x s = Some (Inr y, t) \<longleftrightarrow> y = x \<and> t = s"
  by (auto simp: ret_def)

section \<open>Little-endian bytes\<close>

text \<open>
  \<open>to_ne_bytes\<close> and \<open>transmute\<close> to bytes on x86\_64: the least significant byte first.
\<close>

definition le_bytes :: "nat \<Rightarrow> 'a::len word \<Rightarrow> u8 list" where
  "le_bytes n w = map (\<lambda>i. ucast (drop_bit (8 * i) w)) [0..<n]"

primrec of_le_bytes :: "u8 list \<Rightarrow> 'a::len word" where
  "of_le_bytes [] = 0"
| "of_le_bytes (b # bs) = ucast b OR push_bit 8 (of_le_bytes bs)"

lemma length_le_bytes [simp, le_simps]: "length (le_bytes n w) = n"
  by (simp add: le_bytes_def)

lemma bit_of_le_bytes:
  "bit (of_le_bytes bs :: 'a::len word) k \<longleftrightarrow>
     k < LENGTH('a) \<and> k div 8 < length bs \<and> bit (bs ! (k div 8)) (k mod 8)"
proof (induction bs arbitrary: k)
  case Nil
  then show ?case by simp
next
  case (Cons b bs)
  show ?case
  proof (cases "k < 8")
    case True
    then show ?thesis
      by (auto simp: bit_or_iff bit_push_bit_iff bit_ucast_iff bit_imp_le_length)
  next
    case False
    then obtain k' where k: "k = k' + 8"
      by (metis add.commute le_Suc_ex not_less)
    have "\<not> bit b (k' + 8)"
      by (auto dest: bit_imp_le_length)
    moreover have "(k' + 8) div 8 = Suc (k' div 8)" "(k' + 8) mod 8 = k' mod 8"
      by simp_all
    moreover have "bit (of_le_bytes bs :: 'a word) k' \<Longrightarrow> k' < LENGTH('a)"
      by (rule bit_imp_le_length)
    ultimately show ?thesis
      unfolding k using Cons.IH [of k']
      by (simp add: bit_or_iff bit_push_bit_iff bit_ucast_iff) linarith
  qed
qed

lemma nth_le_bytes: "i < n \<Longrightarrow> le_bytes n w ! i = ucast (drop_bit (8 * i) w)"
  by (simp add: le_bytes_def)

lemma of_le_bytes_le_bytes [simp, le_simps]:
  fixes w :: "'a::len word"
  assumes "LENGTH('a) = 8 * n"
  shows "of_le_bytes (le_bytes n w) = w"
proof (rule bit_word_eqI)
  fix k
  assume k: "k < LENGTH('a)"
  with assms have "k div 8 < n" by linarith
  moreover have "8 * (k div 8) + k mod 8 = k" by simp
  ultimately show "bit (of_le_bytes (le_bytes n w) :: 'a word) k = bit w k"
    using k by (simp add: bit_of_le_bytes nth_le_bytes bit_ucast_iff bit_drop_bit_eq)
qed

lemma le_bytes_of_le_bytes [simp, le_simps]:
  assumes "LENGTH('a) = 8 * length bs" and "n = length bs"
  shows "le_bytes n (of_le_bytes bs :: 'a::len word) = bs"
proof (rule nth_equalityI)
  show "length (le_bytes n (of_le_bytes bs :: 'a word)) = length bs"
    using assms by simp
next
  fix i
  assume i: "i < length (le_bytes n (of_le_bytes bs :: 'a word))"
  show "le_bytes n (of_le_bytes bs :: 'a word) ! i = bs ! i"
  proof (rule bit_word_eqI)
    fix j
    assume "j < LENGTH(8)"
    then show "bit (le_bytes n (of_le_bytes bs :: 'a word) ! i) j = bit (bs ! i) j"
      using i assms by (simp add: nth_le_bytes bit_ucast_iff bit_drop_bit_eq bit_of_le_bytes)
  qed
qed

text \<open>The interface the users of an encoding rely on: a fixed width and a left inverse.\<close>

locale byte_codec =
  fixes enc :: "'v \<Rightarrow> u8 list" and dec :: "u8 list \<Rightarrow> 'v" and width :: nat
  assumes length_enc: "length (enc v) = width"
    and dec_enc: "dec (enc v) = v"
begin

lemma enc_eq_iff: "enc v = enc v' \<longleftrightarrow> v = v'"
  by (metis dec_enc)

lemma enc_append_eq_iff: "enc v @ xs = enc v' @ ys \<longleftrightarrow> v = v' \<and> xs = ys"
  by (simp add: length_enc append_eq_append_conv enc_eq_iff)

lemma take_enc: "take width (enc v @ xs) = enc v"
  by (simp add: length_enc)

lemma concat_enc_append_eq:
  "length vs = length vs' \<Longrightarrow>
     concat (map enc vs) @ xs = concat (map enc vs') @ ys \<longleftrightarrow> vs = vs' \<and> xs = ys"
proof (induction vs vs' rule: list_induct2)
  case Nil
  then show ?case by simp
next
  case (Cons v vs v' vs')
  then show ?case by (simp add: enc_append_eq_iff)
qed

end

interpretation u64_le: byte_codec "le_bytes 8 :: u64 \<Rightarrow> u8 list" of_le_bytes 8
  by unfold_locales simp_all

interpretation u32_le: byte_codec "le_bytes 4 :: u32 \<Rightarrow> u8 list" of_le_bytes 4
  by unfold_locales simp_all

interpretation u128_le: byte_codec "le_bytes 16 :: 128 word \<Rightarrow> u8 list" of_le_bytes 16
  by unfold_locales simp_all

section \<open>Hash maps\<close>

text \<open>
  \<open>std::collections::HashMap\<close> as an association list with distinct keys. Lookups see only the
  map it denotes. Its iteration order depends on a random seed: code that iterates takes the
  order from the platform (see \<open>Whp_Api\<close>), never from the list.
\<close>

type_synonym ('k, 'v) hmap = "('k \<times> 'v) list"

definition hm_insert :: "'k \<Rightarrow> 'v \<Rightarrow> ('k, 'v) hmap \<Rightarrow> ('k, 'v) hmap" where
  "hm_insert = AList.update"

definition hm_get :: "('k, 'v) hmap \<Rightarrow> 'k \<Rightarrow> 'v option" where
  "hm_get = map_of"

definition hm_keys :: "('k, 'v) hmap \<Rightarrow> 'k list" where
  "hm_keys m = map fst m"

definition hm_inv :: "('k, 'v) hmap \<Rightarrow> bool" where
  "hm_inv m \<longleftrightarrow> distinct (map fst m)"

locale finite_map =
  fixes empty :: 'm
    and insert :: "'k::linorder \<Rightarrow> 'v \<Rightarrow> 'm \<Rightarrow> 'm"
    and get :: "'m \<Rightarrow> 'k \<Rightarrow> 'v option"
    and keys :: "'m \<Rightarrow> 'k list"
    and invar :: "'m \<Rightarrow> bool"
  assumes invar_empty: "invar empty"
    and get_empty: "get empty k = None"
    and invar_insert: "invar m \<Longrightarrow> invar (insert k v m)"
    and get_insert: "get (insert k v m) = (get m)(k \<mapsto> v)"
    and set_keys: "set (keys m) = dom (get m)"
    and distinct_keys: "invar m \<Longrightarrow> distinct (keys m)"
begin

lemma get_insert_same: "get (insert k v m) k = Some v"
  by (simp add: get_insert)

lemma get_insert_other: "k' \<noteq> k \<Longrightarrow> get (insert k v m) k' = get m k'"
  by (simp add: get_insert)

lemma insert_commute: "k \<noteq> k' \<Longrightarrow> get (insert k v (insert k' v' m)) = get (insert k' v' (insert k v m))"
  by (simp add: get_insert fun_upd_twist)

lemma sort_keys: "invar m \<Longrightarrow> sort (keys m) = sorted_list_of_set (dom (get m))"
  by (simp add: set_keys [symmetric] sorted_list_of_set_sort_remdups distinct_keys
      distinct_remdups_id)

lemma sort_keys_cong:
  "invar m \<Longrightarrow> invar m' \<Longrightarrow> dom (get m) = dom (get m') \<Longrightarrow> sort (keys m) = sort (keys m')"
  by (simp add: sort_keys)

end

interpretation hm: finite_map "[]" hm_insert hm_get hm_keys hm_inv
proof unfold_locales
  fix k :: 'a and v :: 'b and m :: "('a, 'b) hmap"
  show "hm_inv ([] :: ('a, 'b) hmap)" by (simp add: hm_inv_def)
  show "hm_get ([] :: ('a, 'b) hmap) k = None" by (simp add: hm_get_def)
  show "hm_inv m \<Longrightarrow> hm_inv (hm_insert k v m)"
    by (simp add: hm_inv_def hm_insert_def distinct_update)
  show "hm_get (hm_insert k v m) = (hm_get m)(k \<mapsto> v)"
    by (simp add: hm_get_def hm_insert_def update_conv')
  show "set (hm_keys m) = dom (hm_get m)"
    by (simp add: hm_keys_def hm_get_def dom_map_of_conv_image_fst)
  show "hm_inv m \<Longrightarrow> distinct (hm_keys m)"
    by (simp add: hm_inv_def hm_keys_def)
qed

end
