(* ===== verification/Host_Heap.thy ===== *)
theory Host_Heap
  imports Vestigium_Prelude
begin

text \<open>
  The host process memory the sources reach through \<open>std::alloc\<close> and raw pointers:
  \<open>Layout::from_size_align\<close>, \<open>alloc_zeroed\<close>, \<open>dealloc\<close>, \<open>ptr::copy_nonoverlapping\<close>,
  reads and writes at an offset of an allocation. Every use outside the documented contract of
  these functions is the failure \<open>Undefined\<close>. The locale \<open>host_memory\<close> is the interface the
  components use; the heap implements it.
\<close>

section \<open>Allocations\<close>

text \<open>
  A pointer is the identity of an allocation; \<open>0\<close> is the null pointer. Derived pointers
  (\<open>ptr.add(i)\<close>) are written as a base pointer and a byte offset. \<open>h_avail\<close> is the number of
  bytes the allocator can still hand out: a request beyond it returns null.
\<close>

type_synonym ptr = nat

record layout =
  l_size :: usize
  l_align :: usize

record block =
  b_layout :: layout
  b_bytes :: "u8 list"

record heap =
  h_blocks :: "ptr \<rightharpoonup> block"
  h_next :: ptr
  h_avail :: nat

text \<open>
  \<open>Layout::from_size_align\<close> rejects an alignment that is not a power of two and a size that,
  rounded up to the alignment, exceeds \<open>isize::MAX\<close>. The sources only use the alignment 4096.
\<close>

definition Layout_from_size_align :: "usize \<Rightarrow> usize \<Rightarrow> layout option" where
  "Layout_from_size_align sz align =
     (if align \<noteq> 0 \<and> align AND (align - 1) = 0 \<and> unat sz + (unat align - 1) \<le> 2 ^ 63 - 1
      then Some \<lparr>l_size = sz, l_align = align\<rparr> else None)"

definition alloc_zeroed :: "layout \<Rightarrow> (heap, ptr) cmd" where
  "alloc_zeroed l hp =
     (if l_size l = 0 then Some (Inl (Undefined ZeroSizeAlloc), hp)
      else if h_avail hp < unat (l_size l) then Some (Inr 0, hp)
      else Some (Inr (h_next hp),
        hp\<lparr>h_blocks := (h_blocks hp)(h_next hp \<mapsto>
               \<lparr>b_layout = l, b_bytes = replicate (unat (l_size l)) 0\<rparr>),
           h_next := Suc (h_next hp), h_avail := h_avail hp - unat (l_size l)\<rparr>))"

definition dealloc :: "ptr \<Rightarrow> layout \<Rightarrow> (heap, unit) cmd" where
  "dealloc p l hp = (case h_blocks hp p of
      None \<Rightarrow> Some (Inl (Undefined Dangling), hp)
    | Some b \<Rightarrow>
        if b_layout b = l
        then Some (Inr (), hp\<lparr>h_blocks := (h_blocks hp)(p := None),
                              h_avail := h_avail hp + unat (l_size l)\<rparr>)
        else Some (Inl (Undefined Dangling), hp))"

text \<open>Where an access through \<open>p\<close> of \<open>n\<close> bytes at offset \<open>off\<close> goes wrong, if it does.\<close>

definition access_fault :: "heap \<Rightarrow> ptr \<Rightarrow> nat \<Rightarrow> nat \<Rightarrow> ub option" where
  "access_fault hp p off n =
     (if p = 0 then Some NullPointer
      else case h_blocks hp p of
        None \<Rightarrow> Some Dangling
      | Some b \<Rightarrow> if off + n \<le> length (b_bytes b) then None else Some OutOfBounds)"

text \<open>\<open>ptr.add(off)\<close> must stay inside the allocation, or one past its end.\<close>

definition ptr_add :: "ptr \<Rightarrow> nat \<Rightarrow> (heap, unit) cmd" where
  "ptr_add p off hp = (case access_fault hp p off 0 of
      Some u \<Rightarrow> Some (Inl (Undefined u), hp)
    | None \<Rightarrow> Some (Inr (), hp))"

definition heap_read :: "ptr \<Rightarrow> nat \<Rightarrow> nat \<Rightarrow> (heap, u8 list) cmd" where
  "heap_read p off n hp = (case access_fault hp p off n of
      Some u \<Rightarrow> Some (Inl (Undefined u), hp)
    | None \<Rightarrow> Some (Inr (take n (drop off (b_bytes (the (h_blocks hp p))))), hp))"

definition patch :: "nat \<Rightarrow> 'a list \<Rightarrow> 'a list \<Rightarrow> 'a list" where
  "patch off xs bs = take off bs @ xs @ drop (off + length xs) bs"

definition heap_write :: "ptr \<Rightarrow> nat \<Rightarrow> u8 list \<Rightarrow> (heap, unit) cmd" where
  "heap_write p off xs hp = (case access_fault hp p off (length xs) of
      Some u \<Rightarrow> Some (Inl (Undefined u), hp)
    | None \<Rightarrow> Some (Inr (), hp\<lparr>h_blocks := (h_blocks hp)(p \<mapsto>
        (the (h_blocks hp p))\<lparr>b_bytes := patch off xs (b_bytes (the (h_blocks hp p)))\<rparr>)\<rparr>))"

text \<open>\<open>ptr::copy_nonoverlapping(src, dst, n)\<close> between the starts of two allocations.\<close>

definition copy_nonoverlapping :: "ptr \<Rightarrow> ptr \<Rightarrow> nat \<Rightarrow> (heap, unit) cmd" where
  "copy_nonoverlapping src dst n =
     (if src = dst \<and> 0 < n then raise (Undefined Overlap)
      else bindE (heap_read src 0 n) (heap_write dst 0))"

text \<open>
  \<open>copy_nonoverlapping\<close> from a borrowed slice into an allocation: the source is another
  allocation, so only the two bounds matter.
\<close>

definition copy_from_slice :: "u8 list \<Rightarrow> ptr \<Rightarrow> nat \<Rightarrow> nat \<Rightarrow> (heap, unit) cmd" where
  "copy_from_slice src p off n =
     (if length src < n then raise (Undefined OutOfBounds) else heap_write p off (take n src))"

section \<open>The invariant and the abstract view\<close>

definition heap_inv :: "heap \<Rightarrow> bool" where
  "heap_inv hp \<longleftrightarrow> 0 < h_next hp \<and> (\<forall>p b. h_blocks hp p = Some b \<longrightarrow>
     0 < p \<and> p < h_next hp \<and> length (b_bytes b) = unat (l_size (b_layout b)))"

definition heap_content :: "heap \<Rightarrow> ptr \<Rightarrow> u8 list option" where
  "heap_content hp p = map_option b_bytes (h_blocks hp p)"

lemma length_patch [simp]: "off + length xs \<le> length bs \<Longrightarrow> length (patch off xs bs) = length bs"
  by (simp add: patch_def)

lemma patch_nth:
  assumes "off + length xs \<le> length bs" and "i < length bs"
  shows "patch off xs bs ! i = (if off \<le> i \<and> i < off + length xs then xs ! (i - off) else bs ! i)"
  using assms by (auto simp: patch_def nth_append min_def)

lemma patch_whole [simp]: "length xs = length bs \<Longrightarrow> patch 0 xs bs = xs"
  by (simp add: patch_def)

lemma take_drop_patch [simp]:
  "off + length xs \<le> length bs \<Longrightarrow> take (length xs) (drop off (patch off xs bs)) = xs"
  by (simp add: patch_def)

lemma heap_inv_not_null: "heap_inv hp \<Longrightarrow> heap_content hp p = Some bs \<Longrightarrow> p \<noteq> 0"
  by (auto simp: heap_inv_def heap_content_def)

lemma heap_content_fresh: "heap_inv hp \<Longrightarrow> heap_content hp (h_next hp) = None"
  by (cases "h_blocks hp (h_next hp)") (auto simp: heap_inv_def heap_content_def)

lemma access_fault_None_iff:
  "heap_inv hp \<Longrightarrow>
     access_fault hp p off n = None \<longleftrightarrow>
       (\<exists>bs. heap_content hp p = Some bs \<and> off + n \<le> length bs)"
  by (auto simp: access_fault_def heap_content_def heap_inv_def split: option.splits)

lemma ptr_add_ok:
  "heap_inv hp \<Longrightarrow> heap_content hp p = Some bs \<Longrightarrow> off \<le> length bs \<Longrightarrow>
     ptr_add p off hp = Some (Inr (), hp)"
  using access_fault_None_iff [of hp p off 0] by (simp add: ptr_add_def)

lemma heap_read_ok:
  assumes "heap_inv hp" and "heap_content hp p = Some bs" and "off + n \<le> length bs"
  shows "heap_read p off n hp = Some (Inr (take n (drop off bs)), hp)"
proof -
  have "access_fault hp p off n = None"
    using assms by (simp add: access_fault_None_iff)
  then show ?thesis
    using assms(2) by (auto simp: heap_read_def heap_content_def)
qed

lemma heap_write_ok:
  assumes "heap_inv hp" and "heap_content hp p = Some bs" and "off + length xs \<le> length bs"
  shows "\<exists>hp'. heap_write p off xs hp = Some (Inr (), hp') \<and> heap_inv hp' \<and>
    heap_content hp' = (heap_content hp)(p \<mapsto> patch off xs bs)"
proof -
  obtain b where b: "h_blocks hp p = Some b" "b_bytes b = bs"
    using assms(2) by (auto simp: heap_content_def)
  have "access_fault hp p off (length xs) = None"
    using assms by (simp add: access_fault_None_iff)
  then show ?thesis
    using assms b
    by (auto simp: heap_write_def heap_content_def heap_inv_def fun_eq_iff)
qed

lemma alloc_zeroed_cases:
  assumes "heap_inv hp" and "alloc_zeroed l hp = Some (Inr p, hp')"
  obtains (null) "p = 0" "hp' = hp" "h_avail hp < unat (l_size l)"
  | (block) "p \<noteq> 0" "heap_inv hp'" "heap_content hp p = None"
      "heap_content hp' = (heap_content hp)(p \<mapsto> replicate (unat (l_size l)) 0)"
proof (cases "h_avail hp < unat (l_size l)")
  case True
  then show ?thesis
    using assms(2) null by (auto simp: alloc_zeroed_def split: if_splits)
next
  case False
  then have eq: "p = h_next hp"
    "hp' = hp\<lparr>h_blocks := (h_blocks hp)(h_next hp \<mapsto>
        \<lparr>b_layout = l, b_bytes = replicate (unat (l_size l)) 0\<rparr>),
      h_next := Suc (h_next hp), h_avail := h_avail hp - unat (l_size l)\<rparr>"
    using assms(2) by (auto simp: alloc_zeroed_def split: if_splits)
  show ?thesis
  proof (rule block)
    show "p \<noteq> 0" "heap_inv hp'"
      using assms(1) eq by (auto simp: heap_inv_def less_Suc_eq)
    show "heap_content hp p = None"
      using assms(1) eq by (simp add: heap_content_fresh)
    show "heap_content hp' = (heap_content hp)(p \<mapsto> replicate (unat (l_size l)) 0)"
      using eq by (auto simp: heap_content_def)
  qed
qed

lemma alloc_zeroed_fresh:
  assumes "heap_inv hp" and "l_size l \<noteq> 0" and "unat (l_size l) \<le> h_avail hp"
  obtains hp' where "alloc_zeroed l hp = Some (Inr (h_next hp), hp')" and "h_next hp \<noteq> 0"
    and "heap_inv hp'" and "heap_content hp (h_next hp) = None"
    and "heap_content hp' = (heap_content hp)(h_next hp \<mapsto> replicate (unat (l_size l)) 0)"
proof -
  have n: "h_next hp \<noteq> 0" using assms(1) by (simp add: heap_inv_def)
  obtain hp' where a: "alloc_zeroed l hp = Some (Inr (h_next hp), hp')"
    using assms(2,3) by (simp add: alloc_zeroed_def)
  from assms(1) a show ?thesis
    by (cases rule: alloc_zeroed_cases) (use n a that in blast)+
qed

lemma dealloc_ok:
  assumes "heap_inv hp" and "dealloc p l hp = Some (Inr (), hp')"
  shows "heap_inv hp' \<and> heap_content hp' = (heap_content hp)(p := None)"
  using assms
  by (auto simp: dealloc_def heap_inv_def heap_content_def fun_eq_iff split: option.splits if_splits)

section \<open>The interface\<close>

text \<open>
  What the components use of host memory: a view of the allocations' contents, bounds-checked
  reads and writes, and fresh zeroed allocations. \<open>clone_into\<close>, proved here once, is the shape
  of every copy in the sources (\<open>capture_region\<close>, \<open>deserialize\<close>): fill a fresh allocation from
  bytes and leave every other allocation alone.
\<close>

locale host_memory =
  fixes inv :: "'s \<Rightarrow> bool"
    and content :: "'s \<Rightarrow> ptr \<Rightarrow> u8 list option"
    and rd :: "ptr \<Rightarrow> nat \<Rightarrow> nat \<Rightarrow> ('s, u8 list) cmd"
    and wr :: "ptr \<Rightarrow> nat \<Rightarrow> u8 list \<Rightarrow> ('s, unit) cmd"
  assumes read_ok: "inv s \<Longrightarrow> content s p = Some bs \<Longrightarrow> off + n \<le> length bs \<Longrightarrow>
      rd p off n s = Some (Inr (take n (drop off bs)), s)"
    and write_ok: "inv s \<Longrightarrow> content s p = Some bs \<Longrightarrow> off + length xs \<le> length bs \<Longrightarrow>
      \<exists>s'. wr p off xs s = Some (Inr (), s') \<and> inv s' \<and>
        content s' = (content s)(p \<mapsto> patch off xs bs)"
begin

lemma read_all:
  "inv s \<Longrightarrow> content s p = Some bs \<Longrightarrow> n = length bs \<Longrightarrow> rd p 0 n s = Some (Inr bs, s)"
  using read_ok [of s p bs 0 "length bs"] by simp

lemma write_all:
  "inv s \<Longrightarrow> content s p = Some bs \<Longrightarrow> length xs = length bs \<Longrightarrow>
     \<exists>s'. wr p 0 xs s = Some (Inr (), s') \<and> inv s' \<and> content s' = (content s)(p \<mapsto> xs)"
  using write_ok [of s p bs 0 xs] by simp

lemma write_then_read:
  assumes "inv s" and "content s p = Some bs" and "off + length xs \<le> length bs"
  shows "bindE (wr p off xs) (\<lambda>_. rd p off (length xs)) s = bindE (wr p off xs) (\<lambda>_. ret xs) s"
proof -
  obtain s' where s': "wr p off xs s = Some (Inr (), s')" "inv s'"
    "content s' p = Some (patch off xs bs)"
    using write_ok [OF assms] by auto
  then have "rd p off (length xs) s' = Some (Inr xs, s')"
    using read_ok [of s' p "patch off xs bs" off "length xs"] assms(3) by simp
  then show ?thesis using s' by (simp add: bindE_def ret_def)
qed

lemma clone_into:
  assumes "inv s" and "content s p = Some xs" and "content s q = Some bs"
    and "length bs = length xs" and "n = length xs"
  shows "\<exists>s'. bindE (rd p 0 n) (wr q 0) s = Some (Inr (), s') \<and> inv s' \<and>
    content s' = (content s)(q \<mapsto> xs)"
  using write_all [OF assms(1,3), of xs] assms read_all [OF assms(1,2)]
  by (simp add: bindE_def)

end

interpretation host: host_memory heap_inv heap_content heap_read heap_write
  by unfold_locales (auto intro: heap_read_ok heap_write_ok)

text \<open>
  Two heaps have the same shape when they hold the same allocations with the same layouts and
  sizes; running a guest changes bytes, never the shape.
\<close>

definition same_shape :: "heap \<Rightarrow> heap \<Rightarrow> bool" where
  "same_shape hp hp' \<longleftrightarrow> h_next hp' = h_next hp \<and> h_avail hp' = h_avail hp \<and>
     (\<forall>p. map_option (\<lambda>b. (b_layout b, length (b_bytes b))) (h_blocks hp' p) =
          map_option (\<lambda>b. (b_layout b, length (b_bytes b))) (h_blocks hp p))"

lemma same_shape_block:
  assumes "same_shape hp hp'" and "h_blocks hp' p = Some b'"
  obtains b where "h_blocks hp p = Some b" and "b_layout b' = b_layout b"
    and "length (b_bytes b') = length (b_bytes b)"
proof -
  have "map_option (\<lambda>b. (b_layout b, length (b_bytes b))) (h_blocks hp' p) =
      map_option (\<lambda>b. (b_layout b, length (b_bytes b))) (h_blocks hp p)"
    using assms(1) by (simp only: same_shape_def)
  then show ?thesis using assms(2) that by (cases "h_blocks hp p") simp_all
qed

lemma same_shape_inv:
  assumes "same_shape hp hp'" and "heap_inv hp"
  shows "heap_inv hp'"
proof -
  have "0 < p \<and> p < h_next hp' \<and> length (b_bytes b') = unat (l_size (b_layout b'))"
    if h: "h_blocks hp' p = Some b'" for p b'
  proof -
    obtain b where "h_blocks hp p = Some b" "b_layout b' = b_layout b"
      "length (b_bytes b') = length (b_bytes b)"
      using same_shape_block [OF assms(1) h] .
    then show ?thesis
      using assms by (simp add: heap_inv_def same_shape_def)
  qed
  then show ?thesis
    using assms by (simp add: heap_inv_def same_shape_def)
qed

lemma same_shape_refl [simp]: "same_shape hp hp"
  by (simp add: same_shape_def)

lemma same_shape_trans: "same_shape a b \<Longrightarrow> same_shape b c \<Longrightarrow> same_shape a c"
  by (simp add: same_shape_def)

lemma same_shape_length:
  "same_shape hp hp' \<Longrightarrow>
     map_option length (heap_content hp' p) = map_option length (heap_content hp p)"
proof -
  assume "same_shape hp hp'"
  then have "map_option snd (map_option (\<lambda>b. (b_layout b, length (b_bytes b))) (h_blocks hp' p)) =
      map_option snd (map_option (\<lambda>b. (b_layout b, length (b_bytes b))) (h_blocks hp p))"
    by (simp add: same_shape_def)
  then show ?thesis
    by (simp add: heap_content_def option.map_comp comp_def)
qed

lemma heap_write_shape:
  assumes "heap_write p off xs hp = Some (Inr (), hp')"
  shows "same_shape hp hp'" and "q \<noteq> p \<Longrightarrow> h_blocks hp' q = h_blocks hp q"
  using assms
  by (auto simp: heap_write_def same_shape_def access_fault_def split: option.splits if_splits)

end
