(* ===== verification/Pe_Loader.thy ===== *)
theory Pe_Loader
  imports Host_Heap
begin

text \<open>
  \<open>crates/engine/src/loader.rs\<close>: laying out a PE image in host memory. The parser is the
  \<open>goblin\<close> crate; the record \<open>PE\<close> holds the fields of its result that the loader reads, and the
  parsing function is an argument. The parser checks none of the addresses the copy loop uses,
  so every bound the loop relies on is a case of the model.
\<close>

record section_table =
  virtual_address :: u32
  pointer_to_raw_data :: u32
  size_of_raw_data :: u32

record PE =
  pe_entry :: u32
  pe_size_of_image :: "u32 option"
  pe_sections :: "section_table list"

record PeLoader =
  pl_pe :: PE
  raw_bytes :: "u8 list"

definition PeLoader_parse :: "(u8 list \<Rightarrow> 'e + PE) \<Rightarrow> u8 list \<Rightarrow> 'e + PeLoader" where
  "PeLoader_parse goblin bytes = (case goblin bytes of
      Inl e \<Rightarrow> Inl e
    | Inr pe \<Rightarrow> Inr \<lparr>pl_pe = pe, raw_bytes = bytes\<rparr>)"

definition entry_point :: "PeLoader \<Rightarrow> usize" where
  "entry_point l = ucast (pe_entry (pl_pe l))"

definition aligned_size :: "PeLoader \<Rightarrow> usize" where
  "aligned_size l =
    (let size_of_image = (case pe_size_of_image (pl_pe l) of None \<Rightarrow> 0 | Some n \<Rightarrow> ucast n) :: usize
     in (size_of_image + 4095) AND NOT 4095)"

definition map_section :: "u8 list \<Rightarrow> ptr \<Rightarrow> section_table \<Rightarrow> (heap, unit) cmd" where
  "map_section bytes host_mem s =
    (let va = unat (virtual_address s); raw_ptr = unat (pointer_to_raw_data s);
         raw_size = unat (size_of_raw_data s)
     in if 0 < raw_ptr \<and> 0 < raw_size then
          thenE (ptr_add host_mem va)
         (if length bytes < raw_ptr then raise (Panic SliceOutOfRange)
          else copy_from_slice (drop raw_ptr bytes) host_mem va raw_size)
        else ret ())"

definition map_into_memory :: "PeLoader \<Rightarrow> (heap, ptr \<times> usize) cmd" where
  "map_into_memory l =
     bindE (expect_some ''Invalid alignment layout'' (Layout_from_size_align (aligned_size l) 4096)) (\<lambda>layout.
     bindE (alloc_zeroed layout) (\<lambda>host_mem.
     thenE (assert_that (host_mem \<noteq> 0))
    (thenE (for_each (pe_sections (pl_pe l)) (map_section (raw_bytes l) host_mem))
    (ret (host_mem, aligned_size l)))))"

section \<open>The size of the image\<close>

lemma and_not_4095: "unat (x AND - 4096 :: u64) = unat x div 4096 * 4096"
proof -
  have m: "(- 4096 :: u64) = NOT (mask 12)"
    using minus_exp_eq_not_mask [of 12, where ?'a = u64] by simp
  have "x AND - 4096 = push_bit 12 (drop_bit 12 x)"
    unfolding m
    by (rule bit_word_eqI) (auto simp: bit_and_iff bit_not_iff bit_mask_iff bit_push_bit_iff bit_drop_bit_eq)
  moreover have "unat x div 4096 * 4096 < 2 ^ 64"
    using unsigned_less [of x, where ?'a = nat] by (simp add: order_le_less_trans [OF div_times_less_eq_dividend])
  then have "unat (push_bit 12 (drop_bit 12 x)) = unat x div 4096 * 4096"
    by (simp add: push_bit_eq_mult drop_bit_eq_div unat_word_ariths unat_div)
  ultimately show ?thesis by (simp only:)
qed

lemma unat_aligned_size:
  "unat (aligned_size l) =
    (case pe_size_of_image (pl_pe l) of None \<Rightarrow> 0 | Some n \<Rightarrow> (unat n + 4095) div 4096 * 4096)"
proof (cases "pe_size_of_image (pl_pe l)")
  case None
  then show ?thesis by (simp add: aligned_size_def and_not_4095)
next
  case (Some n)
  have n: "unat (ucast n :: u64) = unat n" "unat n < 2 ^ 32"
    using unsigned_less [of n, where ?'a = nat] by (simp_all add: unsigned_ucast_eq take_bit_eq_mod)
  have "unat (ucast n + 4095 :: u64) = unat n + 4095"
    using n by (simp add: unat_word_ariths)
  then show ?thesis using Some by (simp add: aligned_size_def and_not_4095)
qed

section \<open>The image\<close>

definition loaded :: "section_table \<Rightarrow> bool" where
  "loaded s \<longleftrightarrow> 0 < unat (pointer_to_raw_data s) \<and> 0 < unat (size_of_raw_data s)"

text \<open>The bounds the copy of a section relies on: in the image and in the file.\<close>

definition section_ok :: "nat \<Rightarrow> nat \<Rightarrow> section_table \<Rightarrow> bool" where
  "section_ok image_size file_size s \<longleftrightarrow> (loaded s \<longrightarrow>
     unat (virtual_address s) + unat (size_of_raw_data s) \<le> image_size \<and>
     unat (pointer_to_raw_data s) + unat (size_of_raw_data s) \<le> file_size)"

definition covers :: "nat \<Rightarrow> section_table \<Rightarrow> bool" where
  "covers i s \<longleftrightarrow> loaded s \<and> unat (virtual_address s) \<le> i \<and>
     i < unat (virtual_address s) + unat (size_of_raw_data s)"

text \<open>What byte \<open>i\<close> of the image is: from the last section that covers it, or the default.\<close>

definition image_byte :: "u8 list \<Rightarrow> section_table list \<Rightarrow> u8 \<Rightarrow> nat \<Rightarrow> u8" where
  "image_byte bytes ss dflt i = (case find (covers i) (rev ss) of
      None \<Rightarrow> dflt
    | Some s \<Rightarrow> bytes ! (unat (pointer_to_raw_data s) + (i - unat (virtual_address s))))"

lemma image_byte_Nil [simp]: "image_byte bytes [] d i = d"
  by (simp add: image_byte_def)

lemma find_append: "find p (xs @ ys) = (case find p xs of None \<Rightarrow> find p ys | r \<Rightarrow> r)"
  by (induction xs) simp_all

lemma image_byte_Cons:
  "image_byte bytes (s # ss) d i = image_byte bytes ss
     (if covers i s then bytes ! (unat (pointer_to_raw_data s) + (i - unat (virtual_address s))) else d) i"
  by (simp add: image_byte_def find_append split: option.splits)

lemma map_section_ok:
  assumes inv: "heap_inv hp" and q: "heap_content hp q = Some bs"
    and ok: "section_ok (length bs) (length bytes) s"
  shows "\<exists>hp' bs'. map_section bytes q s hp = Some (Inr (), hp') \<and> heap_inv hp'
    \<and> heap_content hp' = (heap_content hp)(q \<mapsto> bs') \<and> length bs' = length bs
    \<and> (\<forall>i < length bs. bs' ! i = (if covers i s
         then bytes ! (unat (pointer_to_raw_data s) + (i - unat (virtual_address s))) else bs ! i))"
proof (cases "loaded s")
  case False
  then show ?thesis
    using inv q by (intro exI [of _ hp] exI [of _ bs])
      (auto simp: map_section_def loaded_def covers_def Let_def ret_def fun_eq_iff)
next
  case True
  define va rp rs where d: "va = unat (virtual_address s)" "rp = unat (pointer_to_raw_data s)"
    "rs = unat (size_of_raw_data s)"
  have b: "va + rs \<le> length bs" "rp + rs \<le> length bytes" "0 < rp" "0 < rs"
    using True ok by (auto simp: section_ok_def loaded_def d)
  let ?xs = "take rs (drop rp bytes)"
  obtain hp' where hp': "heap_write q va ?xs hp = Some (Inr (), hp')" "heap_inv hp'"
    "heap_content hp' = (heap_content hp)(q \<mapsto> patch va ?xs bs)"
    using heap_write_ok [OF inv q, of va ?xs] b by auto
  have "map_section bytes q s hp = Some (Inr (), hp')"
    using hp'(1) b ptr_add_ok [OF inv q, of va]
    by (auto simp: map_section_def copy_from_slice_def thenE_step simp flip: d)
  moreover have "patch va ?xs bs ! i = (if covers i s then bytes ! (rp + (i - va)) else bs ! i)"
    if "i < length bs" for i
    using that b True by (auto simp: patch_nth covers_def d)
  ultimately show ?thesis
    using hp'(2,3) b by (intro exI [of _ hp'] exI [of _ "patch va ?xs bs"]) (simp add: d)
qed

lemma map_sections_ok:
  assumes "heap_inv hp" and "heap_content hp q = Some bs"
    and "\<forall>s \<in> set ss. section_ok (length bs) (length bytes) s"
  shows "\<exists>hp' bs'. for_each ss (map_section bytes q) hp = Some (Inr (), hp') \<and> heap_inv hp'
    \<and> heap_content hp' = (heap_content hp)(q \<mapsto> bs') \<and> length bs' = length bs
    \<and> (\<forall>i < length bs. bs' ! i = image_byte bytes ss (bs ! i) i)"
  using assms
proof (induction ss arbitrary: hp bs)
  case Nil
  then show ?case by (intro exI [of _ hp] exI [of _ bs]) (auto simp: ret_def fun_eq_iff)
next
  case (Cons s ss)
  obtain hp1 bs1 where 1: "map_section bytes q s hp = Some (Inr (), hp1)" "heap_inv hp1"
    "heap_content hp1 = (heap_content hp)(q \<mapsto> bs1)" "length bs1 = length bs"
    "\<forall>i < length bs. bs1 ! i = (if covers i s
       then bytes ! (unat (pointer_to_raw_data s) + (i - unat (virtual_address s))) else bs ! i)"
    using map_section_ok [OF Cons.prems(1,2), of bytes s] Cons.prems(3) by auto
  obtain hp2 bs2 where "for_each ss (map_section bytes q) hp1 = Some (Inr (), hp2)" "heap_inv hp2"
    "heap_content hp2 = (heap_content hp1)(q \<mapsto> bs2)" "length bs2 = length bs1"
    "\<forall>i < length bs1. bs2 ! i = image_byte bytes ss (bs1 ! i) i"
    using Cons.IH [OF 1(2), of bs1] 1(3,4) Cons.prems(3) fun_upd_same [of "heap_content hp" q "Some bs1"]
    by (simp del: fun_upd_apply) blast
  then show ?case
    using 1 by (intro exI [of _ hp2] exI [of _ bs2]) (simp add: thenE_step image_byte_Cons)
qed

lemma aligned_layout:
  "Layout_from_size_align (aligned_size l) 4096 = Some \<lparr>l_size = aligned_size l, l_align = 4096\<rparr>"
proof -
  have "unat (aligned_size l) < 2 ^ 33"
  proof (cases "pe_size_of_image (pl_pe l)")
    case (Some n)
    have "(unat n + 4095) div 4096 * 4096 \<le> unat n + 4095" by (rule div_times_less_eq_dividend)
    then show ?thesis
      using Some unsigned_less [of n, where ?'a = nat] by (simp add: unat_aligned_size)
  qed (simp add: unat_aligned_size)
  then show ?thesis by (simp add: Layout_from_size_align_def)
qed

lemma map_into_memory_ok:
  assumes inv: "heap_inv hp" and sz: "aligned_size l \<noteq> 0" "unat (aligned_size l) \<le> h_avail hp"
    and ok: "\<forall>s \<in> set (pe_sections (pl_pe l)). section_ok (unat (aligned_size l)) (length (raw_bytes l)) s"
  shows "\<exists>hp' bs. map_into_memory l hp = Some (Inr (h_next hp, aligned_size l), hp') \<and> heap_inv hp'
    \<and> heap_content hp (h_next hp) = None \<and> heap_content hp' = (heap_content hp)(h_next hp \<mapsto> bs)
    \<and> length bs = unat (aligned_size l)
    \<and> (\<forall>i < length bs. bs ! i = image_byte (raw_bytes l) (pe_sections (pl_pe l)) 0 i)"
proof -
  define q where "q = h_next hp"
  define lay where "lay = \<lparr>l_size = aligned_size l, l_align = 4096 :: usize\<rparr>"
  obtain hp1 where a: "alloc_zeroed lay hp = Some (Inr q, hp1)" and q0: "q \<noteq> 0"
    and hp1: "heap_inv hp1" "heap_content hp q = None"
      "heap_content hp1 = (heap_content hp)(q \<mapsto> replicate (unat (aligned_size l)) 0)"
    using alloc_zeroed_fresh [OF inv, of lay] sz unfolding q_def lay_def by auto
  obtain hp2 bs where "for_each (pe_sections (pl_pe l)) (map_section (raw_bytes l) q) hp1 = Some (Inr (), hp2)"
    "heap_inv hp2" "heap_content hp2 = (heap_content hp1)(q \<mapsto> bs)" "length bs = unat (aligned_size l)"
    "\<forall>i < unat (aligned_size l). bs ! i = image_byte (raw_bytes l) (pe_sections (pl_pe l)) 0 i"
    using map_sections_ok [OF hp1(1), of q "replicate (unat (aligned_size l)) 0" "pe_sections (pl_pe l)" "raw_bytes l"]
      hp1(3) ok by auto
  then show ?thesis
    using a q0 hp1 unfolding map_into_memory_def aligned_layout lay_def [symmetric]
    by (intro exI [of _ hp2] exI [of _ bs]) (simp add: bindE_step thenE_step cmd_simps flip: q_def)
qed

section \<open>Images that are not loaded\<close>

text \<open>
  A section that leaves the image or the file: nothing in the loader or the parser stops the
  copy. Only a section that starts behind the end of the file panics.
\<close>

lemma map_section_bad:
  assumes inv: "heap_inv hp" and q: "heap_content hp q = Some bs"
    and bad: "\<not> section_ok (length bs) (length bytes) s"
  shows "map_section bytes q s hp =
    Some (Inl (if unat (virtual_address s) \<le> length bs \<and> length bytes < unat (pointer_to_raw_data s)
               then Panic SliceOutOfRange else Undefined OutOfBounds), hp)"
proof -
  have l: "0 < unat (pointer_to_raw_data s)" "0 < unat (size_of_raw_data s)"
    using bad by (auto simp: section_ok_def loaded_def)
  obtain b where b: "h_blocks hp q = Some b" "b_bytes b = bs" "q \<noteq> 0"
    using q heap_inv_not_null [OF inv q] by (auto simp: heap_content_def)
  show ?thesis
    using l b bad
    by (auto simp: map_section_def ptr_add_def access_fault_def thenE_def bindE_def raise_def
        copy_from_slice_def heap_write_def section_ok_def loaded_def Let_def)
qed

lemma map_sections_bad:
  assumes "heap_inv hp" and "heap_content hp q = Some bs"
    and "\<not> (\<forall>s \<in> set ss. section_ok (length bs) (length bytes) s)"
  shows "\<exists>f hp'. for_each ss (map_section bytes q) hp = Some (Inl f, hp')
    \<and> f \<in> {Panic SliceOutOfRange, Undefined OutOfBounds}"
  using assms
proof (induction ss arbitrary: hp bs)
  case (Cons s ss)
  show ?case
  proof (cases "section_ok (length bs) (length bytes) s")
    case True
    obtain hp1 bs1 where 1: "map_section bytes q s hp = Some (Inr (), hp1)" "heap_inv hp1"
      "heap_content hp1 q = Some bs1" "length bs1 = length bs"
      using map_section_ok [OF Cons.prems(1,2) True] by auto
    then show ?thesis
      using Cons.IH [OF 1(2,3)] Cons.prems(3) True by (simp add: thenE_step)
  next
    case False
    then show ?thesis
      using map_section_bad [OF Cons.prems(1,2) False] by (simp add: thenE_def bindE_def)
  qed
qed simp

lemma map_into_memory_bad:
  assumes inv: "heap_inv hp" and sz: "aligned_size l \<noteq> 0" "unat (aligned_size l) \<le> h_avail hp"
    and bad: "\<not> (\<forall>s \<in> set (pe_sections (pl_pe l)). section_ok (unat (aligned_size l)) (length (raw_bytes l)) s)"
  shows "\<exists>f hp'. map_into_memory l hp = Some (Inl f, hp') \<and> f \<in> {Panic SliceOutOfRange, Undefined OutOfBounds}"
proof -
  define q where "q = h_next hp"
  define lay where "lay = \<lparr>l_size = aligned_size l, l_align = 4096 :: usize\<rparr>"
  obtain hp1 where a: "alloc_zeroed lay hp = Some (Inr q, hp1)" and q0: "q \<noteq> 0" and inv1: "heap_inv hp1"
    and c: "heap_content hp1 = (heap_content hp)(q \<mapsto> replicate (unat (aligned_size l)) 0)"
    using alloc_zeroed_fresh [OF inv, of lay] sz unfolding q_def lay_def by auto
  obtain f hp2 where f: "for_each (pe_sections (pl_pe l)) (map_section (raw_bytes l) q) hp1 = Some (Inl f, hp2)"
    "f \<in> {Panic SliceOutOfRange, Undefined OutOfBounds}"
    using map_sections_bad [OF inv1, of q "replicate (unat (aligned_size l)) 0" "pe_sections (pl_pe l)" "raw_bytes l"] bad c by auto
  have "map_into_memory l hp = Some (Inl f, hp2)"
    using a q0 f(1) unfolding map_into_memory_def aligned_layout lay_def [symmetric]
    by (simp add: cmd_simps)
  then show ?thesis using f(2) by blast
qed

lemma map_into_memory_no_room:
  "aligned_size l = 0 \<Longrightarrow> map_into_memory l hp = Some (Inl (Undefined ZeroSizeAlloc), hp)"
  "h_avail hp < unat (aligned_size l) \<Longrightarrow> map_into_memory l hp = Some (Inl (Panic AssertFailed), hp)"
  using aligned_layout [of l] by (auto simp: map_into_memory_def cmd_simps alloc_zeroed_def)

text \<open>So a normal return means that every bound held.\<close>

lemma map_into_memory_returns:
  assumes "heap_inv hp" and "map_into_memory l hp = Some (Inr r, hp')"
  shows "aligned_size l \<noteq> 0 \<and> unat (aligned_size l) \<le> h_avail hp \<and>
    (\<forall>s \<in> set (pe_sections (pl_pe l)). section_ok (unat (aligned_size l)) (length (raw_bytes l)) s)"
proof -
  have "aligned_size l \<noteq> 0" "unat (aligned_size l) \<le> h_avail hp"
    using map_into_memory_no_room(1) [of l hp] map_into_memory_no_room(2) [of hp l] assms(2)
    by (auto intro: leI)
  then show ?thesis
    using map_into_memory_bad [OF assms(1)] assms(2) by fastforce
qed

section \<open>Properties\<close>

text \<open>
  C18. With room in the allocator and every section inside the image and the file,
  \<open>PeLoader::map_into_memory\<close> returns a fresh page-rounded allocation in which every byte is that
  of the last section covering it, and zero where no section does.
\<close>

theorem image_laid_out:
  assumes "heap_inv hp" and "aligned_size l \<noteq> 0" and "unat (aligned_size l) \<le> h_avail hp"
    and "\<forall>s \<in> set (pe_sections (pl_pe l)). section_ok (unat (aligned_size l)) (length (raw_bytes l)) s"
  shows "\<exists>hp' bs. map_into_memory l hp = Some (Inr (h_next hp, aligned_size l), hp') \<and> heap_inv hp'
    \<and> heap_content hp (h_next hp) = None \<and> heap_content hp' = (heap_content hp)(h_next hp \<mapsto> bs)
    \<and> length bs = unat (aligned_size l) \<and> length bs mod 4096 = 0
    \<and> (\<forall>i < length bs. bs ! i = image_byte (raw_bytes l) (pe_sections (pl_pe l)) 0 i)"
proof -
  have "unat (aligned_size l) mod 4096 = 0"
    by (simp add: unat_aligned_size split: option.splits)
  moreover obtain hp' bs where "map_into_memory l hp = Some (Inr (h_next hp, aligned_size l), hp')" "heap_inv hp'"
    "heap_content hp (h_next hp) = None" "heap_content hp' = (heap_content hp)(h_next hp \<mapsto> bs)"
    "length bs = unat (aligned_size l)"
    "\<forall>i < length bs. bs ! i = image_byte (raw_bytes l) (pe_sections (pl_pe l)) 0 i"
    using map_into_memory_ok [OF assms] by blast
  ultimately show ?thesis by (intro exI [of _ hp'] exI [of _ bs]) simp
qed

definition two_sections :: PeLoader where
  "two_sections = \<lparr>pl_pe = \<lparr>pe_entry = 0, pe_size_of_image = Some 3,
     pe_sections = [\<lparr>virtual_address = 0, pointer_to_raw_data = 1, size_of_raw_data = 2\<rparr>,
       \<lparr>virtual_address = 1, pointer_to_raw_data = 3, size_of_raw_data = 1\<rparr>]\<rparr>, raw_bytes = [9, 8, 7, 6]\<rparr>"

definition empty_heap :: heap where
  "empty_heap = \<lparr>h_blocks = Map.empty, h_next = 1, h_avail = 8192\<rparr>"

lemma two_sections_size: "unat (aligned_size two_sections) = 4096" "aligned_size two_sections \<noteq> 0"
proof -
  show "unat (aligned_size two_sections) = 4096" by (simp add: unat_aligned_size two_sections_def)
  then show "aligned_size two_sections \<noteq> 0" by auto
qed

theorem image_laid_out_witness:
  "\<exists>hp' bs. map_into_memory two_sections empty_heap = Some (Inr (1, aligned_size two_sections), hp')
     \<and> heap_content hp' 1 = Some bs \<and> length bs = 4096 \<and> bs ! 0 = 8 \<and> bs ! 1 = 6 \<and> bs ! 2 = 0"
proof -
  have h: "heap_inv empty_heap" "h_avail empty_heap = 8192" "h_next empty_heap = 1"
    by (simp_all add: empty_heap_def heap_inv_def)
  have s: "\<forall>s \<in> set (pe_sections (pl_pe two_sections)).
      section_ok (unat (aligned_size two_sections)) (length (raw_bytes two_sections)) s"
    unfolding two_sections_size by (simp add: two_sections_def section_ok_def)
  have "image_byte (raw_bytes two_sections) (pe_sections (pl_pe two_sections)) 0 0 = 8"
    "image_byte (raw_bytes two_sections) (pe_sections (pl_pe two_sections)) 0 1 = 6"
    "image_byte (raw_bytes two_sections) (pe_sections (pl_pe two_sections)) 0 2 = 0"
    by (simp_all add: two_sections_def image_byte_def covers_def loaded_def)
  then show ?thesis
    using image_laid_out [OF h(1) two_sections_size(2) _ s] two_sections_size(1) h(2,3) by auto
qed


definition wild_section :: PeLoader where
  "wild_section = \<lparr>pl_pe = \<lparr>pe_entry = 0, pe_size_of_image = Some 3,
     pe_sections = [\<lparr>virtual_address = 0, pointer_to_raw_data = 1, size_of_raw_data = 8\<rparr>]\<rparr>, raw_bytes = [9, 8, 7, 6]\<rparr>"


text \<open>
  An image of size zero, or a file without an optional header, is a zero-size allocation:
  undefined behaviour before any check; an image the allocator cannot serve panics.
\<close>

lemma image_without_size:
  "(pe_size_of_image (pl_pe l) \<in> {None, Some 0} \<longrightarrow> map_into_memory l hp = Some (Inl (Undefined ZeroSizeAlloc), hp))
   \<and> (h_avail hp < unat (aligned_size l) \<longrightarrow> map_into_memory l hp = Some (Inl (Panic AssertFailed), hp))"
proof -
  have "unat (aligned_size l) = 0" if "pe_size_of_image (pl_pe l) \<in> {None, Some 0}"
    using that by (auto simp: unat_aligned_size)
  then show ?thesis
    using map_into_memory_no_room(1) [of l hp] map_into_memory_no_room(2) [of hp l] by (auto simp: unat_eq_zero)
qed

end
