(* ===== verification/Whp_Api.thy ===== *)
theory Whp_Api
  imports Host_Heap
begin

text \<open>
  The Windows Hypervisor Platform (the \<open>windows\<close> crate) is not part of the repository: its
  functions are the fields of the record \<open>platform\<close>, an argument of every definition that calls
  them, over an arbitrary type of hypervisor states. The platform also carries what the sources do
  not fix of the build, the run-time library and the system: whether overflow checks are compiled
  in, the iteration order of \<open>HashMap\<close>, and which files can be written. \<open>world\<close> is the whole state an effectful function
  of the sources can touch.
\<close>

section \<open>The data types of the API\<close>

text \<open>The register names the sources use (\<open>WHV_REGISTER_NAME\<close>).\<close>

datatype reg_name =
    Rax | Rbx | Rcx | Rdx | Rsp | Rip | Rflags | Cr0 | Cr3 | Cr4 | Efer
  | Cs | Ds | Es | Fs | Gs | Ss | Tr | Ldtr

text \<open>
  \<open>WHV_REGISTER_VALUE\<close> is a union of 16 bytes. Its field \<open>Reg64\<close> is the low half; a literal
  that sets \<open>Reg64\<close> has the other half zero here, and no code of the repository reads it.
  \<open>Segment\<close> is the layout of \<open>WHV_X64_SEGMENT_REGISTER\<close>.
\<close>

type_synonym reg_value = "128 word"

definition Reg64 :: "reg_value \<Rightarrow> u64" where
  "Reg64 v = ucast v"

definition mk_Reg64 :: "u64 \<Rightarrow> reg_value" where
  "mk_Reg64 x = ucast x"

record segment =
  seg_base :: u64
  seg_limit :: u32
  seg_selector :: u16
  seg_attributes :: u16

definition mk_Segment :: "segment \<Rightarrow> reg_value" where
  "mk_Segment s = ucast (seg_base s) OR push_bit 64 (ucast (seg_limit s))
     OR push_bit 96 (ucast (seg_selector s)) OR push_bit 112 (ucast (seg_attributes s))"

lemma Reg64_mk_Reg64 [simp]: "Reg64 (mk_Reg64 x) = x"
  by (rule bit_word_eqI) (simp add: Reg64_def mk_Reg64_def bit_ucast_iff)

lemma Reg64_zero [simp]: "Reg64 0 = 0"
  by (simp add: Reg64_def)

type_synonym handle = u64

datatype partition_property = ProcessorCount u32 | ExtendedVmExits u64

text \<open>The fields of \<open>WHV_RUN_VP_EXIT_CONTEXT\<close> the sources read.\<close>

record exit_context =
  ExitReason :: u32
  vp_bitfield :: u8
  mem_Gpa :: u64
  mem_Gva :: u64

section \<open>The platform and the world\<close>

record 'h platform =
  WHvCreatePartition :: "'h \<Rightarrow> (u32 + handle) \<times> 'h"
  WHvSetPartitionProperty :: "handle \<Rightarrow> partition_property \<Rightarrow> 'h \<Rightarrow> (u32 + unit) \<times> 'h"
  WHvSetupPartition :: "handle \<Rightarrow> 'h \<Rightarrow> (u32 + unit) \<times> 'h"
  WHvDeletePartition :: "handle \<Rightarrow> 'h \<Rightarrow> (u32 + unit) \<times> 'h"
  WHvMapGpaRange :: "handle \<Rightarrow> ptr \<Rightarrow> u64 \<Rightarrow> u64 \<Rightarrow> u32 \<Rightarrow> 'h \<Rightarrow> (u32 + unit) \<times> 'h"
  WHvCreateVirtualProcessor :: "handle \<Rightarrow> u32 \<Rightarrow> u32 \<Rightarrow> 'h \<Rightarrow> (u32 + unit) \<times> 'h"
  WHvDeleteVirtualProcessor :: "handle \<Rightarrow> u32 \<Rightarrow> 'h \<Rightarrow> (u32 + unit) \<times> 'h"
  WHvGetVirtualProcessorRegisters ::
    "handle \<Rightarrow> u32 \<Rightarrow> reg_name list \<Rightarrow> 'h \<Rightarrow> (u32 + reg_value list) \<times> 'h"
  WHvSetVirtualProcessorRegisters ::
    "handle \<Rightarrow> u32 \<Rightarrow> reg_name list \<Rightarrow> reg_value list \<Rightarrow> 'h \<Rightarrow> (u32 + unit) \<times> 'h"
  WHvRunVirtualProcessor ::
    "handle \<Rightarrow> u32 \<Rightarrow> heap \<times> 'h \<Rightarrow> ((u32 + exit_context) \<times> heap \<times> 'h) option"
  overflow_checks :: bool
  hash_order :: "u64 list \<Rightarrow> u64 list"
  fs_writable :: "string \<Rightarrow> bool"

text \<open>Iterating over a map visits every key once, in whatever order.\<close>

definition iterates_all :: "'h platform \<Rightarrow> bool" where
  "iterates_all P \<longleftrightarrow> (\<forall>ks. distinct ks \<longrightarrow> distinct (hash_order P ks) \<and> set (hash_order P ks) = set ks)"

lemma iterates_all_length: "iterates_all P \<Longrightarrow> distinct ks \<Longrightarrow> length (hash_order P ks) = length ks"
  by (metis iterates_all_def distinct_card)

lemma iterates_all_sum:
  "iterates_all P \<Longrightarrow> distinct ks \<Longrightarrow>
     sum_list (map (f :: u64 \<Rightarrow> nat) (hash_order P ks)) = sum_list (map f ks)"
  by (simp add: iterates_all_def sum_list_distinct_conv_sum_set)

text \<open>
  Running a virtual processor executes guest code, which writes the host memory mapped into the
  guest and may never return control; that is why \<open>WHvRunVirtualProcessor\<close> also takes and
  returns the heap and is partial. The lines printed on the console are kept as values.
\<close>

datatype message =
    RecordingTarget string
  | TargetMapped u64 u64
  | StartingRecordMode
  | RecordEptViolation u64
  | GuestHaltedRecord u64
  | UnhandledExitRecord u32
  | RecordFinalHash u64
  | ExecutionCompleted nat
  | TraceDestination string
  | TraceSaved
  | ReplayingTrace string
  | LoadedSnapshot nat nat
  | SnapshotRestored
  | ReplayingEvents nat
  | GuestHaltedReplay u64
  | MismatchThread u32 u32
  | MismatchVmcall
  | UnhandledExitReplay u32
  | TraceReplayFinished
  | EptViolation
  | TargetGpa u64
  | TargetGva u64
  | HaltedNoRax
  | StoppedReason u32
  | ExecutionFailed u32
  | ExpectedHash u64
  | ReplayHash u64
  | VerificationSuccess

record 'h world =
  w_heap :: heap
  w_hv :: 'h
  w_out :: "message list"
  w_files :: "(string, u8 list) hmap"

definition println :: "message \<Rightarrow> ('h world, unit) cmd" where
  "println m w = Some (Inr (), w\<lparr>w_out := w_out w @ [m]\<rparr>)"

definition on_heap :: "(heap, 'a) cmd \<Rightarrow> ('h world, 'a) cmd" where
  "on_heap m w = (case m (w_heap w) of
      None \<Rightarrow> None
    | Some (r, hp) \<Rightarrow> Some (r, w\<lparr>w_heap := hp\<rparr>))"

text \<open>A call of the hypervisor whose \<open>Err\<close> the caller propagates with \<open>?\<close>.\<close>

definition call_hv :: "('h \<Rightarrow> (u32 + 'a) \<times> 'h) \<Rightarrow> ('h world, 'a) cmd" where
  "call_hv f w = (case f (w_hv w) of
      (Inl e, h) \<Rightarrow> Some (Inl (WinErr e), w\<lparr>w_hv := h\<rparr>)
    | (Inr x, h) \<Rightarrow> Some (Inr x, w\<lparr>w_hv := h\<rparr>))"

text \<open>\<open>let _ = f(...)\<close>: the result is dropped.\<close>

definition ignore_hv :: "('h \<Rightarrow> (u32 + 'a) \<times> 'h) \<Rightarrow> ('h world, unit) cmd" where
  "ignore_hv f w = Some (Inr (), w\<lparr>w_hv := snd (f (w_hv w))\<rparr>)"

definition call_run ::
    "(heap \<times> 'h \<Rightarrow> ((u32 + exit_context) \<times> heap \<times> 'h) option) \<Rightarrow> ('h world, exit_context) cmd" where
  "call_run f w = (case f (w_heap w, w_hv w) of
      None \<Rightarrow> None
    | Some (Inl e, hp, h) \<Rightarrow> Some (Inl (WinErr e), w\<lparr>w_heap := hp, w_hv := h\<rparr>)
    | Some (Inr c, hp, h) \<Rightarrow> Some (Inr c, w\<lparr>w_heap := hp, w_hv := h\<rparr>))"

lemma on_heap_Inr [simp]:
  "on_heap m w = Some (Inr x, w') \<longleftrightarrow> (\<exists>hp. m (w_heap w) = Some (Inr x, hp) \<and> w' = w\<lparr>w_heap := hp\<rparr>)"
  by (auto simp: on_heap_def split: option.splits)

lemma on_heap_Inl [simp]:
  "on_heap m w = Some (Inl e, w') \<longleftrightarrow> (\<exists>hp. m (w_heap w) = Some (Inl e, hp) \<and> w' = w\<lparr>w_heap := hp\<rparr>)"
  by (auto simp: on_heap_def split: option.splits)

lemma hv_only_iff:
  "w' = w\<lparr>w_hv := w_hv w'\<rparr> \<longleftrightarrow> w_heap w' = w_heap w \<and> w_out w' = w_out w \<and> w_files w' = w_files (w :: 'h world)"
  by (cases w; cases w') auto

lemma call_hv_Inr: "f (w_hv w) = (Inr x, h) \<Longrightarrow> call_hv f w = Some (Inr x, w\<lparr>w_hv := h\<rparr>)"
  by (simp add: call_hv_def)

lemma call_hv_Inl: "f (w_hv w) = (Inl e, h) \<Longrightarrow> call_hv f w = Some (Inl (WinErr e), w\<lparr>w_hv := h\<rparr>)"
  by (simp add: call_hv_def)

lemmas world_unfold [cmd_simps] = println_def on_heap_def call_hv_def ignore_hv_def call_run_def

end
