(* ===== verification/Vmm_Paging.thy ===== *)
theory Vmm_Paging
  imports Whp_Api
begin

text \<open>
  \<open>crates/vmm/src/paging.rs\<close>: the three-page table that maps the first gigabyte of guest memory
  onto itself with 2 MB pages. The correctness statement is against the architecture: \<open>page_walk\<close>
  is the four-level walk of a long-mode processor.
\<close>

record PageTable =
  pml4_gpa :: u64
  pt_host_ptr :: ptr
  pt_size :: usize

definition write_u64 :: "ptr \<Rightarrow> nat \<Rightarrow> u64 \<Rightarrow> (heap, unit) cmd" where
  "write_u64 p off v = heap_write p off (le_bytes 8 v)"

text \<open>
  The result of \<open>alloc_zeroed\<close> is used without a check for null, so an allocation failure is
  undefined behaviour as soon as an address inside the table is formed.
\<close>

definition create_identity_mapping :: "'h platform \<Rightarrow> u64 \<Rightarrow> ('h world, PageTable) cmd" where
  "create_identity_mapping P base_gpa =
     bindE (expect_some ''Invalid alignment'' (Layout_from_size_align (4096 * 3) 4096)) (\<lambda>layout.
     bindE (on_heap (alloc_zeroed layout)) (\<lambda>host_ptr.
     thenE (on_heap (ptr_add host_ptr 4096))
    (thenE (on_heap (ptr_add host_ptr 8192))
    (bindE (add_u64 (overflow_checks P) base_gpa 4096) (\<lambda>pdpt_gpa.
     thenE (on_heap (write_u64 host_ptr 0 (pdpt_gpa OR 0x3)))
    (bindE (add_u64 (overflow_checks P) base_gpa 8192) (\<lambda>pd_gpa.
     thenE (on_heap (write_u64 host_ptr 4096 (pd_gpa OR 0x3)))
    (thenE (for_each [0..<512] (\<lambda>i.
              on_heap (write_u64 host_ptr (8192 + 8 * i) ((of_nat i * 0x200000) OR 0x83))))
    (ret \<lparr>pml4_gpa = base_gpa, pt_host_ptr = host_ptr, pt_size = 4096 * 3\<rparr>)))))))))"

section \<open>The table's entries\<close>

definition entry :: "u8 list \<Rightarrow> nat \<Rightarrow> u64" where
  "entry bs k = of_le_bytes (take 8 (drop (8 * k) bs))"

text \<open>What the 1536 entries of the table should be, as a function of the index.\<close>

definition identity_entry :: "u64 \<Rightarrow> nat \<Rightarrow> u64" where
  "identity_entry base k =
     (if k = 0 then (base + 4096) OR 3
      else if k = 512 then (base + 8192) OR 3
      else if 1024 \<le> k \<and> k < 1536 then (of_nat (k - 1024) * 0x200000) OR 0x83
      else 0)"

lemma entry_patch:
  assumes "8 * k + 8 \<le> length bs" and "8 * j + 8 \<le> length bs"
  shows "entry (patch (8 * k) (le_bytes 8 v) bs) j = (if j = k then v else entry bs j)"
proof (cases "j = k")
  case True
  have "take (length (le_bytes 8 v)) (drop (8 * k) (patch (8 * k) (le_bytes 8 v) bs)) = le_bytes 8 v"
    by (rule take_drop_patch) (use assms in simp)
  then show ?thesis using True by (simp add: entry_def)
next
  case False
  have "take 8 (drop (8 * j) (patch (8 * k) (le_bytes 8 v) bs)) = take 8 (drop (8 * j) bs)"
  proof (rule nth_equalityI)
    show "length (take 8 (drop (8 * j) (patch (8 * k) (le_bytes 8 v) bs))) =
        length (take 8 (drop (8 * j) bs))"
      using assms by simp
  next
    fix i
    assume "i < length (take 8 (drop (8 * j) (patch (8 * k) (le_bytes 8 v) bs)))"
    then have "i < 8" by simp
    moreover have "\<not> (8 * k \<le> 8 * j + i \<and> 8 * j + i < 8 * k + 8)"
      using False \<open>i < 8\<close> by arith
    ultimately show "take 8 (drop (8 * j) (patch (8 * k) (le_bytes 8 v) bs)) ! i =
        take 8 (drop (8 * j) bs) ! i"
      using assms by (auto simp: patch_nth)
  qed
  then show ?thesis using False by (simp add: entry_def)
qed

lemma entry_replicate [simp]:
  assumes "8 * k + 8 \<le> n"
  shows "entry (replicate n 0) k = 0"
proof -
  have "take 8 (drop (8 * k) (replicate n (0::u8))) = replicate 8 0"
    using assms by simp
  then show ?thesis by (simp add: entry_def numeral_eq_Suc)
qed

lemma write_u64_ok:
  assumes "heap_inv hp" and "heap_content hp p = Some bs" and "off = 8 * k" and "8 * k + 8 \<le> length bs"
  shows "\<exists>hp'. write_u64 p off v hp = Some (Inr (), hp') \<and> heap_inv hp' \<and>
    heap_content hp' = (heap_content hp)(p \<mapsto> patch (8 * k) (le_bytes 8 v) bs)"
  using host.write_ok [OF assms(1,2), of "8 * k" "le_bytes 8 v"] assms(3,4)
  by (simp add: write_u64_def)

text \<open>The loop over the page directory, for any list of indices.\<close>

lemma pd_loop_ok:
  assumes "heap_inv (w_heap w)" and "heap_content (w_heap w) p = Some bs"
    and "length bs = 12288" and "\<forall>i \<in> set is. i < 512"
  shows "\<exists>w' bs'. for_each is (\<lambda>i. on_heap (write_u64 p (8192 + 8 * i) (f i))) w = Some (Inr (), w')
    \<and> heap_inv (w_heap w') \<and> length bs' = 12288
    \<and> heap_content (w_heap w') = (heap_content (w_heap w))(p \<mapsto> bs')
    \<and> w' = w\<lparr>w_heap := w_heap w'\<rparr>
    \<and> (\<forall>k < 1536. entry bs' k =
          (if 1024 \<le> k \<and> k - 1024 \<in> set is then f (k - 1024) else entry bs k))"
  using assms
proof (induction "is" arbitrary: w bs)
  case Nil
  then show ?case
    by (intro exI [of _ w] exI [of _ bs]) (simp add: ret_def fun_upd_idem)
next
  case (Cons i "is")
  have k: "8192 + 8 * i = 8 * (1024 + i)" "8 * (1024 + i) + 8 \<le> length bs"
    using Cons.prems by auto
  obtain hp' where hp': "write_u64 p (8192 + 8 * i) (f i) (w_heap w) = Some (Inr (), hp')"
    "heap_inv hp'" "heap_content hp' = (heap_content (w_heap w))(p \<mapsto> patch (8 * (1024 + i)) (le_bytes 8 (f i)) bs)"
    using write_u64_ok [OF Cons.prems(1,2) k(1,2), of "f i"] by auto
  let ?bs = "patch (8 * (1024 + i)) (le_bytes 8 (f i)) bs"
  let ?w = "w\<lparr>w_heap := hp'\<rparr>"
  have len: "length ?bs = 12288" using Cons.prems(3) k(2) by simp
  have pr: "heap_inv (w_heap ?w)" "heap_content (w_heap ?w) p = Some ?bs" "\<forall>i \<in> set is. i < 512"
    using hp' Cons.prems(4) by simp_all
  obtain w' bs' where IH: "for_each is (\<lambda>i. on_heap (write_u64 p (8192 + 8 * i) (f i))) ?w = Some (Inr (), w')"
    "heap_inv (w_heap w')" "length bs' = 12288"
    "heap_content (w_heap w') = (heap_content (w_heap ?w))(p \<mapsto> bs')" "w' = ?w\<lparr>w_heap := w_heap w'\<rparr>"
    "\<forall>k < 1536. entry bs' k = (if 1024 \<le> k \<and> k - 1024 \<in> set is then f (k - 1024) else entry ?bs k)"
    using Cons.IH [OF pr(1,2) len pr(3)] by blast
  have step: "for_each (i # is) (\<lambda>i. on_heap (write_u64 p (8192 + 8 * i) (f i))) w = Some (Inr (), w')"
    using hp'(1) IH(1) by (simp add: thenE_def bindE_def on_heap_def)
  have ent: "entry bs' k = (if 1024 \<le> k \<and> k - 1024 \<in> set (i # is) then f (k - 1024) else entry bs k)"
    if "k < 1536" for k
    using IH(6) that entry_patch [OF k(2), of k "f i"] Cons.prems(3) by auto
  have cont: "heap_content (w_heap w') = (heap_content (w_heap w))(p \<mapsto> bs')"
    using IH(4) hp'(3) by simp
  have "w' = w\<lparr>w_heap := w_heap w'\<rparr>"
    by (subst IH(5)) simp
  then show ?case
    using step ent IH(2,3) cont by blast
qed

text \<open>The three pages as bytes: they are determined by their entries.\<close>

definition table_bytes :: "u64 \<Rightarrow> u8 list" where
  "table_bytes base = concat (map (\<lambda>k. le_bytes 8 (identity_entry base k)) [0..<1536])"

lemma entries_bytes:
  assumes "length bs = 8 * n" and "\<And>k. k < n \<Longrightarrow> entry bs k = f k"
  shows "concat (map (\<lambda>k. le_bytes 8 (f k)) [0..<n]) = bs"
  using assms
proof (induction n arbitrary: bs)
  case (Suc n)
  have "entry (take (8 * n) bs) k = f k" if "k < n" for k
  proof -
    have "8 \<le> 8 * n - 8 * k" using that by linarith
    then show ?thesis using that Suc.prems(2) [of k] by (simp add: entry_def drop_take min_def)
  qed
  then have "concat (map (\<lambda>k. le_bytes 8 (f k)) [0..<n]) = take (8 * n) bs"
    using Suc.IH [of "take (8 * n) bs"] Suc.prems(1) by simp
  moreover have "le_bytes 8 (entry bs n) = drop (8 * n) bs"
    using Suc.prems(1) by (simp add: entry_def)
  ultimately show ?case
    using Suc.prems(2) [of n] by simp
qed simp

lemma table_bytes_unique:
  assumes "length bs = 12288" and "\<forall>k < 1536. entry bs k = identity_entry base k"
  shows "bs = table_bytes base"
  unfolding table_bytes_def by (rule entries_bytes [symmetric]) (use assms in simp_all)

lemma Layout_page_tables:
  "Layout_from_size_align (4096 * 3) 4096 = Some \<lparr>l_size = 12288, l_align = 4096\<rparr>"
  by (simp add: Layout_from_size_align_def)

text \<open>
  With enough host memory and a base address that does not wrap, the call succeeds: the result
  is a fresh allocation of three pages holding exactly the intended entries, and no other
  allocation changes.
\<close>

lemma create_identity_mapping_ok:
  assumes inv: "heap_inv (w_heap w)" and avail: "12288 \<le> h_avail (w_heap w)"
    and base: "unat base + 12288 < 2 ^ 64"
  shows "\<exists>w' q bs. create_identity_mapping P base w =
      Some (Inr \<lparr>pml4_gpa = base, pt_host_ptr = q, pt_size = 4096 * 3\<rparr>, w')
    \<and> w' = w\<lparr>w_heap := w_heap w'\<rparr> \<and> heap_inv (w_heap w') \<and> heap_content (w_heap w) q = None
    \<and> q = h_next (w_heap w)
    \<and> heap_content (w_heap w') = (heap_content (w_heap w))(q \<mapsto> bs)
    \<and> length bs = 12288 \<and> (\<forall>k < 1536. entry bs k = identity_entry base k)"
proof -
  define l where "l = \<lparr>l_size = 12288, l_align = 4096 :: usize\<rparr>"
  define q where "q = h_next (w_heap w)"
  obtain hp1 where a: "alloc_zeroed l (w_heap w) = Some (Inr q, hp1)"
    using avail by (auto simp: alloc_zeroed_def l_def q_def)
  have q0: "q \<noteq> 0" using inv by (simp add: q_def heap_inv_def)
  have hp1: "heap_inv hp1" "heap_content (w_heap w) q = None"
    "heap_content hp1 = (heap_content (w_heap w))(q \<mapsto> replicate 12288 0)"
    using alloc_zeroed_cases [OF inv a] q0 by (auto simp: l_def)
  let ?b1 = "replicate 12288 (0::u8)"
  let ?e0 = "(base + 4096) OR 3" and ?e1 = "(base + 8192) OR 3"
  obtain hp2 where w2: "write_u64 q 0 ?e0 hp1 = Some (Inr (), hp2)" "heap_inv hp2"
    "heap_content hp2 = (heap_content hp1)(q \<mapsto> patch (8 * 0) (le_bytes 8 ?e0) ?b1)"
    using write_u64_ok [of hp1 q ?b1 0 0 ?e0] hp1 by auto
  let ?b2 = "patch (8 * 0) (le_bytes 8 ?e0) ?b1"
  have l2: "length ?b2 = 12288" by simp
  obtain hp3 where w3: "write_u64 q 4096 ?e1 hp2 = Some (Inr (), hp3)" "heap_inv hp3"
    "heap_content hp3 = (heap_content hp2)(q \<mapsto> patch (8 * 512) (le_bytes 8 ?e1) ?b2)"
    using write_u64_ok [of hp2 q ?b2 4096 512 ?e1] w2 l2 by auto
  let ?b3 = "patch (8 * 512) (le_bytes 8 ?e1) ?b2"
  have l3: "length ?b3 = 12288" using l2 by simp
  let ?w3 = "w\<lparr>w_heap := hp3\<rparr>"
  obtain w' bs where loop: "for_each [0..<512] (\<lambda>i. on_heap (write_u64 q (8192 + 8 * i)
        ((of_nat i * 0x200000) OR 0x83))) ?w3 = Some (Inr (), w')"
    "heap_inv (w_heap w')" "length bs = 12288"
    "heap_content (w_heap w') = (heap_content hp3)(q \<mapsto> bs)" "w' = ?w3\<lparr>w_heap := w_heap w'\<rparr>"
    "\<forall>k < 1536. entry bs k = (if 1024 \<le> k \<and> k - 1024 \<in> set [0..<512]
        then (of_nat (k - 1024) * 0x200000) OR 0x83 else entry ?b3 k)"
    using pd_loop_ok [of ?w3 q ?b3 "[0..<512]" "\<lambda>i. (of_nat i * 0x200000) OR 0x83"] w3 l3 by auto
  have e3: "entry ?b3 k = (if k = 512 then ?e1 else if k = 0 then ?e0 else 0)" if "k < 1536" for k
    using that entry_patch [of 512 ?b2 k ?e1] entry_patch [of 0 ?b1 k ?e0] l2 by simp
  have ents: "\<forall>k < 1536. entry bs k = identity_entry base k"
    using loop(6) e3 by (auto simp: identity_entry_def)
  have adds: "add_u64 c base 4096 = ret (base + 4096)" "add_u64 c base 8192 = ret (base + 8192)"
    for c :: bool
    using base by simp_all
  have adr: "ptr_add q 4096 hp1 = Some (Inr (), hp1)" "ptr_add q 8192 hp1 = Some (Inr (), hp1)"
    using ptr_add_ok [OF hp1(1), of q "replicate 12288 0"] hp1(3) by simp_all
  have run: "create_identity_mapping P base w =
      Some (Inr \<lparr>pml4_gpa = base, pt_host_ptr = q, pt_size = 4096 * 3\<rparr>, w')"
    using a adr w2(1) w3(1) loop(1)
    unfolding create_identity_mapping_def Layout_page_tables l_def [symmetric]
    by (simp add: adds cmd_simps)
  show ?thesis
    using run loop(2,3,4,5) w2(3) w3(3) hp1(2,3) ents q_def
    by (intro exI [of _ w'] exI [of _ q] exI [of _ bs]) simp
qed

text \<open>Without enough host memory the addresses of the tables are formed from a null pointer.\<close>

lemma create_identity_mapping_oom:
  assumes "h_avail (w_heap w) < 12288"
  shows "create_identity_mapping P base w = Some (Inl (Undefined NullPointer), w)"
  using assms unfolding create_identity_mapping_def Layout_page_tables
  by (simp add: cmd_simps alloc_zeroed_def ptr_add_def access_fault_def)

section \<open>The page walk\<close>

text \<open>
  The walk of a long-mode processor through PML4, PDPT, PD and PT, as the architecture defines
  it: bit 0 of an entry is Present, bit 7 of a PDPT or PD entry is Page Size, bits 12 to 51 hold
  the physical address of the next table or page. \<open>rd\<close> reads the 8-byte entry at a physical
  address.
\<close>

definition next_table :: "u64 \<Rightarrow> u64" where
  "next_table e = e AND 0x000FFFFFFFFFF000"

definition page_index :: "nat \<Rightarrow> u64 \<Rightarrow> u64" where
  "page_index n va = take_bit 9 (drop_bit n va)"

definition table_entry :: "(u64 \<Rightarrow> u64 option) \<Rightarrow> u64 \<Rightarrow> u64 \<Rightarrow> u64 option" where
  "table_entry rd table idx = (case rd (table + 8 * idx) of
      None \<Rightarrow> None
    | Some e \<Rightarrow> if bit e 0 then Some e else None)"

definition page_walk :: "(u64 \<Rightarrow> u64 option) \<Rightarrow> u64 \<Rightarrow> u64 \<Rightarrow> u64 option" where
  "page_walk rd cr3 va =
    (case table_entry rd (next_table cr3) (page_index 39 va) of None \<Rightarrow> None | Some e4 \<Rightarrow>
    (case table_entry rd (next_table e4) (page_index 30 va) of None \<Rightarrow> None | Some e3 \<Rightarrow>
     if bit e3 7 then Some ((e3 AND 0x000FFFFFC0000000) OR take_bit 30 va) else
    (case table_entry rd (next_table e3) (page_index 21 va) of None \<Rightarrow> None | Some e2 \<Rightarrow>
     if bit e2 7 then Some ((e2 AND 0x000FFFFFFFE00000) OR take_bit 21 va) else
    (case table_entry rd (next_table e2) (page_index 12 va) of None \<Rightarrow> None | Some e1 \<Rightarrow>
     Some (next_table e1 OR take_bit 12 va)))))"

text \<open>Guest physical memory in which a table's bytes lie at \<open>base\<close> and nothing else is mapped.\<close>

definition table_at :: "u64 \<Rightarrow> u8 list \<Rightarrow> u64 \<Rightarrow> u64 option" where
  "table_at base bs a =
     (let off = unat (a - base) in
      if base \<le> a \<and> off + 8 \<le> length bs then Some (of_le_bytes (take 8 (drop off bs))) else None)"

lemma address_mask: "(0x000FFFFFFFFFF000 :: u64) = push_bit 12 (mask 40)"
  by (simp add: mask_numeral)

lemma large_page_mask: "(0x000FFFFFFFE00000 :: u64) = push_bit 21 (mask 31)"
  by (simp add: mask_numeral)

lemma no_low_bits: "take_bit n a = 0 \<Longrightarrow> k < n \<Longrightarrow> \<not> bit (a :: u64) k"
  by (metis bit_0_eq bit_take_bit_iff bot_apply bot_bool_def)

lemma no_high_bits:
  assumes "unat a < 2 ^ n" and "n \<le> k"
  shows "\<not> bit (a :: u64) k"
proof
  assume "bit a k"
  then have "bit (unat a) k"
    by (simp add: bit_unsigned_iff)
  then have "odd (unat a div 2 ^ k)"
    by (simp add: bit_iff_odd)
  then have "2 ^ k \<le> unat a"
    by (metis div_less even_zero linorder_not_less)
  then show False
    using assms by (meson le_less_trans less_le_not_le one_le_numeral power_increasing)
qed

lemma unat_of_nat_small: "n < 2 ^ 64 \<Longrightarrow> unat (of_nat n :: u64) = n"
  by (simp add: unat_of_nat)

lemma next_table_aligned:
  assumes "take_bit 12 a = 0" and "unat a < 2 ^ 52" and "unat f < 2 ^ 12"
  shows "next_table (a OR f) = a"
proof (rule bit_word_eqI)
  fix k :: nat
  consider "k < 12" | "12 \<le> k" "k < 52" | "52 \<le> k" by linarith
  then show "bit (next_table (a OR f)) k = bit a k"
  proof cases
    case 1
    then show ?thesis
      unfolding next_table_def address_mask using no_low_bits [OF assms(1) 1]
      by (simp add: bit_and_iff bit_push_bit_iff)
  next
    case 2
    then have "k - 12 < 40" by simp
    then show ?thesis
      using 2 unfolding next_table_def address_mask using no_high_bits [OF assms(3), of k]
      by (simp add: bit_and_iff bit_or_iff bit_push_bit_iff bit_mask_iff)
  next
    case 3
    then have "\<not> k - 12 < 40" by simp
    then show ?thesis
      unfolding next_table_def address_mask using no_high_bits [OF assms(2) 3]
      by (simp add: bit_and_iff bit_push_bit_iff bit_mask_iff)
  qed
qed

lemma table_at_entry:
  assumes "length bs = 12288" and "unat base + 12288 < 2 ^ 64" and "k < 1536"
  shows "table_at base bs (base + of_nat (8 * k)) = Some (entry bs k)"
proof -
  have u: "unat (of_nat (8 * k) :: u64) = 8 * k"
    using assms(3) by (intro unat_of_nat_small) simp
  have "unat (base + of_nat (8 * k)) = unat base + 8 * k"
    using assms(2,3) u by (subst unat_add_lem [THEN iffD1]) simp_all
  then have "base \<le> base + of_nat (8 * k)"
    by (simp add: word_le_nat_alt)
  moreover have "unat (base + of_nat (8 * k) - base) = 8 * k"
    using u by simp
  ultimately show ?thesis
    using assms(1,3) by (simp add: table_at_def entry_def Let_def)
qed

text \<open>A walk that looks at entry \<open>k\<close> of the table, counted over its three pages.\<close>

lemma table_entry_at:
  assumes bs: "length bs = 12288" and base: "unat base + 12288 < 2 ^ 64"
    and t: "t = base + of_nat (4096 * n)" "n < 3" and i: "unat i < 512"
  shows "table_entry (table_at base bs) t i =
    (let e = entry bs (512 * n + unat i) in if bit e 0 then Some e else None)"
proof -
  have "t + 8 * i = base + of_nat (8 * (512 * n + unat i))"
    using t(1) by (simp add: algebra_simps)
  moreover have "512 * n + unat i < 1536"
    using t(2) i by linarith
  ultimately have "table_at base bs (t + 8 * i) = Some (entry bs (512 * n + unat i))"
    by (metis table_at_entry [OF bs base])
  then show ?thesis
    by (simp add: table_entry_def Let_def)
qed

lemma page_index_less [simp]: "unat (page_index n va) < 512"
proof -
  have "page_index n va \<le> mask 9"
    by (simp add: page_index_def take_bit_eq_mask word_and_le1)
  then have "unat (page_index n va) \<le> unat (mask 9 :: u64)"
    by (simp add: word_le_nat_alt)
  then show ?thesis
    by (simp add: mask_numeral)
qed

lemma page_index_zero: "unat va < 2 ^ n \<Longrightarrow> page_index n va = 0"
  by (rule bit_word_eqI) (simp add: page_index_def bit_take_bit_iff bit_drop_bit_eq no_high_bits)

lemma large_page_identity:
  assumes "unat va < 2 ^ 30"
  shows "(((page_index 21 va * 0x200000) OR 0x83) AND 0x000FFFFFFFE00000) OR take_bit 21 va = va"
proof (rule bit_word_eqI)
  fix k :: nat
  have m: "page_index 21 va * 0x200000 = push_bit 21 (page_index 21 va)"
    by (simp add: push_bit_eq_mult)
  have f: "21 \<le> k \<Longrightarrow> \<not> bit (0x83 :: u64) k"
    by (rule no_high_bits [of _ 21]) simp_all
  have hi: "30 \<le> k \<Longrightarrow> \<not> bit va k"
    using assms by (rule no_high_bits)
  consider "k < 21" | "21 \<le> k" "k - 21 < 9" | "30 \<le> k" by linarith
  then show "bit ((((page_index 21 va * 0x200000) OR 0x83) AND 0x000FFFFFFFE00000)
      OR take_bit 21 va) k = bit va k"
    unfolding m large_page_mask
    by cases (use f hi in \<open>auto simp: bit_or_iff bit_and_iff bit_push_bit_iff bit_mask_iff
        bit_take_bit_iff bit_drop_bit_eq page_index_def dest: bit_imp_le_length\<close>)
qed

text \<open>
  The walk through a table whose entries are the identity entries: every address of the first
  gigabyte translates to itself, every other canonical lower-half address is not mapped.
\<close>

definition identity_table :: "u64 \<Rightarrow> u8 list \<Rightarrow> bool" where
  "identity_table base bs \<longleftrightarrow> length bs = 12288 \<and> take_bit 12 base = 0 \<and>
     unat base + 12288 < 2 ^ 52 \<and> (\<forall>k < 1536. entry bs k = identity_entry base k)"

lemma identity_table_entry:
  assumes "identity_table base bs" and "t = base + of_nat (4096 * n)" and "n < 3"
  shows "table_entry (table_at base bs) t (page_index m va) =
    (let e = identity_entry base (512 * n + unat (page_index m va))
     in if bit e 0 then Some e else None)"
proof -
  have "512 * n + unat (page_index m va) < 1536"
    using assms(3) page_index_less [of m va] by linarith
  then show ?thesis
    using assms table_entry_at [of bs base t n "page_index m va"]
    by (simp add: identity_table_def Let_def)
qed

lemma page_aligned_iff: "take_bit 12 (a :: u64) = 0 \<longleftrightarrow> 4096 dvd unat a"
proof -
  have "unat (take_bit 12 a) = unat a mod 4096"
    by (simp only: unsigned_take_bit_eq) (simp add: take_bit_eq_mod)
  then show ?thesis
    by (metis mod_0_imp_dvd dvd_imp_mod_0 unat_eq_zero)
qed

lemma identity_table_links:
  assumes "identity_table base bs"
  shows "next_table base = base"
    and "next_table ((base + 4096) OR 3) = base + 4096" "\<not> bit ((base + 4096) OR 3) 7"
    and "next_table ((base + 8192) OR 3) = base + 8192" "\<not> bit ((base + 8192) OR 3) 7"
proof -
  have al: "take_bit 12 base = 0" and fits: "unat base + 12288 < 2 ^ 52"
    using assms by (simp_all add: identity_table_def)
  have u: "unat (base + 4096) = unat base + 4096" "unat (base + 8192) = unat base + 8192"
    using fits by (simp_all add: unat_word_ariths)
  have al': "take_bit 12 (base + 4096) = 0" "take_bit 12 (base + 8192) = 0"
    using al by (simp_all add: page_aligned_iff u)
  have sz: "unat (base + 4096) < 2 ^ 52" "unat (base + 8192) < 2 ^ 52"
    using fits by (simp_all add: u)
  show "next_table base = base"
    using next_table_aligned [OF al, of 0] fits by simp
  show "next_table ((base + 4096) OR 3) = base + 4096" "next_table ((base + 8192) OR 3) = base + 8192"
    by (rule next_table_aligned [OF al'(1) sz(1)], simp)
      (rule next_table_aligned [OF al'(2) sz(2)], simp)
  show "\<not> bit ((base + 4096) OR 3) 7" "\<not> bit ((base + 8192) OR 3) 7"
    using no_low_bits [OF al'(1), of 7] no_low_bits [OF al'(2), of 7]
    by (simp_all add: bit_or_iff)
qed

lemma identity_walk:
  assumes tab: "identity_table base bs" and va: "unat va < 2 ^ 30"
  shows "page_walk (table_at base bs) base va = Some va"
proof -
  note links = identity_table_links [OF tab]
  have i4: "page_index 39 va = 0" and i3: "page_index 30 va = 0"
    using va by (simp_all add: page_index_zero)
  have e4: "table_entry (table_at base bs) base (page_index 39 va) = Some ((base + 4096) OR 3)"
    using identity_table_entry [OF tab, of base 0 39 va] i4
    by (simp add: identity_entry_def bit_or_iff)
  have e3: "table_entry (table_at base bs) (base + 4096) (page_index 30 va) = Some ((base + 8192) OR 3)"
    using identity_table_entry [OF tab, of "base + 4096" 1 30 va] i3
    by (simp add: identity_entry_def bit_or_iff)
  have e2: "table_entry (table_at base bs) (base + 8192) (page_index 21 va) =
      Some ((page_index 21 va * 0x200000) OR 0x83)"
    using identity_table_entry [OF tab, of "base + 8192" 2 21 va] page_index_less [of 21 va]
    by (simp add: identity_entry_def bit_or_iff)
  have "bit ((page_index 21 va * 0x200000) OR 0x83) 7"
    by (simp add: bit_or_iff)
  then show ?thesis
    using e4 e3 e2 large_page_identity [OF va] by (simp add: page_walk_def links)
qed

lemma indices_zero:
  assumes "unat va < 2 ^ 48" and "page_index 39 va = 0" and "page_index 30 va = 0"
  shows "unat va < 2 ^ 30"
proof -
  have "take_bit 30 va = va"
  proof (rule bit_word_eqI)
    fix k :: nat
    have z: "\<not> (k < 9 \<and> bit (drop_bit n va) k)" if "page_index n va = 0" for n k
      using that by (metis bit_take_bit_iff bit_0_eq bot_apply bot_bool_def page_index_def)
    consider "k < 30" | "30 \<le> k" "k < 39" | "39 \<le> k" "k < 48" | "48 \<le> k" by linarith
    then show "bit (take_bit 30 va) k = bit va k"
    proof cases
      case 2
      then show ?thesis
        using z [OF assms(3), of "k - 30"] by (auto simp: bit_take_bit_iff bit_drop_bit_eq)
    next
      case 3
      then show ?thesis
        using z [OF assms(2), of "k - 39"] by (auto simp: bit_take_bit_iff bit_drop_bit_eq)
    qed (use no_high_bits [OF assms(1), of k] in \<open>auto simp: bit_take_bit_iff\<close>)
  qed
  then have "unat va = take_bit 30 (unat va)"
    by (metis unsigned_take_bit_eq)
  then show ?thesis
    by (metis take_bit_nat_less_exp)
qed

lemma identity_walk_unmapped:
  assumes tab: "identity_table base bs" and va: "2 ^ 30 \<le> unat va" "unat va < 2 ^ 48"
  shows "page_walk (table_at base bs) base va = None"
proof (cases "page_index 39 va = 0")
  case True
  note links = identity_table_links [OF tab]
  have e4: "table_entry (table_at base bs) base (page_index 39 va) = Some ((base + 4096) OR 3)"
    using identity_table_entry [OF tab, of base 0 39 va] True
    by (simp add: identity_entry_def bit_or_iff)
  have "page_index 30 va \<noteq> 0"
  proof
    assume z: "page_index 30 va = 0"
    have "unat va < 2 ^ 30"
      using indices_zero [OF va(2) True z] .
    then show False using va by simp
  qed
  then have i3: "0 < unat (page_index 30 va)"
    by (simp add: word_neq_0_conv unat_gt_0)
  have "table_entry (table_at base bs) (base + 4096) (page_index 30 va) = None"
    using identity_table_entry [OF tab, of "base + 4096" 1 30 va] i3 page_index_less [of 30 va]
    by (simp add: identity_entry_def)
  then show ?thesis
    using e4 by (simp add: page_walk_def links)
next
  case False
  then have "0 < unat (page_index 39 va)"
    by (simp add: word_neq_0_conv unat_gt_0)
  then have "table_entry (table_at base bs) base (page_index 39 va) = None"
    using identity_table_entry [OF tab, of base 0 39 va] page_index_less [of 39 va]
    by (simp add: identity_entry_def)
  then show ?thesis
    by (simp add: page_walk_def identity_table_links [OF tab])
qed

end
