(* ===== verification/Std_Hasher.thy ===== *)
theory Std_Hasher
  imports Vestigium_Prelude
begin

text \<open>
  \<open>std::hash::DefaultHasher\<close>, which \<open>Snapshot::hash_state\<close> feeds: SipHash-1-3 with the zero key,
  as the standard library implements it. Values are hashed as their native-endian bytes, a byte
  slice as its length followed by its bytes. The locale \<open>byte_hasher\<close> is all the snapshot relies
  on: writing two pieces is writing their concatenation.
\<close>

record sip =
  sip_v0 :: u64
  sip_v1 :: u64
  sip_v2 :: u64
  sip_v3 :: u64
  sip_tail :: "u8 list"
  sip_len :: u64

definition DefaultHasher_new :: sip where
  "DefaultHasher_new = \<lparr>sip_v0 = 0x736f6d6570736575, sip_v1 = 0x646f72616e646f6d,
     sip_v2 = 0x6c7967656e657261, sip_v3 = 0x7465646279746573, sip_tail = [], sip_len = 0\<rparr>"

definition sip_round :: "sip \<Rightarrow> sip" where
  "sip_round s =
    (let v0 = sip_v0 s + sip_v1 s; v2 = sip_v2 s + sip_v3 s;
         v1 = word_rotl 13 (sip_v1 s) XOR v0; v3 = word_rotl 16 (sip_v3 s) XOR v2;
         v0 = word_rotl 32 v0;
         v2 = v2 + v1; v0 = v0 + v3;
         v1 = word_rotl 17 v1 XOR v2; v3 = word_rotl 21 v3 XOR v0;
         v2 = word_rotl 32 v2
     in s\<lparr>sip_v0 := v0, sip_v1 := v1, sip_v2 := v2, sip_v3 := v3\<rparr>)"

definition sip_absorb :: "u64 \<Rightarrow> sip \<Rightarrow> sip" where
  "sip_absorb m s =
    (let s = sip_round (s\<lparr>sip_v3 := sip_v3 s XOR m\<rparr>) in s\<lparr>sip_v0 := sip_v0 s XOR m\<rparr>)"

text \<open>One byte at a time: eight collected bytes are absorbed as a little-endian word.\<close>

definition sip_byte :: "u8 \<Rightarrow> sip \<Rightarrow> sip" where
  "sip_byte b s =
    (let s = s\<lparr>sip_tail := sip_tail s @ [b], sip_len := sip_len s + 1\<rparr>
     in if length (sip_tail s) = 8
        then (sip_absorb (of_le_bytes (sip_tail s)) s)\<lparr>sip_tail := []\<rparr> else s)"

definition sip_write :: "u8 list \<Rightarrow> sip \<Rightarrow> sip" where
  "sip_write bs s = fold sip_byte bs s"

definition sip_finish :: "sip \<Rightarrow> u64" where
  "sip_finish s =
    (let s = sip_absorb (push_bit 56 (sip_len s AND 0xFF) OR of_le_bytes (sip_tail s)) s;
         s = s\<lparr>sip_v2 := sip_v2 s XOR 0xFF\<rparr>;
         s = sip_round (sip_round (sip_round s))
     in sip_v0 s XOR sip_v1 s XOR sip_v2 s XOR sip_v3 s)"

definition hash_u64 :: "u64 \<Rightarrow> sip \<Rightarrow> sip" where
  "hash_u64 x = sip_write (le_bytes 8 x)"

definition hash_slice :: "u8 list \<Rightarrow> sip \<Rightarrow> sip" where
  "hash_slice bs s = sip_write bs (hash_u64 (of_nat (length bs)) s)"

locale byte_hasher =
  fixes wr :: "u8 list \<Rightarrow> 's \<Rightarrow> 's"
  assumes wr_Nil: "wr [] s = s"
    and wr_append: "wr (xs @ ys) s = wr ys (wr xs s)"
begin

lemma wr_concat: "fold wr chunks s = wr (concat chunks) s"
  by (induction chunks arbitrary: s) (simp_all add: wr_Nil wr_append)

end

interpretation sip: byte_hasher sip_write
  by unfold_locales (simp_all add: sip_write_def)

text \<open>The bytes a slice contributes.\<close>

definition slice_bytes :: "u8 list \<Rightarrow> u8 list" where
  "slice_bytes bs = le_bytes 8 (of_nat (length bs) :: u64) @ bs"

lemma hash_slice_bytes: "hash_slice bs = sip_write (slice_bytes bs)"
  by (rule ext) (simp add: hash_slice_def hash_u64_def slice_bytes_def sip.wr_append)

text \<open>A slice's bytes say where the slice ends.\<close>

lemma slice_bytes_append_eq:
  assumes "length bs < 2 ^ 64" and "length bs' < 2 ^ 64"
  shows "slice_bytes bs @ xs = slice_bytes bs' @ ys \<longleftrightarrow> bs = bs' \<and> xs = ys"
proof
  assume "slice_bytes bs @ xs = slice_bytes bs' @ ys"
  then have w: "(of_nat (length bs) :: u64) = of_nat (length bs')" and r: "bs @ xs = bs' @ ys"
    by (simp_all add: slice_bytes_def u64_le.enc_append_eq_iff)
  have "unat (of_nat (length bs) :: u64) = unat (of_nat (length bs') :: u64)"
    using w by simp
  then have "length bs = length bs'"
    using assms by (simp add: unat_of_nat)
  with r show "bs = bs' \<and> xs = ys" by simp
qed simp

end
