(* ===== verification/Vmm_Partition.thy ===== *)
theory Vmm_Partition
  imports Whp_Api
begin

text \<open>
  \<open>crates/vmm/src/partition.rs\<close> (the partition's life cycle) and \<open>crates/vmm/src/ept.rs\<close>
  (mapping host memory into the guest).
\<close>

record VmPartition =
  vp_handle :: handle

definition VmPartition_new :: "'h platform \<Rightarrow> ('h world, VmPartition) cmd" where
  "VmPartition_new P =
     bindE (call_hv (WHvCreatePartition P)) (\<lambda>handle.
     thenE (call_hv (WHvSetPartitionProperty P handle (ProcessorCount 4)))
    (thenE (call_hv (WHvSetupPartition P handle))
    (ret \<lparr>vp_handle = handle\<rparr>)))"

text \<open>The mask \<open>(1 << 0) | (1 << 2) | (1 << 3)\<close>: CPUID, exceptions, RDTSC.\<close>

definition intercept_mask :: u64 where
  "intercept_mask = push_bit 0 1 OR push_bit 2 1 OR push_bit 3 1"

definition configure_interceptions :: "'h platform \<Rightarrow> VmPartition \<Rightarrow> ('h world, unit) cmd" where
  "configure_interceptions P p =
     call_hv (WHvSetPartitionProperty P (vp_handle p) (ExtendedVmExits intercept_mask))"

definition as_raw :: "VmPartition \<Rightarrow> handle" where
  "as_raw p = vp_handle p"

definition VmPartition_drop :: "'h platform \<Rightarrow> VmPartition \<Rightarrow> ('h world, unit) cmd" where
  "VmPartition_drop P p =
     (if vp_handle p \<noteq> 0 then ignore_hv (WHvDeletePartition P (vp_handle p)) else ret ())"

record EptManager =
  ept_partition :: handle

definition EptManager_new :: "handle \<Rightarrow> EptManager" where
  "EptManager_new p = \<lparr>ept_partition = p\<rparr>"

definition map_gpa_range ::
    "'h platform \<Rightarrow> EptManager \<Rightarrow> u64 \<Rightarrow> ptr \<Rightarrow> u64 \<Rightarrow> u32 \<Rightarrow> ('h world, unit) cmd" where
  "map_gpa_range P ept guest_address host_address sz flags =
     call_hv (WHvMapGpaRange P (ept_partition ept) host_address guest_address sz flags)"

lemma intercept_mask_value: "intercept_mask = 13"
  by (simp add: intercept_mask_def)

lemma intercept_mask_bits: "bit intercept_mask k \<longleftrightarrow> k = 0 \<or> k = 2 \<or> k = 3"
  unfolding intercept_mask_def
  by (simp only: bit_or_iff bit_push_bit_iff bit_1_iff) auto

end
