(* ===== verification/Vmm_Vcpu.thy ===== *)
theory Vmm_Vcpu
  imports Vmm_Partition
begin

text \<open>\<open>crates/vmm/src/vcpu.rs\<close>: creation of a virtual CPU, register access, long-mode set-up.\<close>

definition MSR_IA32_FIXED_CTR0 :: u32 where
  "MSR_IA32_FIXED_CTR0 = 0x309"

definition MSR_IA32_FIXED_CTR_CTRL :: u32 where
  "MSR_IA32_FIXED_CTR_CTRL = 0x38D"

record Vcpu =
  vc_partition :: handle
  vc_index :: u32

definition Vcpu_new :: "'h platform \<Rightarrow> handle \<Rightarrow> u32 \<Rightarrow> ('h world, Vcpu) cmd" where
  "Vcpu_new P p i =
     thenE (call_hv (WHvCreateVirtualProcessor P p i 0)) (ret \<lparr>vc_partition = p, vc_index = i\<rparr>)"

definition Vcpu_index :: "Vcpu \<Rightarrow> u32" where
  "Vcpu_index v = vc_index v"

text \<open>
  \<open>get_registers\<close> fills the caller's slice \<open>values\<close>; the model returns the filled slice. The
  assertion on the lengths comes first, before the hypervisor is called.
\<close>

definition get_registers ::
    "'h platform \<Rightarrow> Vcpu \<Rightarrow> reg_name list \<Rightarrow> reg_value list \<Rightarrow> ('h world, reg_value list) cmd" where
  "get_registers P v names values =
     thenE (assert_that (length names = length values))
       (call_hv (WHvGetVirtualProcessorRegisters P (vc_partition v) (vc_index v) names))"

definition set_registers ::
    "'h platform \<Rightarrow> Vcpu \<Rightarrow> reg_name list \<Rightarrow> reg_value list \<Rightarrow> ('h world, unit) cmd" where
  "set_registers P v names values =
     thenE (assert_that (length names = length values))
       (call_hv (WHvSetVirtualProcessorRegisters P (vc_partition v) (vc_index v) names values))"

definition long_mode_cs :: segment where
  "long_mode_cs = \<lparr>seg_base = 0, seg_limit = 0xFFFFFFFF, seg_selector = 0x08, seg_attributes = 0xA09B\<rparr>"

definition long_mode_ds :: segment where
  "long_mode_ds = \<lparr>seg_base = 0, seg_limit = 0xFFFFFFFF, seg_selector = 0x10, seg_attributes = 0xC093\<rparr>"

definition long_mode_tr :: segment where
  "long_mode_tr = \<lparr>seg_base = 0, seg_limit = 0xFFFF, seg_selector = 0x18, seg_attributes = 0x008B\<rparr>"

definition long_mode_ldtr :: segment where
  "long_mode_ldtr = \<lparr>seg_base = 0, seg_limit = 0, seg_selector = 0, seg_attributes = 0x0000\<rparr>"

definition long_mode_names :: "reg_name list" where
  "long_mode_names = [Cr3, Cr4, Efer, Cr0, Cs, Ds, Es, Fs, Gs, Ss, Tr, Ldtr, Rflags]"

definition long_mode_values :: "u64 \<Rightarrow> reg_value list" where
  "long_mode_values pml4_gpa =
    [mk_Reg64 pml4_gpa, mk_Reg64 0x00000620, mk_Reg64 0x00000500, mk_Reg64 0x80000031,
     mk_Segment long_mode_cs, mk_Segment long_mode_ds, mk_Segment long_mode_ds,
     mk_Segment long_mode_ds, mk_Segment long_mode_ds, mk_Segment long_mode_ds,
     mk_Segment long_mode_tr, mk_Segment long_mode_ldtr, mk_Reg64 0x00000002]"

definition setup_long_mode :: "'h platform \<Rightarrow> Vcpu \<Rightarrow> u64 \<Rightarrow> ('h world, unit) cmd" where
  "setup_long_mode P v pml4_gpa = set_registers P v long_mode_names (long_mode_values pml4_gpa)"

definition Vcpu_drop :: "'h platform \<Rightarrow> Vcpu \<Rightarrow> ('h world, unit) cmd" where
  "Vcpu_drop P v = ignore_hv (WHvDeleteVirtualProcessor P (vc_partition v) (vc_index v))"

lemma length_long_mode [simp]: "length (long_mode_values g) = length long_mode_names"
  by (simp add: long_mode_values_def long_mode_names_def)

lemma distinct_long_mode_names: "distinct long_mode_names"
  by (simp add: long_mode_names_def)

end
