(* ===== verification/Snapshot_State.thy ===== *)
theory Snapshot_State
  imports Std_Hasher Vmm_Vcpu
begin

text \<open>
  The first half of \<open>crates/engine/src/record.rs\<close>: page-aligned host buffers (\<open>AlignedMemory\<close>),
  the snapshot of guest memory and registers, and the state hash that decides whether a replay
  reproduced the recording.
\<close>

section \<open>AlignedMemory\<close>

record AlignedMemory =
  am_ptr :: ptr
  am_size :: usize
  am_layout :: layout

definition AlignedMemory_new :: "usize \<Rightarrow> (heap, AlignedMemory) cmd" where
  "AlignedMemory_new sz =
     bindE (expect_some ''Invalid alignment layout'' (Layout_from_size_align sz 4096)) (\<lambda>layout.
     bindE (alloc_zeroed layout) (\<lambda>p.
     thenE (assert_that (p \<noteq> 0))
    (ret \<lparr>am_ptr = p, am_size = sz, am_layout = layout\<rparr>)))"

definition AlignedMemory_len :: "AlignedMemory \<Rightarrow> usize" where
  "AlignedMemory_len m = am_size m"

definition AlignedMemory_is_empty :: "AlignedMemory \<Rightarrow> bool" where
  "AlignedMemory_is_empty m \<longleftrightarrow> am_size m = 0"

definition AlignedMemory_drop :: "AlignedMemory \<Rightarrow> (heap, unit) cmd" where
  "AlignedMemory_drop m = dealloc (am_ptr m) (am_layout m)"

text \<open>The buffer as a slice (\<open>slice::from_raw_parts(ptr, size)\<close>).\<close>

definition AlignedMemory_slice :: "AlignedMemory \<Rightarrow> (heap, u8 list) cmd" where
  "AlignedMemory_slice m = heap_read (am_ptr m) 0 (unat (am_size m))"

section \<open>Snapshot\<close>

record Snapshot =
  memory_regions :: "(u64, AlignedMemory) hmap"
  registers :: "reg_value list"

definition Snapshot_new :: Snapshot where
  "Snapshot_new = \<lparr>memory_regions = [], registers = []\<rparr>"

text \<open>
  \<open>HashMap::insert\<close> returns the value it replaces; the call drops it at once, which releases its
  buffer.
\<close>

definition capture_region ::
    "u64 \<Rightarrow> ptr \<Rightarrow> usize \<Rightarrow> Snapshot \<Rightarrow> (heap, Snapshot) cmd" where
  "capture_region gpa host_ptr sz snap =
     bindE (AlignedMemory_new sz) (\<lambda>buffer.
     thenE (copy_nonoverlapping host_ptr (am_ptr buffer) (unat sz))
    (thenE (case hm_get (memory_regions snap) gpa of
              None \<Rightarrow> ret () | Some old \<Rightarrow> AlignedMemory_drop old)
    (ret (snap\<lparr>memory_regions := hm_insert gpa buffer (memory_regions snap)\<rparr>))))"

definition capture_registers ::
    "'h platform \<Rightarrow> Vcpu \<Rightarrow> reg_name list \<Rightarrow> Snapshot \<Rightarrow> ('h world, Snapshot) cmd" where
  "capture_registers P v names snap =
     bindE (get_registers P v names (replicate (length names) 0)) (\<lambda>values.
     ret (snap\<lparr>registers := values\<rparr>))"

primrec hash_registers :: "reg_value list \<Rightarrow> sip \<Rightarrow> sip" where
  "hash_registers [] h = h"
| "hash_registers (r # rs) h = hash_registers rs (hash_u64 (Reg64 r) h)"

primrec hash_regions :: "(u64, AlignedMemory) hmap \<Rightarrow> u64 list \<Rightarrow> sip \<Rightarrow> (heap, sip) cmd" where
  "hash_regions regions [] h = ret h"
| "hash_regions regions (gpa # gpas) h =
     bindE (expect_some ''unwrap'' (hm_get regions gpa)) (\<lambda>mem.
     bindE (AlignedMemory_slice mem) (\<lambda>slice.
     hash_regions regions gpas (hash_slice slice (hash_u64 gpa h))))"

definition hash_state :: "Snapshot \<Rightarrow> (heap, u64) cmd" where
  "hash_state snap =
     bindE (hash_regions (memory_regions snap) (sort (hm_keys (memory_regions snap)))
              (hash_registers (registers snap) DefaultHasher_new)) (\<lambda>hasher.
     ret (sip_finish hasher))"

section \<open>Invariants\<close>

text \<open>A buffer is well formed in a heap when it owns an allocation of its size and layout.\<close>

definition am_inv :: "heap \<Rightarrow> AlignedMemory \<Rightarrow> bool" where
  "am_inv hp m \<longleftrightarrow> am_layout m = \<lparr>l_size = am_size m, l_align = 4096\<rparr> \<and>
     (\<exists>b. h_blocks hp (am_ptr m) = Some b \<and> b_layout b = am_layout m)"

definition snap_inv :: "heap \<Rightarrow> Snapshot \<Rightarrow> bool" where
  "snap_inv hp s \<longleftrightarrow> hm_inv (memory_regions s) \<and>
     (\<forall>gpa m. hm_get (memory_regions s) gpa = Some m \<longrightarrow> am_inv hp m) \<and>
     (\<forall>gpa gpa' m m'. hm_get (memory_regions s) gpa = Some m \<longrightarrow>
        hm_get (memory_regions s) gpa' = Some m' \<longrightarrow> am_ptr m = am_ptr m' \<longrightarrow> gpa = gpa')"

text \<open>What a snapshot says: the bytes recorded for each region.\<close>

definition region_bytes :: "heap \<Rightarrow> Snapshot \<Rightarrow> u64 \<Rightarrow> u8 list option" where
  "region_bytes hp s gpa =
     (case hm_get (memory_regions s) gpa of None \<Rightarrow> None | Some m \<Rightarrow> heap_content hp (am_ptr m))"

text \<open>The allocations a snapshot owns.\<close>

definition snap_ptrs :: "Snapshot \<Rightarrow> ptr set" where
  "snap_ptrs s = {q. \<exists>gpa m. hm_get (memory_regions s) gpa = Some m \<and> q = am_ptr m}"

lemma snap_ptrs_insert:
  "snap_ptrs (s\<lparr>memory_regions := hm_insert gpa m (memory_regions s)\<rparr>) \<subseteq> insert (am_ptr m) (snap_ptrs s)"
  by (auto simp: snap_ptrs_def hm.get_insert split: if_splits)

lemma snap_registers [simp]:
  "snap_inv hp (s\<lparr>registers := rs\<rparr>) \<longleftrightarrow> snap_inv hp s"
  "region_bytes hp (s\<lparr>registers := rs\<rparr>) = region_bytes hp s"
  by (simp_all add: snap_inv_def region_bytes_def fun_eq_iff)

lemma snap_ptrs_registers [simp]: "snap_ptrs (s\<lparr>registers := rs\<rparr>) = snap_ptrs s"
  by (simp add: snap_ptrs_def)

lemma snap_frame:
  assumes "snap_inv hp s" and "\<And>q. q \<in> snap_ptrs s \<Longrightarrow> h_blocks hp' q = h_blocks hp q"
  shows "snap_inv hp' s" and "region_bytes hp' s = region_bytes hp s"
proof -
  have b: "h_blocks hp' (am_ptr m) = h_blocks hp (am_ptr m)" if "hm_get (memory_regions s) g = Some m" for g m
    using that assms(2) by (auto simp: snap_ptrs_def)
  have "am_inv hp' m" if m: "hm_get (memory_regions s) g = Some m" for g m
  proof -
    have "am_inv hp m" using m assms(1) unfolding snap_inv_def by blast
    then show ?thesis unfolding am_inv_def b [OF m] .
  qed
  then show "snap_inv hp' s"
    using assms(1) unfolding snap_inv_def by blast
  show "region_bytes hp' s = region_bytes hp s"
    using b by (auto simp: region_bytes_def heap_content_def fun_eq_iff split: option.splits)
qed

lemma snap_ptrs_allocated: "snap_inv hp s \<Longrightarrow> q \<in> snap_ptrs s \<Longrightarrow> heap_content hp q \<noteq> None"
  unfolding snap_inv_def snap_ptrs_def am_inv_def heap_content_def by fastforce

lemma am_inv_content:
  assumes "heap_inv hp" and "am_inv hp m"
  obtains bs where "heap_content hp (am_ptr m) = Some bs" and "length bs = unat (am_size m)"
  using assms by (auto simp: am_inv_def heap_inv_def heap_content_def)

lemma AlignedMemory_slice_ok:
  assumes "heap_inv hp" and "am_inv hp m"
  shows "AlignedMemory_slice m hp = Some (Inr (the (heap_content hp (am_ptr m))), hp)"
proof -
  obtain bs where "heap_content hp (am_ptr m) = Some bs" "length bs = unat (am_size m)"
    using am_inv_content [OF assms] .
  then show ?thesis
    using host.read_all [OF assms(1), of "am_ptr m" bs "unat (am_size m)"]
    by (simp add: AlignedMemory_slice_def)
qed

lemma Layout_4096:
  assumes "unat sz \<le> 2 ^ 63 - 4096"
  shows "Layout_from_size_align sz 4096 = Some \<lparr>l_size = sz, l_align = 4096\<rparr>"
  using assms by (simp add: Layout_from_size_align_def)

lemma AlignedMemory_new_ok:
  assumes inv: "heap_inv hp" and "sz \<noteq> 0" and "unat sz \<le> 2 ^ 63 - 4096" and "unat sz \<le> h_avail hp"
  shows "\<exists>hp'. AlignedMemory_new sz hp =
      Some (Inr \<lparr>am_ptr = h_next hp, am_size = sz, am_layout = \<lparr>l_size = sz, l_align = 4096\<rparr>\<rparr>, hp')
    \<and> heap_inv hp' \<and> h_next hp' = Suc (h_next hp) \<and> h_avail hp' = h_avail hp - unat sz
    \<and> h_blocks hp' = (h_blocks hp)(h_next hp \<mapsto>
        \<lparr>b_layout = \<lparr>l_size = sz, l_align = 4096\<rparr>, b_bytes = replicate (unat sz) 0\<rparr>)"
proof -
  let ?hp = "hp\<lparr>h_blocks := (h_blocks hp)(h_next hp \<mapsto>
        \<lparr>b_layout = \<lparr>l_size = sz, l_align = 4096\<rparr>, b_bytes = replicate (unat sz) 0\<rparr>),
      h_next := Suc (h_next hp), h_avail := h_avail hp - unat sz\<rparr>"
  have "heap_inv ?hp"
    using inv by (auto simp: heap_inv_def less_Suc_eq)
  moreover have "AlignedMemory_new sz hp =
      Some (Inr \<lparr>am_ptr = h_next hp, am_size = sz, am_layout = \<lparr>l_size = sz, l_align = 4096\<rparr>\<rparr>, ?hp)"
    using assms by (simp add: AlignedMemory_new_def Layout_4096 cmd_simps alloc_zeroed_def heap_inv_def)
  ultimately show ?thesis by auto
qed

lemma AlignedMemory_new_zero: "AlignedMemory_new 0 hp = Some (Inl (Undefined ZeroSizeAlloc), hp)"
  by (simp add: AlignedMemory_new_def Layout_from_size_align_def alloc_zeroed_def cmd_simps)

section \<open>Capturing a region\<close>

lemma am_inv_mono:
  "am_inv hp m \<Longrightarrow>
     map_option b_layout (h_blocks hp' (am_ptr m)) = map_option b_layout (h_blocks hp (am_ptr m)) \<Longrightarrow>
     am_inv hp' m"
  by (auto simp: am_inv_def)

lemma am_inv_allocated: "am_inv hp m \<Longrightarrow> heap_content hp (am_ptr m) \<noteq> None"
  by (auto simp: am_inv_def heap_content_def)

lemma am_inv_frame:
  assumes "am_inv hp m" and "\<And>q. heap_content hp q \<noteq> None \<Longrightarrow> h_blocks hp' q = h_blocks hp q"
  shows "am_inv hp' m"
  using am_inv_mono [OF assms(1), of hp'] assms(2) [OF am_inv_allocated [OF assms(1)]] by simp

lemma snap_inv_insert:
  assumes "snap_inv hp snap"
    and "\<And>g m. hm_get (memory_regions snap) g = Some m \<Longrightarrow> g \<noteq> gpa \<Longrightarrow> am_inv hp' m"
    and other: "\<And>g m. hm_get (memory_regions snap) g = Some m \<Longrightarrow> am_ptr m \<noteq> am_ptr buf"
    and "am_inv hp' buf"
  shows "snap_inv hp' (snap\<lparr>memory_regions := hm_insert gpa buf (memory_regions snap)\<rparr>)"
proof -
  have "g = g'" if "hm_get (hm_insert gpa buf (memory_regions snap)) g = Some m"
    and "hm_get (hm_insert gpa buf (memory_regions snap)) g' = Some m'" and "am_ptr m = am_ptr m'"
    for g g' m m'
    using that assms(1) other [of g m] other [of g' m']
    by (cases "g = gpa"; cases "g' = gpa") (auto simp: hm.get_insert snap_inv_def)
  moreover have "am_inv hp' m" if "hm_get (hm_insert gpa buf (memory_regions snap)) g = Some m" for g m
    using that assms(2,4) by (auto simp: hm.get_insert split: if_splits)
  ultimately show ?thesis
    using assms(1) by (simp add: snap_inv_def hm.invar_insert)
qed

text \<open>A snapshot that gains a buffer in an allocation that did not exist before.\<close>

lemma snap_insert_fresh:
  assumes inv: "heap_inv hp" and snap: "snap_inv hp snap"
    and bl: "h_blocks hp' = (h_blocks hp)(h_next hp \<mapsto> \<lparr>b_layout = lay, b_bytes = bs\<rparr>)"
    and lay: "lay = \<lparr>l_size = sz, l_align = 4096\<rparr>"
    and buf: "buf = \<lparr>am_ptr = h_next hp, am_size = sz, am_layout = lay\<rparr>"
  shows "snap_inv hp' (snap\<lparr>memory_regions := hm_insert gpa buf (memory_regions snap)\<rparr>)"
    and "region_bytes hp' (snap\<lparr>memory_regions := hm_insert gpa buf (memory_regions snap)\<rparr>)
      = (region_bytes hp snap)(gpa \<mapsto> bs)"
    and "\<And>q. heap_content hp q \<noteq> None \<Longrightarrow> h_blocks hp' q = h_blocks hp q"
proof -
  let ?snap = "snap\<lparr>memory_regions := hm_insert gpa buf (memory_regions snap)\<rparr>"
  show old: "h_blocks hp' r = h_blocks hp r" if "heap_content hp r \<noteq> None" for r
    using that heap_content_fresh [OF inv] bl by auto
  have ptrs: "am_ptr m \<noteq> h_next hp" and am: "am_inv hp' m"
    if "hm_get (memory_regions snap) g = Some m" for g m
  proof -
    have m: "am_inv hp m" using snap that by (auto simp: snap_inv_def)
    then have c: "heap_content hp (am_ptr m) \<noteq> None"
      by (auto simp: am_inv_def heap_content_def)
    then show "am_ptr m \<noteq> h_next hp"
      using heap_content_fresh [OF inv] by auto
    show "am_inv hp' m"
      using m old [OF c] by (auto intro: am_inv_mono)
  qed
  have "am_inv hp' buf"
    using bl by (simp add: am_inv_def buf lay)
  then show "snap_inv hp' ?snap"
    using snap am ptrs by (intro snap_inv_insert [of hp]) (auto simp: buf)
  show "region_bytes hp' ?snap = (region_bytes hp snap)(gpa \<mapsto> bs)"
  proof
    fix g
    show "region_bytes hp' ?snap g = ((region_bytes hp snap)(gpa \<mapsto> bs)) g"
      using ptrs bl
      by (auto simp: region_bytes_def hm.get_insert heap_content_def buf split: option.splits)
  qed
qed

text \<open>
  Capturing into a key that is not in the snapshot yet: the snapshot gains a private copy of the
  first \<open>sz\<close> bytes behind \<open>host_ptr\<close>; every allocation that existed keeps its bytes.
\<close>

lemma capture_region_ok:
  assumes inv: "heap_inv hp" and snap: "snap_inv hp snap"
    and fresh: "hm_get (memory_regions snap) gpa = None"
    and src: "heap_content hp p = Some bs" and len: "unat sz \<le> length bs"
    and sz: "sz \<noteq> 0" "unat sz \<le> 2 ^ 63 - 4096" "unat sz \<le> h_avail hp"
  shows "\<exists>hp' snap'. capture_region gpa p sz snap hp = Some (Inr snap', hp')
    \<and> heap_inv hp' \<and> snap_inv hp' snap' \<and> registers snap' = registers snap
    \<and> hm_keys (memory_regions snap') = hm_keys (memory_regions snap) @ [gpa]
    \<and> region_bytes hp' snap' = (region_bytes hp snap)(gpa \<mapsto> take (unat sz) bs)
    \<and> h_next hp' = Suc (h_next hp) \<and> h_avail hp' = h_avail hp - unat sz
    \<and> snap_ptrs snap' \<subseteq> snap_ptrs snap \<union> {q. heap_content hp q = None}
    \<and> (\<forall>q. heap_content hp q \<noteq> None \<longrightarrow> h_blocks hp' q = h_blocks hp q)"
proof -
  define buf where "buf = \<lparr>am_ptr = h_next hp, am_size = sz, am_layout = \<lparr>l_size = sz, l_align = 4096\<rparr>\<rparr>"
  define q where "q = h_next hp"
  obtain hp1 where new: "AlignedMemory_new sz hp = Some (Inr buf, hp1)" and inv1: "heap_inv hp1"
    and nx: "h_next hp1 = Suc q" "h_avail hp1 = h_avail hp - unat sz"
    and bl: "h_blocks hp1 = (h_blocks hp)(q \<mapsto>
        \<lparr>b_layout = \<lparr>l_size = sz, l_align = 4096\<rparr>, b_bytes = replicate (unat sz) 0\<rparr>)"
    using AlignedMemory_new_ok [OF inv sz] by (auto simp: buf_def q_def)
  have pq: "p \<noteq> q"
    using heap_content_fresh [OF inv] src by (auto simp: q_def)
  have rd: "heap_read p 0 (unat sz) hp1 = Some (Inr (take (unat sz) bs), hp1)"
    using heap_read_ok [OF inv1, of p bs 0 "unat sz"] src len pq bl by (simp add: heap_content_def)
  let ?b = "\<lparr>b_layout = \<lparr>l_size = sz, l_align = 4096\<rparr>, b_bytes = take (unat sz) bs\<rparr>"
  let ?hp2 = "hp1\<lparr>h_blocks := (h_blocks hp1)(q \<mapsto> ?b)\<rparr>"
  have q0: "q \<noteq> 0" using inv by (simp add: heap_inv_def q_def)
  have wr: "heap_write q 0 (take (unat sz) bs) hp1 = Some (Inr (), ?hp2)"
    using q0 len bl by (simp add: heap_write_def access_fault_def min_def)
  let ?snap = "snap\<lparr>memory_regions := hm_insert gpa buf (memory_regions snap)\<rparr>"
  have run: "capture_region gpa p sz snap hp = Some (Inr ?snap, ?hp2)"
    using new rd wr fresh pq
    by (simp add: capture_region_def copy_nonoverlapping_def cmd_simps buf_def q_def [symmetric])
  have inv2: "heap_inv ?hp2"
    using host.write_all [OF inv1, of q "replicate (unat sz) 0" "take (unat sz) bs"] wr bl len
    by (auto simp: heap_content_def)
  have "h_blocks ?hp2 = (h_blocks hp)(h_next hp \<mapsto> ?b)"
    using bl by (simp add: q_def)
  note ins = snap_insert_fresh(1,2) [OF inv snap this refl buf_def, where gpa = gpa]
    snap_insert_fresh(3) [OF inv snap this refl buf_def]
  have keys: "hm_keys (memory_regions ?snap) = hm_keys (memory_regions snap) @ [gpa]"
    using fresh by (simp add: hm_keys_def hm_insert_def hm_get_def update_keys map_of_eq_None_iff)
  have "snap_ptrs ?snap \<subseteq> snap_ptrs snap \<union> {q. heap_content hp q = None}"
    using snap_ptrs_insert [of gpa buf snap] heap_content_fresh [OF inv] by (auto simp: buf_def)
  then show ?thesis
    using run inv2 ins keys nx by (intro exI [of _ ?hp2] exI [of _ ?snap]) (simp add: q_def)
qed

section \<open>The state hash\<close>

text \<open>
  The bytes the hasher is fed: the low halves of the registers in order, then the regions by
  ascending address, each as its address, its length and its bytes.
\<close>

definition region_item :: "u64 \<times> u8 list \<Rightarrow> u8 list" where
  "region_item r = le_bytes 8 (fst r) @ slice_bytes (snd r)"

definition hash_input :: "u64 list \<Rightarrow> (u64 \<times> u8 list) list \<Rightarrow> u8 list" where
  "hash_input regs regions = concat (map (le_bytes 8) regs) @ concat (map region_item regions)"

definition sorted_regions :: "heap \<Rightarrow> Snapshot \<Rightarrow> (u64 \<times> u8 list) list" where
  "sorted_regions hp s =
     map (\<lambda>g. (g, the (region_bytes hp s g))) (sort (hm_keys (memory_regions s)))"

lemma hash_registers_bytes:
  "hash_registers rs h = sip_write (concat (map (le_bytes 8) (map Reg64 rs))) h"
  by (induction rs arbitrary: h) (simp_all add: hash_u64_def sip.wr_Nil sip.wr_append)

lemma hash_regions_bytes:
  assumes inv: "heap_inv hp" and snap: "snap_inv hp s"
    and "set gpas \<subseteq> set (hm_keys (memory_regions s))"
  shows "hash_regions (memory_regions s) gpas h hp =
    Some (Inr (sip_write (concat (map region_item
      (map (\<lambda>g. (g, the (region_bytes hp s g))) gpas))) h), hp)"
  using assms(3)
proof (induction gpas arbitrary: h)
  case Nil
  then show ?case by (simp add: ret_def sip.wr_Nil)
next
  case (Cons g gpas)
  obtain m where m: "hm_get (memory_regions s) g = Some m"
    using Cons.prems by (auto simp: hm.set_keys)
  have "am_inv hp m" using snap m by (auto simp: snap_inv_def)
  then have sl: "AlignedMemory_slice m hp = Some (Inr (the (region_bytes hp s g)), hp)"
    using AlignedMemory_slice_ok [OF inv] m by (simp add: region_bytes_def)
  show ?case
    using Cons sl m
    by (simp add: cmd_simps region_item_def hash_slice_bytes hash_u64_def sip.wr_append)
qed

lemma hash_state_bytes:
  assumes "heap_inv hp" and "snap_inv hp s"
  shows "hash_state s hp = Some (Inr (sip_finish (sip_write
    (hash_input (map Reg64 (registers s)) (sorted_regions hp s)) DefaultHasher_new)), hp)"
  by (simp add: hash_state_def hash_regions_bytes [OF assms] hash_registers_bytes cmd_simps
      hash_input_def sorted_regions_def sip.wr_append)

lemma region_bytes_dom:
  assumes "snap_inv hp s"
  shows "dom (region_bytes hp s) = dom (hm_get (memory_regions s))"
  using assms
  by (fastforce simp: region_bytes_def snap_inv_def am_inv_def heap_content_def dom_def split: option.splits)

lemma sorted_regions_cong:
  assumes "snap_inv hp s" and "snap_inv hp' s'" and "region_bytes hp s = region_bytes hp' s'"
  shows "sorted_regions hp s = sorted_regions hp' s'"
proof -
  have "dom (hm_get (memory_regions s)) = dom (hm_get (memory_regions s'))"
    using assms region_bytes_dom by metis
  then have "sort (hm_keys (memory_regions s)) = sort (hm_keys (memory_regions s'))"
    using assms(1,2) by (intro hm.sort_keys_cong) (simp_all add: snap_inv_def)
  then show ?thesis by (simp add: sorted_regions_def assms(3))
qed

text \<open>The hash as a function of what the snapshot says.\<close>

definition state_hash :: "reg_value list \<Rightarrow> (u64 \<Rightarrow> u8 list option) \<Rightarrow> u64" where
  "state_hash rs C = sip_finish (sip_write (hash_input (map Reg64 rs)
     (map (\<lambda>g. (g, the (C g))) (sorted_list_of_set (dom C)))) DefaultHasher_new)"

lemma hash_state_eq:
  assumes "heap_inv hp" and "snap_inv hp s"
  shows "hash_state s hp = Some (Inr (state_hash (registers s) (region_bytes hp s)), hp)"
proof -
  have "sort (hm_keys (memory_regions s)) = sorted_list_of_set (dom (region_bytes hp s))"
    using hm.sort_keys [of "memory_regions s"] assms(2) region_bytes_dom [OF assms(2)] by (simp add: snap_inv_def)
  then show ?thesis
    by (simp add: hash_state_bytes [OF assms] sorted_regions_def state_hash_def)
qed

text \<open>The encoding of the regions can be read back.\<close>

lemma region_items_inj:
  assumes "\<forall>r \<in> set rs. length (snd r) < 2 ^ 64" and "\<forall>r \<in> set rs'. length (snd r) < 2 ^ 64"
    and "concat (map region_item rs) = concat (map region_item rs')"
  shows "rs = rs'"
  using assms
proof (induction rs arbitrary: rs')
  case Nil
  then show ?case
    by (cases rs') (auto simp: region_item_def slice_bytes_def le_bytes_def)
next
  case (Cons r rs)
  obtain r' rs'' where rs': "rs' = r' # rs''"
    using Cons.prems(3) by (cases rs') (auto simp: region_item_def le_bytes_def)
  have "le_bytes 8 (fst r) @ slice_bytes (snd r) @ concat (map region_item rs) =
      le_bytes 8 (fst r') @ slice_bytes (snd r') @ concat (map region_item rs'')"
    using Cons.prems(3) rs' by (simp add: region_item_def [of r] region_item_def [of r'])
  then have "fst r = fst r'" "slice_bytes (snd r) @ concat (map region_item rs) =
      slice_bytes (snd r') @ concat (map region_item rs'')"
    by (simp_all only: u64_le.enc_append_eq_iff)
  moreover from this(2) have "snd r = snd r'" "concat (map region_item rs) = concat (map region_item rs'')"
    using Cons.prems(1,2) rs' by (simp_all add: slice_bytes_append_eq)
  ultimately show ?case
    using Cons.IH [of rs''] Cons.prems(1,2) rs' by (simp add: prod_eq_iff)
qed

lemma hash_input_inj:
  assumes "length regs = length regs'"
    and "\<forall>r \<in> set rs. length (snd r) < 2 ^ 64" and "\<forall>r \<in> set rs'. length (snd r) < 2 ^ 64"
    and "hash_input regs rs = hash_input regs' rs'"
  shows "regs = regs' \<and> rs = rs'"
  using assms region_items_inj [OF assms(2,3)]
  by (simp add: hash_input_def u64_le.concat_enc_append_eq)

lemma sorted_regions_short:
  assumes inv: "heap_inv hp" and snap: "snap_inv hp s"
  shows "\<forall>r \<in> set (sorted_regions hp s). length (snd r) < 2 ^ 64"
proof
  fix r
  assume "r \<in> set (sorted_regions hp s)"
  then obtain g m where r: "r = (g, the (region_bytes hp s g))" "hm_get (memory_regions s) g = Some m"
    by (auto simp: sorted_regions_def hm.set_keys)
  have "am_inv hp m" using snap r(2) by (auto simp: snap_inv_def)
  then obtain bs where "heap_content hp (am_ptr m) = Some bs" "length bs = unat (am_size m)"
    using am_inv_content [OF inv] by blast
  then show "length (snd r) < 2 ^ 64"
    using r unsigned_less [of "am_size m", where ?'a = nat] by (simp add: region_bytes_def)
qed

lemma region_bytes_sorted:
  assumes "snap_inv hp s"
  shows "region_bytes hp s = map_of (sorted_regions hp s)"
proof
  fix g
  have "g \<in> set (hm_keys (memory_regions s)) \<longleftrightarrow> region_bytes hp s g \<noteq> None"
    using region_bytes_dom [OF assms] by (auto simp: hm.set_keys dom_def)
  then show "region_bytes hp s g = map_of (sorted_regions hp s) g"
    by (auto simp: sorted_regions_def map_of_map_restrict restrict_map_def)
qed

section \<open>Properties\<close>

text \<open>
  C35. \<open>AlignedMemory::new\<close> on every input: a size of zero is undefined behaviour, a size that
  cannot be rounded up to a page within \<open>isize::MAX\<close> panics in the layout, a size the allocator
  cannot serve panics in the assertion, and any other size yields a zeroed buffer of that size in
  an allocation of its own, every other allocation untouched.
\<close>

theorem aligned_memory_new_outcome:
  assumes "heap_inv hp"
  shows "AlignedMemory_new sz hp =
    (if 2 ^ 63 - 4096 < unat sz then Some (Inl (Panic (Expect ''Invalid alignment layout'')), hp)
     else if sz = 0 then Some (Inl (Undefined ZeroSizeAlloc), hp)
     else if h_avail hp < unat sz then Some (Inl (Panic AssertFailed), hp)
     else let m = \<lparr>am_ptr = h_next hp, am_size = sz, am_layout = \<lparr>l_size = sz, l_align = 4096\<rparr>\<rparr> in
       Some (Inr m, hp\<lparr>h_blocks := (h_blocks hp)(am_ptr m \<mapsto> \<lparr>b_layout = am_layout m, b_bytes = replicate (unat sz) 0\<rparr>),
         h_next := Suc (h_next hp), h_avail := h_avail hp - unat sz\<rparr>))"
  using assms
  by (auto simp: AlignedMemory_new_def Layout_from_size_align_def alloc_zeroed_def cmd_simps heap_inv_def Let_def)

definition tiny_heap :: heap where
  "tiny_heap = \<lparr>h_blocks = [1 \<mapsto> \<lparr>b_layout = \<lparr>l_size = 4, l_align = 4096\<rparr>, b_bytes = [1, 2, 3, 4]\<rparr>],
     h_next = 2, h_avail = 100\<rparr>"

lemma tiny_heap_inv: "heap_inv tiny_heap"
  by (simp add: tiny_heap_def heap_inv_def)

theorem aligned_memory_new_outcome_witness:
  "AlignedMemory_new 0 tiny_heap = Some (Inl (Undefined ZeroSizeAlloc), tiny_heap)
   \<and> AlignedMemory_new 101 tiny_heap = Some (Inl (Panic AssertFailed), tiny_heap)"
  using aligned_memory_new_outcome [OF tiny_heap_inv, of 0] aligned_memory_new_outcome [OF tiny_heap_inv, of 101]
  by (simp add: tiny_heap_def)

text \<open>
  C28. \<open>Snapshot::capture_region\<close> into a key the snapshot does not have: the snapshot stays well
  formed and gains exactly the first \<open>size\<close> bytes behind the pointer at that key; the copy is
  private, every allocation that existed keeps its bytes.
\<close>

theorem capture_region_copies:
  assumes "heap_inv hp" and "snap_inv hp snap" and "hm_get (memory_regions snap) gpa = None"
    and "heap_content hp p = Some bs" and "unat sz \<le> length bs"
    and "sz \<noteq> 0" and "unat sz \<le> 2 ^ 63 - 4096" and "unat sz \<le> h_avail hp"
  shows "\<exists>hp' snap'. capture_region gpa p sz snap hp = Some (Inr snap', hp')
    \<and> heap_inv hp' \<and> snap_inv hp' snap' \<and> registers snap' = registers snap
    \<and> region_bytes hp' snap' = (region_bytes hp snap)(gpa \<mapsto> take (unat sz) bs)
    \<and> (\<forall>q. heap_content hp q \<noteq> None \<longrightarrow> heap_content hp' q = heap_content hp q)"
proof -
  obtain hp' snap' where c: "capture_region gpa p sz snap hp = Some (Inr snap', hp')"
    "heap_inv hp'" "snap_inv hp' snap'" "registers snap' = registers snap"
    "region_bytes hp' snap' = (region_bytes hp snap)(gpa \<mapsto> take (unat sz) bs)"
    "\<forall>q. heap_content hp q \<noteq> None \<longrightarrow> h_blocks hp' q = h_blocks hp q"
    using capture_region_ok [OF assms] by blast
  then have "\<forall>q. heap_content hp q \<noteq> None \<longrightarrow> heap_content hp' q = heap_content hp q"
    by (simp add: heap_content_def)
  then show ?thesis using c by blast
qed

theorem capture_region_copies_witness:
  "\<exists>hp' snap'. capture_region 0x1000 1 3 Snapshot_new tiny_heap = Some (Inr snap', hp')
    \<and> region_bytes hp' snap' 0x1000 = Some [1, 2, 3]"
proof -
  have s: "snap_inv tiny_heap Snapshot_new" "hm_get (memory_regions Snapshot_new) 0x1000 = None"
    by (simp_all add: snap_inv_def Snapshot_new_def hm.invar_empty hm.get_empty)
  have c: "heap_content tiny_heap 1 = Some [1, 2, 3, 4]" by (simp add: tiny_heap_def heap_content_def)
  show ?thesis
    using capture_region_copies [OF tiny_heap_inv s c, of 3] by (auto simp: tiny_heap_def)
qed

text \<open>
  C15. The state hash depends on the contents alone: two well-formed snapshots, in whatever heaps,
  with whatever buffers and whatever insertion order, have the same hash as soon as the low halves
  of their registers and the bytes of their regions agree.
\<close>

theorem hash_state_contents_only:
  assumes "heap_inv hp" and "snap_inv hp s" and "heap_inv hp'" and "snap_inv hp' s'"
    and "map Reg64 (registers s) = map Reg64 (registers s')" and "region_bytes hp s = region_bytes hp' s'"
  shows "\<exists>h. hash_state s hp = Some (Inr h, hp) \<and> hash_state s' hp' = Some (Inr h, hp')"
  using assms sorted_regions_cong [OF assms(2,4,6)] by (simp add: hash_state_bytes)

definition pair_heap :: "ptr \<Rightarrow> ptr \<Rightarrow> heap" where
  "pair_heap p q = \<lparr>h_blocks = [p \<mapsto> \<lparr>b_layout = \<lparr>l_size = 1, l_align = 4096\<rparr>, b_bytes = [7]\<rparr>,
       q \<mapsto> \<lparr>b_layout = \<lparr>l_size = 1, l_align = 4096\<rparr>, b_bytes = [9]\<rparr>], h_next = 5, h_avail = 0\<rparr>"

definition pair_snap :: "ptr \<Rightarrow> ptr \<Rightarrow> bool \<Rightarrow> Snapshot" where
  "pair_snap p q swap = (let m = (\<lambda>x. \<lparr>am_ptr = x, am_size = 1, am_layout = \<lparr>l_size = 1, l_align = 4096\<rparr>\<rparr>) in
     \<lparr>memory_regions = (if swap then [(2, m q), (1, m p)] else [(1, m p), (2, m q)]), registers = [mk_Reg64 3]\<rparr>)"

lemma pair_snap_inv:
  assumes "p \<noteq> q" "0 < p" "0 < q" "p < 5" "q < 5"
  shows "heap_inv (pair_heap p q)" "snap_inv (pair_heap p q) (pair_snap p q swap)"
    "region_bytes (pair_heap p q) (pair_snap p q swap) = [1 \<mapsto> [7], 2 \<mapsto> [9]]"
  using assms
  by (auto simp: pair_heap_def heap_inv_def pair_snap_def Let_def snap_inv_def hm_inv_def hm_get_def am_inv_def
      region_bytes_def heap_content_def fun_eq_iff split: if_splits)

theorem hash_state_contents_only_witness:
  "\<exists>h. hash_state (pair_snap 1 2 False) (pair_heap 1 2) = Some (Inr h, pair_heap 1 2)
     \<and> hash_state (pair_snap 4 3 True) (pair_heap 4 3) = Some (Inr h, pair_heap 4 3)"
  by (rule hash_state_contents_only) (simp_all add: pair_snap_inv, simp add: pair_snap_def Let_def)

text \<open>
  C14. What is hashed identifies the state: the hash of a snapshot is the hash of a byte string, and
  for two states with the same number of registers the two byte strings are equal exactly when the
  low halves of the registers and the regions, addresses and bytes, are. So two different states
  have the same hash only if SipHash collides.
\<close>

theorem hashed_bytes_identify_state:
  assumes "heap_inv hp" and "snap_inv hp s" and "heap_inv hp'" and "snap_inv hp' s'"
    and len: "length (registers s) = length (registers s')"
  shows "\<exists>bs bs'. hash_state s hp = Some (Inr (sip_finish (sip_write bs DefaultHasher_new)), hp)
    \<and> hash_state s' hp' = Some (Inr (sip_finish (sip_write bs' DefaultHasher_new)), hp')
    \<and> (bs = bs' \<longleftrightarrow> map Reg64 (registers s) = map Reg64 (registers s') \<and> region_bytes hp s = region_bytes hp' s')"
proof (intro exI conjI)
  let ?b = "hash_input (map Reg64 (registers s)) (sorted_regions hp s)"
  let ?b' = "hash_input (map Reg64 (registers s')) (sorted_regions hp' s')"
  show "hash_state s hp = Some (Inr (sip_finish (sip_write ?b DefaultHasher_new)), hp)"
    "hash_state s' hp' = Some (Inr (sip_finish (sip_write ?b' DefaultHasher_new)), hp')"
    by (rule hash_state_bytes [OF assms(1,2)], rule hash_state_bytes [OF assms(3,4)])
  show "?b = ?b' \<longleftrightarrow> map Reg64 (registers s) = map Reg64 (registers s') \<and> region_bytes hp s = region_bytes hp' s'"
  proof
    assume eq: "?b = ?b'"
    have "map Reg64 (registers s) = map Reg64 (registers s') \<and> sorted_regions hp s = sorted_regions hp' s'"
      using hash_input_inj [OF _ _ _ eq] len sorted_regions_short [OF assms(1,2)] sorted_regions_short [OF assms(3,4)] by simp
    then show "map Reg64 (registers s) = map Reg64 (registers s') \<and> region_bytes hp s = region_bytes hp' s'"
      using region_bytes_sorted [OF assms(2)] region_bytes_sorted [OF assms(4)] by metis
  qed (use sorted_regions_cong [OF assms(2,4)] in simp)
qed

theorem hashed_bytes_identify_state_witness:
  "\<exists>bs bs'. hash_state (pair_snap 1 2 False) (pair_heap 1 2) =
      Some (Inr (sip_finish (sip_write bs DefaultHasher_new)), pair_heap 1 2)
    \<and> hash_state ((pair_snap 4 3 True)\<lparr>registers := [mk_Reg64 4]\<rparr>) (pair_heap 4 3) =
      Some (Inr (sip_finish (sip_write bs' DefaultHasher_new)), pair_heap 4 3)
    \<and> bs \<noteq> bs'"
proof -
  have r: "registers (pair_snap 1 2 False) = [mk_Reg64 3]" by (simp add: pair_snap_def Let_def)
  have s: "heap_inv (pair_heap 1 2)" "snap_inv (pair_heap 1 2) (pair_snap 1 2 False)" "heap_inv (pair_heap 4 3)"
    "snap_inv (pair_heap 4 3) ((pair_snap 4 3 True)\<lparr>registers := [mk_Reg64 4]\<rparr>)"
    by (simp_all add: pair_snap_inv)
  show ?thesis
    using hashed_bytes_identify_state [OF s] r by simp
qed

end
