(* ===== verification/Trace_Format.thy ===== *)
theory Trace_Format
  imports Vestigium_Prelude
begin

text \<open>
  \<open>crates/trace/src/format.rs\<close>: the events of a recorded execution, and the append-only log
  \<open>TraceLogger\<close> of \<open>crates/engine/src/record.rs\<close> that collects them.
\<close>

datatype EventType =
    Syscall (sys_rax: u64) (memory_writes: "(u64 \<times> u8 list) list")
  | is_Rdtsc: Rdtsc (tsc_rax: u64) (tsc_rdx: u64)
  | is_Cpuid: Cpuid (cpuid_eax: u32) (cpuid_ebx: u32) (cpuid_ecx: u32) (cpuid_edx: u32)
  | ContextSwitch (next_thread_id: u32)

record TraceEvent =
  instruction_count :: u64
  event :: EventType

record TraceLogger =
  events :: "TraceEvent list"

definition TraceLogger_new :: TraceLogger where
  "TraceLogger_new = \<lparr>events = []\<rparr>"

definition log_event :: "TraceEvent \<Rightarrow> TraceLogger \<Rightarrow> TraceLogger" where
  "log_event e l = l\<lparr>events := events l @ [e]\<rparr>"

text \<open>
  The log as the record engine's loop fills it: the event logged in the \<open>k\<close>-th iteration carries
  \<open>k\<close>, whatever instruction it stands for.
\<close>

definition numbered_from :: "u64 \<Rightarrow> TraceEvent list \<Rightarrow> bool" where
  "numbered_from n es \<longleftrightarrow> (\<forall>i < length es. instruction_count (es ! i) = n + of_nat i)"

lemma numbered_from_Nil [simp]: "numbered_from n []"
  by (simp add: numbered_from_def)

lemma numbered_from_Cons [simp]:
  "numbered_from n (e # es) \<longleftrightarrow> instruction_count e = n \<and> numbered_from (n + 1) es"
proof -
  have "(\<forall>i < Suc (length es). instruction_count ((e # es) ! i) = n + of_nat i) \<longleftrightarrow>
      instruction_count e = n \<and>
      (\<forall>i < length es. instruction_count ((e # es) ! Suc i) = n + of_nat (Suc i))"
    by (auto simp: less_Suc_eq_0_disj)
  then show ?thesis
    by (simp add: numbered_from_def add.assoc)
qed

lemma events_log_event [simp]: "events (log_event e l) = events l @ [e]"
  by (simp add: log_event_def)

lemma events_TraceLogger_new [simp]: "events TraceLogger_new = []"
  by (simp add: TraceLogger_new_def)

end
