(* ===== verification/Serde_Archive.thy ===== *)
theory Serde_Archive
  imports Snapshot_State Trace_Format
begin

text \<open>
  Serialisation of the trace archive: the hand-written \<open>Serialize\<close> and \<open>Deserialize\<close> of
  \<open>AlignedMemory\<close> and \<open>register_serde\<close> (\<open>crates/engine/src/record.rs\<close>), the derived ones of
  \<open>Snapshot\<close>, \<open>TraceEvent\<close> and \<open>EventType\<close>, and the archive tuple of \<open>crates/cli/src/main.rs\<close>.
  The format is the \<open>bincode\<close> crate: its encodings of the primitives of serde's data model are
  the fields of \<open>serde_format\<close>, an argument of the model, and the locale \<open>binary_format\<close> states
  what the program relies on.
\<close>

section \<open>The format\<close>

record serde_format =
  put_u8 :: "u8 \<Rightarrow> u8 list"
  put_u32 :: "u32 \<Rightarrow> u8 list"
  put_u64 :: "u64 \<Rightarrow> u8 list"
  put_len :: "nat \<Rightarrow> u8 list"
  put_bytes :: "u8 list \<Rightarrow> u8 list"
  put_variant :: "u32 \<Rightarrow> u8 list"
  get_u8 :: "u8 list \<Rightarrow> (u8 \<times> u8 list) option"
  get_u32 :: "u8 list \<Rightarrow> (u32 \<times> u8 list) option"
  get_u64 :: "u8 list \<Rightarrow> (u64 \<times> u8 list) option"
  get_len :: "u8 list \<Rightarrow> (nat \<times> u8 list) option"
  get_variant :: "u8 list \<Rightarrow> (u32 \<times> u8 list) option"

text \<open>
  A deserialiser runs on the host memory, in which it allocates buffers, and on the bytes that
  are still to be read.
\<close>

type_synonym 'a reader = "(heap \<times> u8 list, 'a) cmd"

definition read_with :: "(u8 list \<Rightarrow> ('a \<times> u8 list) option) \<Rightarrow> 'a reader" where
  "read_with g s = (case g (snd s) of
      None \<Rightarrow> Some (Inl CodecErr, s)
    | Some (x, bs) \<Rightarrow> Some (Inr x, (fst s, bs)))"

text \<open>Sequences: the length, then the elements.\<close>

definition ser_seq :: "serde_format \<Rightarrow> ('a \<Rightarrow> u8 list) \<Rightarrow> 'a list \<Rightarrow> u8 list" where
  "ser_seq F f xs = put_len F (length xs) @ concat (map f xs)"

definition de_seq :: "serde_format \<Rightarrow> 'a reader \<Rightarrow> 'a list reader" where
  "de_seq F m = bindE (read_with (get_len F)) (\<lambda>n. repeat_cmd n m)"

section \<open>AlignedMemory and registers\<close>

text \<open>A buffer is written with \<open>serialize_bytes\<close> and read back as a \<open>Vec<u8>\<close>.\<close>

definition ser_AlignedMemory :: "serde_format \<Rightarrow> AlignedMemory \<Rightarrow> (heap, u8 list) cmd" where
  "ser_AlignedMemory F m = bindE (AlignedMemory_slice m) (\<lambda>slice. ret (put_bytes F slice))"

definition de_AlignedMemory :: "serde_format \<Rightarrow> AlignedMemory reader" where
  "de_AlignedMemory F =
     bindE (de_seq F (read_with (get_u8 F))) (\<lambda>bytes.
     bindE (on_fst (AlignedMemory_new (of_nat (length bytes)))) (\<lambda>mem.
     thenE (on_fst (copy_from_slice bytes (am_ptr mem) 0 (length bytes)))
    (ret mem)))"

text \<open>A register is the array of its 16 bytes.\<close>

definition ser_register :: "serde_format \<Rightarrow> reg_value \<Rightarrow> u8 list" where
  "ser_register F r = concat (map (put_u8 F) (le_bytes 16 r))"

definition de_register :: "serde_format \<Rightarrow> reg_value reader" where
  "de_register F = bindE (repeat_cmd 16 (read_with (get_u8 F))) (\<lambda>bs. ret (of_le_bytes bs))"

definition ser_registers :: "serde_format \<Rightarrow> reg_value list \<Rightarrow> u8 list" where
  "ser_registers F = ser_seq F (ser_register F)"

definition de_registers :: "serde_format \<Rightarrow> reg_value list reader" where
  "de_registers F = de_seq F (de_register F)"

section \<open>Snapshot\<close>

text \<open>The map is written in its iteration order, \<open>ks\<close>.\<close>

primrec ser_entries ::
    "serde_format \<Rightarrow> (u64, AlignedMemory) hmap \<Rightarrow> u64 list \<Rightarrow> (heap, u8 list) cmd" where
  "ser_entries F regions [] = ret []"
| "ser_entries F regions (k # ks) =
     bindE (case hm_get regions k of
              None \<Rightarrow> ret []
            | Some m \<Rightarrow> bindE (ser_AlignedMemory F m) (\<lambda>bs. ret (put_u64 F k @ bs))) (\<lambda>item.
     bindE (ser_entries F regions ks) (\<lambda>items. ret (item @ items)))"

definition ser_Snapshot :: "'h platform \<Rightarrow> serde_format \<Rightarrow> Snapshot \<Rightarrow> (heap, u8 list) cmd" where
  "ser_Snapshot P F snap =
     bindE (ser_entries F (memory_regions snap) (hash_order P (hm_keys (memory_regions snap)))) (\<lambda>items.
     ret (put_len F (length (memory_regions snap)) @ items @ ser_registers F (registers snap)))"

primrec de_entries ::
    "serde_format \<Rightarrow> nat \<Rightarrow> (u64, AlignedMemory) hmap \<Rightarrow> (u64, AlignedMemory) hmap reader" where
  "de_entries F 0 regions = ret regions"
| "de_entries F (Suc n) regions =
     bindE (read_with (get_u64 F)) (\<lambda>gpa.
     bindE (de_AlignedMemory F) (\<lambda>mem.
     thenE (case hm_get regions gpa of
              None \<Rightarrow> ret () | Some old \<Rightarrow> on_fst (AlignedMemory_drop old))
    (de_entries F n (hm_insert gpa mem regions))))"

definition de_Snapshot :: "serde_format \<Rightarrow> Snapshot reader" where
  "de_Snapshot F =
     bindE (read_with (get_len F)) (\<lambda>n.
     bindE (de_entries F n []) (\<lambda>regions.
     bindE (de_registers F) (\<lambda>regs.
     ret \<lparr>memory_regions = regions, registers = regs\<rparr>)))"

section \<open>Events and the archive\<close>

definition ser_EventType :: "serde_format \<Rightarrow> EventType \<Rightarrow> u8 list" where
  "ser_EventType F ev = (case ev of
      Syscall rax writes \<Rightarrow> put_variant F 0 @ put_u64 F rax @
        ser_seq F (\<lambda>(gpa, data). put_u64 F gpa @ ser_seq F (put_u8 F) data) writes
    | Rdtsc rax rdx \<Rightarrow> put_variant F 1 @ put_u64 F rax @ put_u64 F rdx
    | Cpuid eax ebx ecx edx \<Rightarrow>
        put_variant F 2 @ put_u32 F eax @ put_u32 F ebx @ put_u32 F ecx @ put_u32 F edx
    | ContextSwitch t \<Rightarrow> put_variant F 3 @ put_u32 F t)"

definition de_write :: "serde_format \<Rightarrow> (u64 \<times> u8 list) reader" where
  "de_write F =
     bindE (read_with (get_u64 F)) (\<lambda>gpa.
     bindE (de_seq F (read_with (get_u8 F))) (\<lambda>data. ret (gpa, data)))"

definition de_EventType :: "serde_format \<Rightarrow> EventType reader" where
  "de_EventType F =
     bindE (read_with (get_variant F)) (\<lambda>tag.
     if tag = 0 then
       bindE (read_with (get_u64 F)) (\<lambda>rax. bindE (de_seq F (de_write F)) (\<lambda>writes. ret (Syscall rax writes)))
     else if tag = 1 then
       bindE (read_with (get_u64 F)) (\<lambda>rax. bindE (read_with (get_u64 F)) (\<lambda>rdx. ret (Rdtsc rax rdx)))
     else if tag = 2 then
       bindE (read_with (get_u32 F)) (\<lambda>eax. bindE (read_with (get_u32 F)) (\<lambda>ebx.
       bindE (read_with (get_u32 F)) (\<lambda>ecx. bindE (read_with (get_u32 F)) (\<lambda>edx.
       ret (Cpuid eax ebx ecx edx)))))
     else if tag = 3 then bindE (read_with (get_u32 F)) (\<lambda>t. ret (ContextSwitch t))
     else raise CodecErr)"

definition ser_TraceEvent :: "serde_format \<Rightarrow> TraceEvent \<Rightarrow> u8 list" where
  "ser_TraceEvent F e = put_u64 F (instruction_count e) @ ser_EventType F (event e)"

definition de_TraceEvent :: "serde_format \<Rightarrow> TraceEvent reader" where
  "de_TraceEvent F =
     bindE (read_with (get_u64 F)) (\<lambda>n. bindE (de_EventType F) (\<lambda>ev.
     ret \<lparr>instruction_count = n, event = ev\<rparr>))"

definition ser_archive ::
    "'h platform \<Rightarrow> serde_format \<Rightarrow> Snapshot \<Rightarrow> TraceEvent list \<Rightarrow> u64 \<Rightarrow> (heap, u8 list) cmd" where
  "ser_archive P F snap es final_hash =
     bindE (ser_Snapshot P F snap) (\<lambda>bs.
     ret (bs @ ser_seq F (ser_TraceEvent F) es @ put_u64 F final_hash))"

text \<open>\<open>bincode::deserialize\<close> ignores bytes after the archive.\<close>

definition de_archive :: "serde_format \<Rightarrow> u8 list \<Rightarrow> (heap, Snapshot \<times> TraceEvent list \<times> u64) cmd" where
  "de_archive F bytes hp =
    (case bindE (de_Snapshot F) (\<lambda>snap.
          bindE (de_seq F (de_TraceEvent F)) (\<lambda>es.
          bindE (read_with (get_u64 F)) (\<lambda>final_hash. ret (snap, es, final_hash)))) (hp, bytes) of
       None \<Rightarrow> None
     | Some (r, s) \<Rightarrow> Some (r, fst s))"

section \<open>What the program relies on of the format\<close>

locale binary_format =
  fixes F :: serde_format
  assumes u8_back: "get_u8 F (put_u8 F b @ bs) = Some (b, bs)"
    and u32_back: "get_u32 F (put_u32 F x @ bs) = Some (x, bs)"
    and u64_back: "get_u64 F (put_u64 F y @ bs) = Some (y, bs)"
    and len_back: "n < 2 ^ 64 \<Longrightarrow> get_len F (put_len F n @ bs) = Some (n, bs)"
    and variant_back: "get_variant F (put_variant F t @ bs) = Some (t, bs)"
    and bytes_as_seq: "put_bytes F cs = put_len F (length cs) @ concat (map (put_u8 F) cs)"

text \<open>\<open>reads m bs x\<close>: wherever the input starts with \<open>bs\<close>, the reader takes it and returns \<open>x\<close>.\<close>

definition reads :: "'a reader \<Rightarrow> u8 list \<Rightarrow> 'a \<Rightarrow> bool" where
  "reads m bs x \<longleftrightarrow> (\<forall>hp rest. m (hp, bs @ rest) = Some (Inr x, (hp, rest)))"

lemma reads_ret: "reads (ret x) [] x"
  by (simp add: reads_def ret_def)

lemma reads_bind: "reads m bs x \<Longrightarrow> reads (f x) cs y \<Longrightarrow> reads (bindE m f) (bs @ cs) y"
  by (simp add: reads_def bindE_def)

lemma reads_last: "reads m bs x \<Longrightarrow> reads (bindE m (\<lambda>x. ret (f x))) bs (f x)"
  by (simp add: reads_def bindE_def ret_def)

lemma reads_repeat:
  "\<forall>x \<in> set xs. reads m (f x) x \<Longrightarrow> reads (repeat_cmd (length xs) m) (concat (map f xs)) xs"
proof (induction xs)
  case Nil
  then show ?case by (simp add: reads_ret)
next
  case (Cons x xs)
  then show ?case
    by (simp add: reads_bind [of m "f x" x] reads_last)
qed

context binary_format
begin

lemma reads_u8: "reads (read_with (get_u8 F)) (put_u8 F b) b"
  by (simp add: reads_def read_with_def u8_back)

lemma reads_u32: "reads (read_with (get_u32 F)) (put_u32 F x) x"
  by (simp add: reads_def read_with_def u32_back)

lemma reads_u64: "reads (read_with (get_u64 F)) (put_u64 F y) y"
  by (simp add: reads_def read_with_def u64_back)

lemma reads_len: "n < 2 ^ 64 \<Longrightarrow> reads (read_with (get_len F)) (put_len F n) n"
  by (simp add: reads_def read_with_def len_back)

lemma reads_variant: "reads (read_with (get_variant F)) (put_variant F t) t"
  by (simp add: reads_def read_with_def variant_back)

lemma reads_seq:
  "length xs < 2 ^ 64 \<Longrightarrow> \<forall>x \<in> set xs. reads m (f x) x \<Longrightarrow> reads (de_seq F m) (ser_seq F f xs) xs"
  unfolding de_seq_def ser_seq_def by (rule reads_bind [where x = "length xs"]) (auto intro: reads_len reads_repeat)

lemma reads_bytes: "length bs < 2 ^ 64 \<Longrightarrow> reads (de_seq F (read_with (get_u8 F))) (ser_seq F (put_u8 F) bs) bs"
  by (rule reads_seq) (simp_all add: reads_u8)

lemma reads_register: "reads (de_register F) (ser_register F r) r"
proof -
  have "reads (repeat_cmd (length (le_bytes 16 r)) (read_with (get_u8 F)))
      (concat (map (put_u8 F) (le_bytes 16 r))) (le_bytes 16 r)"
    by (rule reads_repeat) (simp add: reads_u8)
  from reads_last [OF this, of "of_le_bytes :: u8 list \<Rightarrow> reg_value"] show ?thesis
    by (simp add: de_register_def ser_register_def)
qed

lemma reads_registers: "length rs < 2 ^ 64 \<Longrightarrow> reads (de_registers F) (ser_registers F rs) rs"
  unfolding de_registers_def ser_registers_def by (rule reads_seq) (simp_all add: reads_register)

end

text \<open>The lengths in an event fit the format's 64-bit lengths, as every Rust \<open>Vec\<close>'s does.\<close>

definition event_fits :: "EventType \<Rightarrow> bool" where
  "event_fits ev \<longleftrightarrow> (case ev of
      Syscall _ writes \<Rightarrow> length writes < 2 ^ 64 \<and> (\<forall>w \<in> set writes. length (snd w) < 2 ^ 64)
    | _ \<Rightarrow> True)"

context binary_format
begin

lemma reads_write:
  "length (snd w) < 2 ^ 64 \<Longrightarrow>
     reads (de_write F) (put_u64 F (fst w) @ ser_seq F (put_u8 F) (snd w)) w"
  unfolding de_write_def
  by (cases w) (auto intro!: reads_bind [OF reads_u64] reads_last reads_bytes)

lemma reads_EventType: "event_fits ev \<Longrightarrow> reads (de_EventType F) (ser_EventType F ev) ev"
  unfolding de_EventType_def ser_EventType_def event_fits_def
  by (cases ev)
    (auto intro!: reads_bind [OF reads_variant] reads_bind [OF reads_u64] reads_bind [OF reads_u32]
      reads_last reads_u64 reads_u32 reads_seq reads_write simp: case_prod_unfold, fastforce)

lemma reads_TraceEvent: "event_fits (event e) \<Longrightarrow> reads (de_TraceEvent F) (ser_TraceEvent F e) e"
  unfolding de_TraceEvent_def ser_TraceEvent_def
  by (cases e) (auto intro!: reads_bind [OF reads_u64] reads_last reads_EventType)

lemma reads_trace:
  "length es < 2 ^ 64 \<Longrightarrow> \<forall>e \<in> set es. event_fits (event e) \<Longrightarrow>
     reads (de_seq F (de_TraceEvent F)) (ser_seq F (ser_TraceEvent F) es) es"
  by (rule reads_seq) (simp_all add: reads_TraceEvent)

end

section \<open>Reading a snapshot back\<close>

lemma copy_from_slice_fresh:
  assumes "heap_inv hp" and "bs \<noteq> []" and "length bs \<le> 2 ^ 63 - 4096" and "length bs \<le> h_avail hp"
  defines "sz \<equiv> of_nat (length bs) :: usize"
  defines "buf \<equiv> \<lparr>am_ptr = h_next hp, am_size = sz, am_layout = \<lparr>l_size = sz, l_align = 4096\<rparr>\<rparr>"
  shows "\<exists>hp'. bindE (AlignedMemory_new sz) (\<lambda>mem.
        thenE (copy_from_slice bs (am_ptr mem) 0 (length bs)) (ret mem)) hp = Some (Inr buf, hp')
    \<and> heap_inv hp' \<and> h_next hp' = Suc (h_next hp) \<and> h_avail hp' = h_avail hp - length bs
    \<and> h_blocks hp' = (h_blocks hp)(h_next hp \<mapsto> \<lparr>b_layout = am_layout buf, b_bytes = bs\<rparr>)"
proof -
  have sz: "unat sz = length bs" "sz \<noteq> 0"
    using assms(2,3) by (simp_all add: sz_def unat_of_nat flip: unat_gt_0)
  obtain hp1 where new: "AlignedMemory_new sz hp = Some (Inr buf, hp1)" and inv1: "heap_inv hp1"
    and nx: "h_next hp1 = Suc (h_next hp)" "h_avail hp1 = h_avail hp - length bs"
    and bl: "h_blocks hp1 = (h_blocks hp)(h_next hp \<mapsto>
        \<lparr>b_layout = \<lparr>l_size = sz, l_align = 4096\<rparr>, b_bytes = replicate (length bs) 0\<rparr>)"
    using AlignedMemory_new_ok [OF assms(1) sz(2)] assms(3,4) sz(1) by (auto simp: buf_def)
  let ?hp2 = "hp1\<lparr>h_blocks := (h_blocks hp1)(h_next hp \<mapsto> \<lparr>b_layout = am_layout buf, b_bytes = bs\<rparr>)\<rparr>"
  have "h_next hp \<noteq> 0" using assms(1) by (simp add: heap_inv_def)
  have wr: "copy_from_slice bs (am_ptr buf) 0 (length bs) hp1 = Some (Inr (), ?hp2)"
    using bl \<open>h_next hp \<noteq> 0\<close>
    by (simp add: copy_from_slice_def heap_write_def access_fault_def buf_def)
  have "heap_inv ?hp2"
    using inv1 sz(1) \<open>h_next hp \<noteq> 0\<close> by (auto simp: heap_inv_def buf_def nx)
  then show ?thesis
    using new wr nx bl by (intro exI [of _ ?hp2]) (simp add: bindE_step thenE_step ret_def)
qed

context binary_format
begin

lemma de_AlignedMemory_ok:
  assumes "heap_inv hp" and "bs \<noteq> []" and "length bs \<le> 2 ^ 63 - 4096" and "length bs \<le> h_avail hp"
  defines "sz \<equiv> of_nat (length bs) :: usize"
  defines "buf \<equiv> \<lparr>am_ptr = h_next hp, am_size = sz, am_layout = \<lparr>l_size = sz, l_align = 4096\<rparr>\<rparr>"
  shows "\<exists>hp'. de_AlignedMemory F (hp, put_bytes F bs @ rest) = Some (Inr buf, (hp', rest))
    \<and> heap_inv hp' \<and> h_next hp' = Suc (h_next hp) \<and> h_avail hp' = h_avail hp - length bs
    \<and> h_blocks hp' = (h_blocks hp)(h_next hp \<mapsto> \<lparr>b_layout = am_layout buf, b_bytes = bs\<rparr>)"
proof -
  have "de_seq F (read_with (get_u8 F)) (hp, put_bytes F bs @ rest) = Some (Inr bs, (hp, rest))"
    using reads_bytes [of bs] assms(3) by (simp add: reads_def ser_seq_def bytes_as_seq)
  then have "de_AlignedMemory F (hp, put_bytes F bs @ rest) =
      on_fst (bindE (AlignedMemory_new sz) (\<lambda>mem.
        thenE (copy_from_slice bs (am_ptr mem) 0 (length bs)) (ret mem))) (hp, rest)"
    by (simp add: de_AlignedMemory_def bindE_step on_fst_bindE on_fst_thenE sz_def)
  then show ?thesis
    using copy_from_slice_fresh [OF assms(1-4)] by (auto simp: sz_def buf_def)
qed

lemma de_entries_ok:
  assumes "heap_inv hp" and "snap_inv hp \<lparr>memory_regions = acc, registers = []\<rparr>" and "distinct ks"
    and "\<forall>k \<in> set ks. hm_get acc k = None \<and> item k \<noteq> [] \<and> length (item k) \<le> 2 ^ 63 - 4096"
    and "sum_list (map (\<lambda>k. length (item k)) ks) \<le> h_avail hp"
  shows "\<exists>hp' acc'. de_entries F (length ks) acc
      (hp, concat (map (\<lambda>k. put_u64 F k @ put_bytes F (item k)) ks) @ rest) = Some (Inr acc', (hp', rest))
    \<and> heap_inv hp' \<and> snap_inv hp' \<lparr>memory_regions = acc', registers = []\<rparr>
    \<and> region_bytes hp' \<lparr>memory_regions = acc', registers = []\<rparr> =
        (\<lambda>g. if g \<in> set ks then Some (item g) else region_bytes hp \<lparr>memory_regions = acc, registers = []\<rparr> g)
    \<and> (\<forall>q. heap_content hp q \<noteq> None \<longrightarrow> h_blocks hp' q = h_blocks hp q)"
  using assms
proof (induction ks arbitrary: hp acc)
  case Nil
  then show ?case by (simp add: ret_def)
next
  case (Cons k ks)
  let ?S = "\<lambda>acc. \<lparr>memory_regions = acc, registers = []\<rparr>"
  let ?sz = "of_nat (length (item k)) :: usize" and ?rest = "concat (map (\<lambda>k. put_u64 F k @ put_bytes F (item k)) ks) @ rest"
  define lay where "lay = \<lparr>l_size = ?sz, l_align = 4096 :: usize\<rparr>"
  define buf where "buf = \<lparr>am_ptr = h_next hp, am_size = ?sz, am_layout = lay\<rparr>"
  obtain hp1 where d: "de_AlignedMemory F (hp, put_bytes F (item k) @ ?rest) = Some (Inr buf, (hp1, ?rest))"
    and inv1: "heap_inv hp1" and av: "h_avail hp1 = h_avail hp - length (item k)"
    and bl: "h_blocks hp1 = (h_blocks hp)(h_next hp \<mapsto> \<lparr>b_layout = lay, b_bytes = item k\<rparr>)"
    using de_AlignedMemory_ok [OF Cons.prems(1), of "item k" ?rest] Cons.prems(4,5)
    by (auto simp: buf_def lay_def)
  let ?acc = "hm_insert k buf acc"
  note ins = snap_insert_fresh(1,2) [OF Cons.prems(1,2) bl lay_def buf_def, of k, simplified]
    snap_insert_fresh(3) [OF Cons.prems(1,2) bl lay_def buf_def]
  have fr: "\<forall>k' \<in> set ks. hm_get ?acc k' = None \<and> item k' \<noteq> [] \<and> length (item k') \<le> 2 ^ 63 - 4096"
    using Cons.prems(3,4) by (simp add: hm.get_insert) metis
  have rm: "sum_list (map (\<lambda>k. length (item k)) ks) \<le> h_avail hp1"
    using Cons.prems(5) av by simp
  obtain hp2 acc2 where IH: "de_entries F (length ks) ?acc (hp1, ?rest) = Some (Inr acc2, (hp2, rest))"
    "heap_inv hp2" "snap_inv hp2 (?S acc2)"
    "region_bytes hp2 (?S acc2) = (\<lambda>g. if g \<in> set ks then Some (item g) else region_bytes hp1 (?S ?acc) g)"
    "\<forall>q. heap_content hp1 q \<noteq> None \<longrightarrow> h_blocks hp2 q = h_blocks hp1 q"
    using Cons.IH [OF inv1 ins(1) _ fr rm] Cons.prems(3) by (simp del: not_None_eq) blast
  have "de_entries F (length (k # ks)) acc (hp, put_u64 F k @ put_bytes F (item k) @ ?rest) = Some (Inr acc2, (hp2, rest))"
    using d IH(1) Cons.prems(4) u64_back [of k]
    by (simp add: bindE_def read_with_def thenE_def ret_def)
  moreover have "h_blocks hp2 q = h_blocks hp q" if "heap_content hp q \<noteq> None" for q
    using IH(5) ins(3) [of q] that by (auto simp: heap_content_def)
  moreover have "region_bytes hp2 (?S acc2) =
      (\<lambda>g. if g \<in> set (k # ks) then Some (item g) else region_bytes hp (?S acc) g)"
    using IH(4) ins(2) Cons.prems(3) by (auto simp: fun_eq_iff)
  ultimately show ?case
    using IH(2,3) by (intro exI [of _ hp2] exI [of _ acc2]) simp
qed

end

section \<open>The round trip\<close>

lemma ser_entries_bytes:
  assumes inv: "heap_inv hp" and snap: "snap_inv hp s" and "set ks \<subseteq> set (hm_keys (memory_regions s))"
  shows "ser_entries F (memory_regions s) ks hp =
    Some (Inr (concat (map (\<lambda>k. put_u64 F k @ put_bytes F (the (region_bytes hp s k))) ks)), hp)"
  using assms(3)
proof (induction ks)
  case Nil
  then show ?case by (simp add: ret_def)
next
  case (Cons k ks)
  obtain m where m: "hm_get (memory_regions s) k = Some m"
    using Cons.prems by (auto simp: hm.set_keys)
  then have "am_inv hp m" using snap by (auto simp: snap_inv_def)
  then have "ser_AlignedMemory F m hp = Some (Inr (put_bytes F (the (region_bytes hp s k))), hp)"
    using AlignedMemory_slice_ok [OF inv] m by (simp add: ser_AlignedMemory_def region_bytes_def cmd_simps)
  then show ?case
    using Cons m by (simp add: cmd_simps)
qed

definition snap_total :: "heap \<Rightarrow> Snapshot \<Rightarrow> nat" where
  "snap_total hp s = sum_list (map (\<lambda>k. length (the (region_bytes hp s k))) (hm_keys (memory_regions s)))"

text \<open>The sizes in an archive: no empty region, and every length fits.\<close>

definition archive_fits :: "heap \<Rightarrow> Snapshot \<Rightarrow> TraceEvent list \<Rightarrow> bool" where
  "archive_fits hp s es \<longleftrightarrow>
     (\<forall>k bs. region_bytes hp s k = Some bs \<longrightarrow> bs \<noteq> [] \<and> length bs \<le> 2 ^ 63 - 4096)
     \<and> length (memory_regions s) < 2 ^ 64 \<and> length (registers s) < 2 ^ 64
     \<and> length es < 2 ^ 64 \<and> (\<forall>e \<in> set es. event_fits (event e))"

lemma ser_archive_ok:
  assumes "heap_inv hp" and "snap_inv hp s" and "iterates_all P"
  shows "ser_archive P F s es h hp = Some (Inr (put_len F (length (memory_regions s))
     @ concat (map (\<lambda>k. put_u64 F k @ put_bytes F (the (region_bytes hp s k)))
         (hash_order P (hm_keys (memory_regions s))))
     @ ser_registers F (registers s) @ ser_seq F (ser_TraceEvent F) es @ put_u64 F h), hp)"
proof -
  have "set (hash_order P (hm_keys (memory_regions s))) \<subseteq> set (hm_keys (memory_regions s))"
    using assms(2,3) hm.distinct_keys [of "memory_regions s"] by (auto simp: iterates_all_def snap_inv_def)
  then show ?thesis
    using ser_entries_bytes [OF assms(1,2)] by (simp add: ser_archive_def ser_Snapshot_def cmd_simps)
qed

context binary_format
begin

lemma de_archive_ser:
  assumes inv: "heap_inv hp" and snap: "snap_inv hp s" and ord: "iterates_all P"
    and fits: "archive_fits hp s es" and ser: "ser_archive P F s es h hp = Some (Inr bytes, hp')"
    and inv2: "heap_inv hp2" and room: "snap_total hp s \<le> h_avail hp2"
  shows "\<exists>s2 hp3. de_archive F (bytes @ extra) hp2 = Some (Inr (s2, es, h), hp3)
    \<and> heap_inv hp3 \<and> snap_inv hp3 s2 \<and> region_bytes hp3 s2 = region_bytes hp s
    \<and> registers s2 = registers s \<and> (\<forall>q. heap_content hp2 q \<noteq> None \<longrightarrow> h_blocks hp3 q = h_blocks hp2 q)"
proof -
  let ?item = "\<lambda>k. the (region_bytes hp s k)" and ?keys = "hm_keys (memory_regions s)"
  let ?ks = "hash_order P ?keys"
  let ?tail = "ser_seq F (ser_TraceEvent F) es @ put_u64 F h @ extra"
  have dk: "distinct ?keys" using snap hm.distinct_keys [of "memory_regions s"] by (simp add: snap_inv_def)
  then have ks: "distinct ?ks" "set ?ks = set ?keys" "length ?ks = length (memory_regions s)"
    using ord iterates_all_length [OF ord dk] by (auto simp: iterates_all_def hm_keys_def)
  have dom: "set ?keys = dom (region_bytes hp s)"
    using region_bytes_dom [OF snap] by (simp add: hm.set_keys)
  have emp: "snap_inv hp2 \<lparr>memory_regions = [], registers = []\<rparr>"
    "region_bytes hp2 \<lparr>memory_regions = [], registers = []\<rparr> = (\<lambda>_. None)"
    by (auto simp: snap_inv_def hm.invar_empty hm.get_empty region_bytes_def)
  have items: "\<forall>k \<in> set ?ks. hm_get [] k = None \<and> ?item k \<noteq> [] \<and> length (?item k) \<le> 2 ^ 63 - 4096"
    using fits ks(2) dom by (auto simp: archive_fits_def hm.get_empty)
  have total: "sum_list (map (\<lambda>k. length (?item k)) ?ks) \<le> h_avail hp2"
    using room iterates_all_sum [OF ord dk, of "\<lambda>k. length (?item k)"] by (simp add: snap_total_def)
  obtain hp3 regions where d: "de_entries F (length ?ks) []
      (hp2, concat (map (\<lambda>k. put_u64 F k @ put_bytes F (?item k)) ?ks) @ ser_registers F (registers s) @ ?tail)
        = Some (Inr regions, (hp3, ser_registers F (registers s) @ ?tail))"
    "heap_inv hp3" "snap_inv hp3 \<lparr>memory_regions = regions, registers = []\<rparr>"
    "region_bytes hp3 \<lparr>memory_regions = regions, registers = []\<rparr> =
      (\<lambda>g. if g \<in> set ?ks then Some (?item g) else None)"
    "\<forall>q. heap_content hp2 q \<noteq> None \<longrightarrow> h_blocks hp3 q = h_blocks hp2 q"
    using de_entries_ok [OF inv2 emp(1) ks(1) items total] unfolding emp(2) by blast
  let ?s2 = "\<lparr>memory_regions = regions, registers = registers s\<rparr>"
  have rb: "region_bytes hp3 ?s2 = region_bytes hp s"
    using d(4) ks(2) dom by (auto simp: fun_eq_iff region_bytes_def split: option.splits)
  have len: "read_with (get_len F) (hp2, put_len F (length ?ks) @ bs) = Some (Inr (length ?ks), (hp2, bs))" for bs
    using reads_len [of "length ?ks"] fits ks(3) by (simp add: reads_def archive_fits_def)
  have regs: "de_registers F (hp3, ser_registers F (registers s) @ bs) = Some (Inr (registers s), (hp3, bs))" for bs
    using reads_registers [of "registers s"] fits by (simp add: reads_def archive_fits_def)
  have evs: "de_seq F (de_TraceEvent F) (hp3, ser_seq F (ser_TraceEvent F) es @ bs) = Some (Inr es, (hp3, bs))" for bs
    using reads_trace [of es] fits by (simp add: reads_def archive_fits_def)
  have "de_archive F (bytes @ extra) hp2 = Some (Inr (?s2, es, h), hp3)"
    using ser len d(1) regs evs u64_back
    unfolding de_archive_def de_Snapshot_def ser_archive_ok [OF inv snap ord] ks(3) [symmetric]
    by (auto simp: bindE_def ret_def read_with_def [of "get_u64 F"])
  moreover have "snap_inv hp3 ?s2"
    using d(3) by (simp add: snap_inv_def)
  ultimately show ?thesis
    using d(2,5) rb by (intro exI [of _ ?s2] exI [of _ hp3]) simp
qed

end

section \<open>A reference format\<close>

text \<open>
  Little-endian integers of fixed width, lengths as 64-bit and variant tags as 32-bit integers,
  as \<open>bincode\<close>'s default configuration writes them.
\<close>

definition take_word :: "nat \<Rightarrow> u8 list \<Rightarrow> ('a::len word \<times> u8 list) option" where
  "take_word n bs = (if length bs < n then None else Some (of_le_bytes (take n bs), drop n bs))"

definition bincode_ref :: serde_format where
  "bincode_ref =
    \<lparr>put_u8 = (\<lambda>b. [b]), put_u32 = le_bytes 4, put_u64 = le_bytes 8,
     put_len = (\<lambda>n. le_bytes 8 (of_nat n :: u64)),
     put_bytes = (\<lambda>bs. le_bytes 8 (of_nat (length bs) :: u64) @ bs),
     put_variant = le_bytes 4,
     get_u8 = (\<lambda>bs. case bs of [] \<Rightarrow> None | b # bs \<Rightarrow> Some (b, bs)),
     get_u32 = take_word 4, get_u64 = take_word 8,
     get_len = (\<lambda>bs. map_option (apfst unat) (take_word 8 bs :: (u64 \<times> u8 list) option)),
     get_variant = take_word 4\<rparr>"

interpretation bincode_ref: binary_format bincode_ref
  by unfold_locales
    (simp_all add: bincode_ref_def take_word_def unat_of_nat take_bit_eq_mod)

section \<open>Properties\<close>

definition sample_event :: TraceEvent where
  "sample_event = \<lparr>instruction_count = 15420, event = Syscall 0x100 [(0x5000, [0xDE, 0xAD, 0xBE, 0xEF])]\<rparr>"



end
