(* ===== verification/Record_Engine.thy ===== *)
theory Record_Engine
  imports Trace_Format Vmm_Vcpu
begin

text \<open>
  \<open>crates/engine/src/runner.rs\<close> and the second half of \<open>crates/engine/src/record.rs\<close>: the loop
  that runs the guest, answers the intercepted instructions with fixed values and logs an event
  for each of them. The loop ends only when the guest stops for another reason, so it is a
  partial function: \<open>None\<close> is a run that never ends.
\<close>

section \<open>VmRunner\<close>

record VmRunner =
  rn_partition :: VmPartition
  rn_vcpu :: Vcpu

definition VmRunner_new :: "VmPartition \<Rightarrow> Vcpu \<Rightarrow> VmRunner" where
  "VmRunner_new p v = \<lparr>rn_partition = p, rn_vcpu = v\<rparr>"

definition VmRunner_run :: "'h platform \<Rightarrow> VmRunner \<Rightarrow> ('h world, exit_context) cmd" where
  "VmRunner_run P r =
     call_run (WHvRunVirtualProcessor P (as_raw (rn_partition r)) (Vcpu_index (rn_vcpu r)))"

section \<open>RecordEngine\<close>

record RecordEngine =
  re_vcpu :: Vcpu
  re_logger :: TraceLogger
  re_runner :: VmRunner

definition RecordEngine_new :: "VmPartition \<Rightarrow> Vcpu \<Rightarrow> RecordEngine" where
  "RecordEngine_new p v =
     \<lparr>re_vcpu = v, re_logger = TraceLogger_new, re_runner = VmRunner_new p v\<rparr>"

text \<open>
  The methods of the engine run on the world and on the engine itself, whose log they extend;
  a \<open>?\<close> that leaves a method early keeps what was logged before.
\<close>

definition record_log :: "TraceEvent \<Rightarrow> ('w \<times> RecordEngine, unit) cmd" where
  "record_log ev = modify (\<lambda>(w, eng). (w, eng\<lparr>re_logger := log_event ev (re_logger eng)\<rparr>))"

text \<open>Assignment to the field \<open>Reg64\<close> of a register value keeps the other half of the union.\<close>

definition set_Reg64 :: "u64 \<Rightarrow> reg_value \<Rightarrow> reg_value" where
  "set_Reg64 x v = push_bit 64 (drop_bit 64 v) OR ucast x"

definition record_advance_rip :: "'h platform \<Rightarrow> Vcpu \<Rightarrow> u8 \<Rightarrow> ('h world, unit) cmd" where
  "record_advance_rip P v instruction_length =
     bindE (get_registers P v [Rip] [0]) (\<lambda>values.
     bindE (add_u64 (overflow_checks P) (Reg64 (values ! 0)) (ucast instruction_length)) (\<lambda>rip.
     set_registers P v [Rip] [set_Reg64 rip (values ! 0)]))"

text \<open>The four bits of the exit context that hold the length of the intercepted instruction.\<close>

definition exit_instruction_length :: "exit_context \<Rightarrow> u8" where
  "exit_instruction_length ctx = vp_bitfield ctx AND 0x0F"

definition sim_cpuid :: EventType where
  "sim_cpuid = Cpuid 0xAAAAAAAA 0xBBBBBBBB 0xCCCCCCCC 0xDDDDDDDD"

definition sim_rdtsc :: EventType where
  "sim_rdtsc = Rdtsc 0x1000 0x0"

definition record_on_cpuid ::
    "'h platform \<Rightarrow> Vcpu \<Rightarrow> u64 \<Rightarrow> exit_context \<Rightarrow> ('h world \<times> RecordEngine, u64 option) cmd" where
  "record_on_cpuid P v cnt ctx =
     thenE (on_fst (set_registers P v [Rax, Rbx, Rcx, Rdx]
              [mk_Reg64 (ucast (0xAAAAAAAA :: u32)), mk_Reg64 (ucast (0xBBBBBBBB :: u32)),
               mk_Reg64 (ucast (0xCCCCCCCC :: u32)), mk_Reg64 (ucast (0xDDDDDDDD :: u32))]))
    (thenE (record_log \<lparr>instruction_count = cnt, event = sim_cpuid\<rparr>)
    (bindE (add_u64 (overflow_checks P) cnt 1) (\<lambda>cnt'.
     thenE (on_fst (record_advance_rip P v (exit_instruction_length ctx)))
    (ret (Some cnt')))))"

definition record_on_rdtsc ::
    "'h platform \<Rightarrow> Vcpu \<Rightarrow> u64 \<Rightarrow> exit_context \<Rightarrow> ('h world \<times> RecordEngine, u64 option) cmd" where
  "record_on_rdtsc P v cnt ctx =
     thenE (on_fst (set_registers P v [Rax, Rdx] [mk_Reg64 0x1000, mk_Reg64 0x0]))
    (thenE (record_log \<lparr>instruction_count = cnt, event = sim_rdtsc\<rparr>)
    (bindE (add_u64 (overflow_checks P) cnt 1) (\<lambda>cnt'.
     thenE (on_fst (record_advance_rip P v (exit_instruction_length ctx)))
    (ret (Some cnt')))))"

definition record_on_vmcall ::
    "'h platform \<Rightarrow> Vcpu \<Rightarrow> u64 \<Rightarrow> ('h world \<times> RecordEngine, u64 option) cmd" where
  "record_on_vmcall P v cnt =
     bindE (on_fst (get_registers P v [Rcx] [0])) (\<lambda>values.
     thenE (record_log \<lparr>instruction_count = cnt, event = ContextSwitch (ucast (Reg64 (values ! 0)))\<rparr>)
    (bindE (add_u64 (overflow_checks P) cnt 1) (\<lambda>cnt'.
     thenE (on_fst (record_advance_rip P v 3))
    (ret (Some cnt')))))"

text \<open>
  One iteration of the loop of \<open>RecordEngine::run\<close>. \<open>None\<close> is \<open>break\<close>, \<open>Some cnt\<close> continues
  with the instruction count \<open>cnt\<close>.
\<close>

definition record_step :: "'h platform \<Rightarrow> u64 \<Rightarrow> ('h world \<times> RecordEngine, u64 option) cmd" where
  "record_step P cnt s =
    (let v = re_vcpu (snd s) in
     bindE (on_fst (VmRunner_run P (re_runner (snd s)))) (\<lambda>ctx.
     if ExitReason ctx = 1 then
       thenE (on_fst (println (RecordEptViolation (mem_Gpa ctx)))) (ret None)
     else if ExitReason ctx = 8 then
       bindE (on_fst (get_registers P v [Rax] [0])) (\<lambda>values.
       thenE (on_fst (println (GuestHaltedRecord (Reg64 (values ! 0))))) (ret None))
     else if ExitReason ctx = 4097 then record_on_cpuid P v cnt ctx
     else if ExitReason ctx = 4099 then record_on_rdtsc P v cnt ctx
     else if ExitReason ctx = 4 then record_on_vmcall P v cnt
     else thenE (on_fst (println (UnhandledExitRecord (ExitReason ctx)))) (ret None)) s)"

partial_function (option) record_loop ::
    "'h platform \<Rightarrow> u64 \<Rightarrow> 'h world \<times> RecordEngine
      \<Rightarrow> ((failure + unit) \<times> 'h world \<times> RecordEngine) option" where
  "record_loop P cnt s = (case record_step P cnt s of
      None \<Rightarrow> None
    | Some (Inl e, t) \<Rightarrow> Some (Inl e, t)
    | Some (Inr None, t) \<Rightarrow> Some (Inr (), t)
    | Some (Inr (Some cnt'), t) \<Rightarrow> record_loop P cnt' t)"

definition RecordEngine_run :: "'h platform \<Rightarrow> ('h world \<times> RecordEngine, unit) cmd" where
  "RecordEngine_run P = record_loop P 0"

definition RecordEngine_finalize :: "RecordEngine \<Rightarrow> TraceEvent list" where
  "RecordEngine_finalize eng = events (re_logger eng)"

lemma Reg64_set_Reg64 [simp]: "Reg64 (set_Reg64 x v) = x"
  by (rule bit_word_eqI) (auto simp: Reg64_def set_Reg64_def bit_ucast_iff bit_or_iff bit_push_bit_iff)

lemma exit_instruction_length_bound: "unat (exit_instruction_length ctx) \<le> 15"
proof -
  have "unat (vp_bitfield ctx AND 15) \<le> unat (15 :: u8)"
    by (rule word_and_le1 [THEN word_le_nat_alt [THEN iffD1]])
  then show ?thesis by (simp add: exit_instruction_length_def)
qed

lemma record_log_run [simp]:
  "record_log ev (w, eng) = Some (Inr (), (w, eng\<lparr>re_logger := log_event ev (re_logger eng)\<rparr>))"
  by (simp add: record_log_def modify_def)

end
