(* ===== verification/Replay_Engine.thy ===== *)
theory Replay_Engine
  imports Record_Engine Snapshot_State
begin

text \<open>
  \<open>crates/engine/src/replay.rs\<close>: restoring a snapshot into a fresh partition and replaying a
  recorded trace event by event. \<open>replay_event\<close> loops until an exit matches the event (or ends
  the replay), so it is a partial function too.
\<close>

record ReplayEngine =
  rp_partition :: VmPartition
  rp_vcpus :: "(u32, Vcpu) hmap"
  active_vcpu_id :: u32

definition ReplayEngine_new :: "VmPartition \<Rightarrow> u32 \<Rightarrow> ReplayEngine" where
  "ReplayEngine_new p initial_vcpu_id =
     \<lparr>rp_partition = p, rp_vcpus = [], active_vcpu_id = initial_vcpu_id\<rparr>"

definition register_vcpu :: "u32 \<Rightarrow> Vcpu \<Rightarrow> ReplayEngine \<Rightarrow> ReplayEngine" where
  "register_vcpu i v r = r\<lparr>rp_vcpus := hm_insert i v (rp_vcpus r)\<rparr>"

definition active_vcpu :: "ReplayEngine \<Rightarrow> ('w, Vcpu) cmd" where
  "active_vcpu r = expect_some ''Active vCPU not found'' (hm_get (rp_vcpus r) (active_vcpu_id r))"

definition restore_snapshot ::
    "'h platform \<Rightarrow> ReplayEngine \<Rightarrow> Snapshot \<Rightarrow> reg_name list \<Rightarrow> ('h world, unit) cmd" where
  "restore_snapshot P r snap register_names =
    (let ept = EptManager_new (as_raw (rp_partition r)) in
     thenE (for_each (hash_order P (hm_keys (memory_regions snap))) (\<lambda>gpa.
              case hm_get (memory_regions snap) gpa of
                None \<Rightarrow> ret ()
              | Some data \<Rightarrow> map_gpa_range P ept gpa (am_ptr data) (am_size data) 0x7))
     (if registers snap \<noteq> [] then
        bindE (active_vcpu r) (\<lambda>v. set_registers P v register_names (registers snap))
      else ret ()))"

text \<open>\<open>write_guest_memory\<close> is a stub in the source (\<open>TODO\<close>): it reports success and does nothing.\<close>

definition write_guest_memory :: "ReplayEngine \<Rightarrow> u64 \<Rightarrow> u8 list \<Rightarrow> ('h world, unit) cmd" where
  "write_guest_memory r gpa data = ret ()"

definition inject_event ::
    "'h platform \<Rightarrow> ReplayEngine \<Rightarrow> TraceEvent \<Rightarrow> ('h world, unit) cmd" where
  "inject_event P r ev =
     bindE (active_vcpu r) (\<lambda>v.
       case event ev of
         Syscall rax writes \<Rightarrow>
           thenE (set_registers P v [Rax] [mk_Reg64 rax])
             (for_each writes (\<lambda>(gpa, data). write_guest_memory r gpa data))
       | Rdtsc rax rdx \<Rightarrow> set_registers P v [Rax, Rdx] [mk_Reg64 rax, mk_Reg64 rdx]
       | Cpuid eax ebx ecx edx \<Rightarrow>
           set_registers P v [Rax, Rbx, Rcx, Rdx]
             [mk_Reg64 (ucast eax), mk_Reg64 (ucast ebx), mk_Reg64 (ucast ecx), mk_Reg64 (ucast edx)]
       | ContextSwitch _ \<Rightarrow> ret ())"

definition replay_advance_rip :: "'h platform \<Rightarrow> ReplayEngine \<Rightarrow> u8 \<Rightarrow> ('h world, unit) cmd" where
  "replay_advance_rip P r instruction_length =
     bindE (active_vcpu r) (\<lambda>v.
     bindE (get_registers P v [Rip] [0]) (\<lambda>values.
     bindE (add_u64 (overflow_checks P) (Reg64 (values ! 0)) (ucast instruction_length)) (\<lambda>rip.
     bindE (active_vcpu r) (\<lambda>v'.
     set_registers P v' [Rip] [set_Reg64 rip (values ! 0)]))))"

text \<open>
  One iteration of the loop of \<open>replay_event\<close>: \<open>True\<close> is \<open>break\<close>, \<open>False\<close> runs the guest again
  for the same event. A CPUID or RDTSC exit that does not match the event falls through without
  moving the instruction pointer.
\<close>

definition replay_step ::
    "'h platform \<Rightarrow> ReplayEngine \<Rightarrow> TraceEvent \<Rightarrow> ('h world, bool) cmd" where
  "replay_step P r ev =
     bindE (active_vcpu r) (\<lambda>v.
     bindE (VmRunner_run P (VmRunner_new (rp_partition r) v)) (\<lambda>ctx.
     if ExitReason ctx = 1 \<or> ExitReason ctx = 8 then
       bindE (active_vcpu r) (\<lambda>v.
       bindE (get_registers P v [Rax] [0]) (\<lambda>values.
       thenE (println (GuestHaltedReplay (Reg64 (values ! 0)))) (ret True)))
     else if ExitReason ctx = 4097 then
       (if is_Cpuid (event ev) then
          thenE (inject_event P r ev)
         (thenE (replay_advance_rip P r (exit_instruction_length ctx)) (ret True))
        else ret False)
     else if ExitReason ctx = 4099 then
       (if is_Rdtsc (event ev) then
          thenE (inject_event P r ev)
         (thenE (replay_advance_rip P r (exit_instruction_length ctx)) (ret True))
        else ret False)
     else if ExitReason ctx = 4 then
       (case event ev of
          ContextSwitch expected \<Rightarrow>
            bindE (active_vcpu r) (\<lambda>v.
            bindE (get_registers P v [Rcx] [0]) (\<lambda>values.
            let current = ucast (Reg64 (values ! 0)) in
            if current = expected then
              thenE (inject_event P r ev) (thenE (replay_advance_rip P r 3) (ret True))
            else thenE (println (MismatchThread expected current)) (ret True)))
        | _ \<Rightarrow> thenE (println MismatchVmcall) (ret True))
     else thenE (println (UnhandledExitReplay (ExitReason ctx))) (ret True)))"

partial_function (option) replay_event ::
    "'h platform \<Rightarrow> ReplayEngine \<Rightarrow> TraceEvent \<Rightarrow> 'h world
      \<Rightarrow> ((failure + unit) \<times> 'h world) option" where
  "replay_event P r ev w = (case replay_step P r ev w of
      None \<Rightarrow> None
    | Some (Inl e, w') \<Rightarrow> Some (Inl e, w')
    | Some (Inr b, w') \<Rightarrow> if b then Some (Inr (), w') else replay_event P r ev w')"

end
