(* ===== verification/Cli.thy ===== *)
theory Cli
  imports Pe_Loader Vmm_Paging Serde_Archive Replay_Engine
begin

text \<open>
  \<open>crates/cli/src/main.rs\<close>: the commands \<open>record\<close> and \<open>replay\<close>. Parsing the command line is the
  \<open>clap\<close> crate; \<open>main\<close> is modelled from the parsed command on. The arguments of the model are the
  platform, the PE parser (\<open>goblin\<close>) and the serialisation format (\<open>bincode\<close>). A value that goes
  out of scope is dropped in the order the language prescribes; a panic ends the process, so
  nothing is dropped after it.
\<close>

datatype Commands = Record string string | Replay string

text \<open>\<open>fs::read\<close> and \<open>fs::write\<close>.\<close>

definition fs_read :: "string \<Rightarrow> string \<Rightarrow> ('h world, u8 list) cmd" where
  "fs_read msg path w = expect_some msg (hm_get (w_files w) path) w"

definition fs_write :: "'h platform \<Rightarrow> string \<Rightarrow> string \<Rightarrow> u8 list \<Rightarrow> ('h world, unit) cmd" where
  "fs_write P msg path bytes =
     (if fs_writable P path then modify (\<lambda>w. w\<lparr>w_files := hm_insert path bytes (w_files w)\<rparr>)
      else raise (Panic (Expect msg)))"

definition expect_right :: "string \<Rightarrow> 'e + 'a \<Rightarrow> ('s, 'a) cmd" where
  "expect_right msg r = (case r of Inl e \<Rightarrow> raise (Panic (Expect msg)) | Inr x \<Rightarrow> ret x)"

text \<open>The result of a call as a value: an error value is not propagated.\<close>

definition attempt :: "('s, 'a) cmd \<Rightarrow> ('s, u32 + 'a) cmd" where
  "attempt m s = (case m s of
      None \<Rightarrow> None
    | Some (Inl (WinErr e), t) \<Rightarrow> Some (Inr (Inl e), t)
    | Some (Inl f, t) \<Rightarrow> Some (Inl f, t)
    | Some (Inr x, t) \<Rightarrow> Some (Inr (Inr x), t))"

text \<open>Dropping a snapshot releases its buffers.\<close>

definition Snapshot_drop :: "'h platform \<Rightarrow> Snapshot \<Rightarrow> ('h world, unit) cmd" where
  "Snapshot_drop P snap = for_each (hash_order P (hm_keys (memory_regions snap))) (\<lambda>gpa.
     case hm_get (memory_regions snap) gpa of
       None \<Rightarrow> ret ()
     | Some m \<Rightarrow> on_heap (AlignedMemory_drop m))"

definition capture_names :: "reg_name list" where
  "capture_names = [Rip, Rsp, Rflags, Cr0, Cr3, Cr4]"

section \<open>Record\<close>

text \<open>The memory of the guest: what \<open>record\<close> maps, and where.\<close>

record guest_layout =
  gl_image :: ptr
  gl_image_size :: usize
  gl_stack :: AlignedMemory
  gl_stack_base :: u64
  gl_null :: AlignedMemory
  gl_tables :: PageTable

definition base_gpa :: u64 where "base_gpa = 0x100000"

definition stack_size :: usize where "stack_size = 0x10000"

definition pt_gpa :: u64 where "pt_gpa = 0x200000"

definition map_guest_memory ::
    "'h platform \<Rightarrow> VmPartition \<Rightarrow> ptr \<Rightarrow> usize \<Rightarrow> ('h world, guest_layout) cmd" where
  "map_guest_memory P vm host_ptr sz =
    (let ept = EptManager_new (as_raw vm) in
     thenE (expect_ok ''Failed to map target memory'' (map_gpa_range P ept base_gpa host_ptr sz 0x7))
    (bindE (on_heap (AlignedMemory_new stack_size)) (\<lambda>stack_memory.
     bindE (add_u64 (overflow_checks P) sz 0xFFF) (\<lambda>up.
     bindE (add_u64 (overflow_checks P) base_gpa (up AND NOT 0xFFF)) (\<lambda>stack_base.
     thenE (expect_ok ''Failed to map stack memory''
              (map_gpa_range P ept stack_base (am_ptr stack_memory) stack_size 0x7))
    (bindE (on_heap (AlignedMemory_new 0x1000)) (\<lambda>null_page.
     thenE (expect_ok ''Failed to map null page'' (map_gpa_range P ept 0x0 (am_ptr null_page) 0x1000 0x7))
    (bindE (create_identity_mapping P pt_gpa) (\<lambda>page_table.
     thenE (expect_ok ''Failed to map page tables''
              (map_gpa_range P ept pt_gpa (pt_host_ptr page_table) (pt_size page_table) 0x7))
    (ret \<lparr>gl_image = host_ptr, gl_image_size = sz, gl_stack = stack_memory, gl_stack_base = stack_base,
          gl_null = null_page, gl_tables = page_table\<rparr>))))))))))"

definition capture_memory_layout :: "guest_layout \<Rightarrow> (heap, Snapshot) cmd" where
  "capture_memory_layout gl =
     bindE (capture_region 0x0 (am_ptr (gl_null gl)) 0x1000 Snapshot_new) (\<lambda>snap.
     bindE (capture_region base_gpa (gl_image gl) (gl_image_size gl) snap) (\<lambda>snap.
     bindE (capture_region (gl_stack_base gl) (am_ptr (gl_stack gl)) stack_size snap) (\<lambda>snap.
     capture_region pt_gpa (pt_host_ptr (gl_tables gl)) (pt_size (gl_tables gl)) snap)))"

definition boot_vcpu ::
    "'h platform \<Rightarrow> VmPartition \<Rightarrow> PeLoader \<Rightarrow> guest_layout \<Rightarrow> ('h world, Vcpu) cmd" where
  "boot_vcpu P vm loader gl =
     bindE (expect_ok ''Failed to create vCPU'' (Vcpu_new P (as_raw vm) 0)) (\<lambda>vcpu.
     thenE (expect_ok ''Failed to setup long mode'' (setup_long_mode P vcpu pt_gpa))
    (bindE (add_u64 (overflow_checks P) base_gpa (entry_point loader)) (\<lambda>entry_gpa.
     bindE (add_u64 (overflow_checks P) (gl_stack_base gl) stack_size) (\<lambda>stack_gpa.
     thenE (expect_ok ''Failed to set RIP/RSP registers''
              (set_registers P vcpu [Rip, Rsp] [mk_Reg64 entry_gpa, mk_Reg64 stack_gpa]))
    (ret vcpu)))))"

text \<open>Running the engine's loop on a local engine.\<close>

definition with_engine ::
    "('h world \<times> RecordEngine, unit) cmd \<Rightarrow> RecordEngine \<Rightarrow> ('h world, RecordEngine) cmd" where
  "with_engine m eng w = (case m (w, eng) of
      None \<Rightarrow> None
    | Some (Inl e, (w', eng')) \<Rightarrow> Some (Inl e, w')
    | Some (Inr u, (w', eng')) \<Rightarrow> Some (Inr eng', w'))"

definition record_prepare ::
    "'h platform \<Rightarrow> (u8 list \<Rightarrow> 'e + PE) \<Rightarrow> string
      \<Rightarrow> ('h world, VmPartition \<times> guest_layout \<times> Snapshot \<times> Vcpu) cmd" where
  "record_prepare P goblin target =
     thenE (println (RecordingTarget target))
    (bindE (fs_read ''Failed to read target binary'' target) (\<lambda>binary_data.
     bindE (expect_right ''Failed to parse PE file'' (PeLoader_parse goblin binary_data)) (\<lambda>loader.
     bindE (on_heap (map_into_memory loader)) (\<lambda>(host_ptr, sz).
     bindE (expect_ok ''Failed to create VM partition'' (VmPartition_new P)) (\<lambda>vm.
     thenE (expect_ok ''Failed to configure interceptions'' (configure_interceptions P vm))
    (bindE (map_guest_memory P vm host_ptr sz) (\<lambda>gl.
     bindE (on_heap (capture_memory_layout gl)) (\<lambda>snapshot.
     thenE (println (TargetMapped base_gpa (entry_point loader)))
    (bindE (boot_vcpu P vm loader gl) (\<lambda>vcpu.
     bindE (expect_ok ''Failed to capture initial registers''
              (capture_registers P vcpu capture_names snapshot)) (\<lambda>snapshot.
     ret (vm, gl, snapshot, vcpu))))))))))))"

definition record_archive ::
    "'h platform \<Rightarrow> serde_format \<Rightarrow> string \<Rightarrow> guest_layout \<Rightarrow> Snapshot \<Rightarrow> Vcpu \<Rightarrow> RecordEngine
      \<Rightarrow> ('h world, Snapshot) cmd" where
  "record_archive P F output gl snapshot vcpu record_engine =
     bindE (on_heap (capture_memory_layout gl)) (\<lambda>final_snapshot.
     bindE (expect_ok ''Failed to capture final registers''
              (capture_registers P vcpu capture_names final_snapshot)) (\<lambda>final_snapshot.
     bindE (on_heap (hash_state final_snapshot)) (\<lambda>final_hash.
     thenE (println (RecordFinalHash final_hash))
    (let recorded_events = RecordEngine_finalize record_engine in
     thenE (println (ExecutionCompleted (length recorded_events)))
    (thenE (println (TraceDestination output))
    (bindE (expect_ok ''Failed to serialize trace archive''
              (on_heap (ser_archive P F snapshot recorded_events final_hash))) (\<lambda>encoded.
     thenE (fs_write P ''Failed to write trace to disk'' output encoded)
    (thenE (println TraceSaved)
    (ret final_snapshot)))))))))"

text \<open>End of the arm: the locals are dropped in reverse order of their declaration.\<close>

definition record_drop_locals ::
    "'h platform \<Rightarrow> guest_layout \<Rightarrow> Snapshot \<Rightarrow> Vcpu \<Rightarrow> Snapshot \<Rightarrow> ('h world, unit) cmd" where
  "record_drop_locals P gl snapshot vcpu final_snapshot =
     thenE (Snapshot_drop P final_snapshot)
    (thenE (Vcpu_drop P vcpu)
    (thenE (Snapshot_drop P snapshot)
    (thenE (on_heap (AlignedMemory_drop (gl_null gl)))
    (on_heap (AlignedMemory_drop (gl_stack gl))))))"

text \<open>The partition was declared before the guest's memory and is dropped last.\<close>

definition record_drop ::
    "'h platform \<Rightarrow> VmPartition \<Rightarrow> guest_layout \<Rightarrow> Snapshot \<Rightarrow> Vcpu \<Rightarrow> Snapshot \<Rightarrow> ('h world, unit) cmd" where
  "record_drop P vm gl snapshot vcpu final_snapshot =
     thenE (record_drop_locals P gl snapshot vcpu final_snapshot) (VmPartition_drop P vm)"

definition cli_record ::
    "'h platform \<Rightarrow> (u8 list \<Rightarrow> 'e + PE) \<Rightarrow> serde_format \<Rightarrow> string \<Rightarrow> string \<Rightarrow> ('h world, unit) cmd" where
  "cli_record P goblin F target output =
     bindE (record_prepare P goblin target) (\<lambda>(vm, gl, snapshot, vcpu).
     thenE (println StartingRecordMode)
    (bindE (expect_ok ''Record engine execution failed''
              (with_engine (RecordEngine_run P) (RecordEngine_new vm vcpu))) (\<lambda>record_engine.
     bindE (record_archive P F output gl snapshot vcpu record_engine) (\<lambda>final_snapshot.
     record_drop P vm gl snapshot vcpu final_snapshot))))"

section \<open>Replay\<close>

definition handle_vm_exit :: "'h platform \<Rightarrow> Vcpu \<Rightarrow> u32 + exit_context \<Rightarrow> ('h world, unit) cmd" where
  "handle_vm_exit P vcpu result = (case result of
      Inr ctx \<Rightarrow>
        if ExitReason ctx = 1 then
          thenE (println EptViolation) (thenE (println (TargetGpa (mem_Gpa ctx))) (println (TargetGva (mem_Gva ctx))))
        else if ExitReason ctx = 8 then
          bindE (attempt (get_registers P vcpu [Rax] [0])) (\<lambda>r. case r of
            Inr values \<Rightarrow> println (GuestHaltedReplay (Reg64 (values ! 0)))
          | Inl e \<Rightarrow> println HaltedNoRax)
        else println (StoppedReason (ExitReason ctx))
    | Inl e \<Rightarrow> println (ExecutionFailed e))"

definition replay_prepare ::
    "'h platform \<Rightarrow> serde_format \<Rightarrow> string
      \<Rightarrow> ('h world, Snapshot \<times> TraceEvent list \<times> u64 \<times> VmPartition \<times> Vcpu \<times> ReplayEngine) cmd" where
  "replay_prepare P F trace =
     thenE (println (ReplayingTrace trace))
    (bindE (fs_read ''Failed to read trace file'' trace) (\<lambda>archive_data.
     bindE (expect_ok ''Failed to deserialize trace archive'' (on_heap (de_archive F archive_data)))
       (\<lambda>(snapshot, events, expected_hash).
     thenE (println (LoadedSnapshot (length (memory_regions snapshot)) (length events)))
    (bindE (expect_ok ''Failed to create VM partition'' (VmPartition_new P)) (\<lambda>vm.
     thenE (expect_ok ''Failed to configure interceptions'' (configure_interceptions P vm))
    (bindE (expect_ok ''Failed to create vCPU'' (Vcpu_new P (as_raw vm) 0)) (\<lambda>vcpu.
     thenE (expect_ok ''Failed to setup long mode'' (setup_long_mode P vcpu pt_gpa))
    (let replay_engine = register_vcpu 0 vcpu (ReplayEngine_new vm 0) in
     thenE (expect_ok ''Failed to restore snapshot''
              (restore_snapshot P replay_engine snapshot capture_names))
    (thenE (println SnapshotRestored)
    (ret (snapshot, events, expected_hash, vm, vcpu, replay_engine)))))))))))"

definition replay_verify ::
    "'h platform \<Rightarrow> Snapshot \<Rightarrow> u64 \<Rightarrow> Vcpu \<Rightarrow> ('h world, Snapshot) cmd" where
  "replay_verify P snapshot expected_hash vcpu =
     bindE (expect_ok ''Failed to capture final registers''
              (capture_registers P vcpu capture_names snapshot)) (\<lambda>snapshot.
     bindE (on_heap (hash_state snapshot)) (\<lambda>replay_hash.
     thenE (println (ExpectedHash expected_hash))
    (thenE (println (ReplayHash replay_hash))
    (thenE (assert_that (replay_hash = expected_hash))
    (thenE (println VerificationSuccess)
    (ret snapshot))))))"

definition cli_replay :: "'h platform \<Rightarrow> serde_format \<Rightarrow> string \<Rightarrow> ('h world, unit) cmd" where
  "cli_replay P F trace =
     bindE (replay_prepare P F trace) (\<lambda>(snapshot, events, expected_hash, vm, vcpu, replay_engine).
     thenE (println (ReplayingEvents (length events)))
    (thenE (for_each events (\<lambda>event. expect_ok ''Failed to replay event'' (replay_event P replay_engine event)))
    (thenE (println TraceReplayFinished)
    (bindE (attempt (VmRunner_run P (VmRunner_new vm vcpu))) (\<lambda>result.
     thenE (handle_vm_exit P vcpu result)
    (bindE (replay_verify P snapshot expected_hash vcpu) (\<lambda>snapshot.
     thenE (Vcpu_drop P vcpu)
    (thenE (VmPartition_drop P vm)
    (Snapshot_drop P snapshot)))))))))"

definition main ::
    "'h platform \<Rightarrow> (u8 list \<Rightarrow> 'e + PE) \<Rightarrow> serde_format \<Rightarrow> Commands \<Rightarrow> ('h world, unit) cmd" where
  "main P goblin F command = (case command of
      Record target output \<Rightarrow> cli_record P goblin F target output
    | Replay trace \<Rightarrow> cli_replay P F trace)"

end
