(* ===== verification/Whp_Contract.thy ===== *)
theory Whp_Contract
  imports Replay_Engine
begin

text \<open>
  What the engines rely on of the hypervisor, as the locale \<open>whp_contract\<close>: reading registers,
  writing registers, and running a virtual processor act on an architectural state (registers,
  guest-physical memory, interception mask, remaining processor state) as functions of that
  state. The lemmas of the locale give the effect of each call of \<open>Vcpu\<close> and \<open>VmRunner\<close> on it;
  the locale is interpreted on the reference hypervisor of \<open>Reference_Hypervisor\<close>.
\<close>

section \<open>Architectural state\<close>

record 'x arch =
  a_regs :: "reg_name \<Rightarrow> reg_value"
  a_mem :: "u64 \<Rightarrow> (u8 \<times> u32) option"
  a_exits :: u64
  a_rest :: 'x

text \<open>Segment registers use the whole union, every other register its low 64 bits.\<close>

definition is_segment :: "reg_name \<Rightarrow> bool" where
  "is_segment n \<longleftrightarrow> n \<in> {Cs, Ds, Es, Fs, Gs, Ss, Tr, Ldtr}"

definition reg_canon :: "reg_name \<Rightarrow> reg_value \<Rightarrow> reg_value" where
  "reg_canon n v = (if is_segment n then v else mk_Reg64 (Reg64 v))"

definition upd_regs ::
    "(reg_name \<Rightarrow> reg_value) \<Rightarrow> (reg_name \<times> reg_value) list \<Rightarrow> reg_name \<Rightarrow> reg_value" where
  "upd_regs f nvs = fold (\<lambda>(n, v) g. g(n := reg_canon n v)) nvs f"

text \<open>
  A mapping sends a guest-physical address to a host allocation, an offset in it, and the
  access flags. Guest memory is the host memory seen through it.
\<close>

type_synonym gpa_map = "u64 \<Rightarrow> (ptr \<times> nat \<times> u32) option"

definition heap_byte :: "heap \<Rightarrow> ptr \<Rightarrow> nat \<Rightarrow> u8 option" where
  "heap_byte hp p off = (case heap_content hp p of
      None \<Rightarrow> None
    | Some bs \<Rightarrow> if off < length bs then Some (bs ! off) else None)"

definition guest_mem :: "heap \<Rightarrow> gpa_map \<Rightarrow> u64 \<Rightarrow> (u8 \<times> u32) option" where
  "guest_mem hp m gpa = (case m gpa of
      None \<Rightarrow> None
    | Some (p, off, fl) \<Rightarrow> map_option (\<lambda>b. (b, fl)) (heap_byte hp p off))"

definition mapped_ptrs :: "gpa_map \<Rightarrow> ptr set" where
  "mapped_ptrs m = {p. \<exists>gpa off fl. m gpa = Some (p, off, fl)}"

text \<open>The architectural state of a virtual CPU in a world, for given views of the hypervisor.\<close>

definition arch_of ::
    "('h \<Rightarrow> handle \<Rightarrow> u32 \<Rightarrow> reg_name \<Rightarrow> reg_value) \<Rightarrow> ('h \<Rightarrow> handle \<Rightarrow> gpa_map)
      \<Rightarrow> ('h \<Rightarrow> handle \<Rightarrow> u64) \<Rightarrow> ('h \<Rightarrow> handle \<Rightarrow> u32 \<Rightarrow> 'x)
      \<Rightarrow> Vcpu \<Rightarrow> heap \<Rightarrow> 'h \<Rightarrow> 'x arch" where
  "arch_of regs gpas exits rest v hp h =
     \<lparr>a_regs = regs h (vc_partition v) (vc_index v),
      a_mem = guest_mem hp (gpas h (vc_partition v)),
      a_exits = exits h (vc_partition v),
      a_rest = rest h (vc_partition v) (vc_index v)\<rparr>"

section \<open>The contract\<close>

text \<open>
  \<^item> \<open>live h p i\<close>: partition \<open>p\<close> is set up and has virtual processor \<open>i\<close>;
  \<^item> \<open>reject ns vs\<close>: the error with which a register write is refused, if it is;
  \<^item> \<open>guest\<close>: what the processor does from an architectural state until its next exit; \<open>None\<close>
    when there is no next exit.
\<close>

locale whp_contract =
  fixes P :: "'h platform"
    and live :: "'h \<Rightarrow> handle \<Rightarrow> u32 \<Rightarrow> bool"
    and regs :: "'h \<Rightarrow> handle \<Rightarrow> u32 \<Rightarrow> reg_name \<Rightarrow> reg_value"
    and gpas :: "'h \<Rightarrow> handle \<Rightarrow> gpa_map"
    and exits :: "'h \<Rightarrow> handle \<Rightarrow> u64"
    and rest :: "'h \<Rightarrow> handle \<Rightarrow> u32 \<Rightarrow> 'x"
    and reject :: "reg_name list \<Rightarrow> reg_value list \<Rightarrow> u32 option"
    and guest :: "'x arch \<Rightarrow> ((u32 + exit_context) \<times> 'x arch) option"
  assumes get_live: "live h p i \<Longrightarrow>
      WHvGetVirtualProcessorRegisters P p i ns h = (Inr (map (regs h p i) ns), h)"
    and canon_live: "live h p i \<Longrightarrow> reg_canon n (regs h p i n) = regs h p i n"
    and set_live: "live h p i \<Longrightarrow> length ns = length vs \<Longrightarrow> reject ns vs = None \<Longrightarrow>
      \<exists>h'. WHvSetVirtualProcessorRegisters P p i ns vs h = (Inr (), h') \<and> live h' p i
        \<and> regs h' p i = upd_regs (regs h p i) (zip ns vs) \<and> gpas h' p = gpas h p
        \<and> exits h' p = exits h p \<and> rest h' p i = rest h p i"
    and set_rejected: "live h p i \<Longrightarrow> length ns = length vs \<Longrightarrow> reject ns vs = Some e \<Longrightarrow>
      WHvSetVirtualProcessorRegisters P p i ns vs h = (Inl e, h)"
    and run_forever: "live h p i \<Longrightarrow> heap_inv hp \<Longrightarrow>
      guest (arch_of regs gpas exits rest \<lparr>vc_partition = p, vc_index = i\<rparr> hp h) = None \<Longrightarrow>
      WHvRunVirtualProcessor P p i (hp, h) = None"
    and run_exit: "live h p i \<Longrightarrow> heap_inv hp \<Longrightarrow>
      guest (arch_of regs gpas exits rest \<lparr>vc_partition = p, vc_index = i\<rparr> hp h) = Some (res, a') \<Longrightarrow>
      \<exists>hp' h'. WHvRunVirtualProcessor P p i (hp, h) = Some (res, hp', h') \<and> live h' p i
        \<and> arch_of regs gpas exits rest \<lparr>vc_partition = p, vc_index = i\<rparr> hp' h' = a'
        \<and> gpas h' p = gpas h p \<and> same_shape hp hp'
        \<and> (\<forall>q. q \<notin> mapped_ptrs (gpas h p) \<longrightarrow> h_blocks hp' q = h_blocks hp q)"

text \<open>
  The frame of everything an engine does to a world once the guest is set up: allocations keep
  their shape, unmapped allocations keep their bytes, the mapping and the files stay.
\<close>

definition keeps ::
    "('h \<Rightarrow> handle \<Rightarrow> u32 \<Rightarrow> bool) \<Rightarrow> ('h \<Rightarrow> handle \<Rightarrow> gpa_map)
      \<Rightarrow> Vcpu \<Rightarrow> 'h world \<Rightarrow> 'h world \<Rightarrow> bool" where
  "keeps live gpas v w w' \<longleftrightarrow>
     live (w_hv w') (vc_partition v) (vc_index v) \<and> heap_inv (w_heap w')
     \<and> same_shape (w_heap w) (w_heap w') \<and> w_files w' = w_files w
     \<and> gpas (w_hv w') (vc_partition v) = gpas (w_hv w) (vc_partition v)
     \<and> (\<forall>q. q \<notin> mapped_ptrs (gpas (w_hv w) (vc_partition v)) \<longrightarrow>
            h_blocks (w_heap w') q = h_blocks (w_heap w) q)"

lemma keeps_trans: "keeps live gpas v w w' \<Longrightarrow> keeps live gpas v w' w'' \<Longrightarrow> keeps live gpas v w w''"
  by (auto simp: keeps_def intro: same_shape_trans)

section \<open>The abstract machine\<close>

text \<open>
  The engines' view of one intercepted exit, on architectural states: the event it stands for,
  the registers the event determines, the instruction pointer moved past the instruction.
\<close>

definition abs_set ::
    "(reg_name list \<Rightarrow> reg_value list \<Rightarrow> u32 option) \<Rightarrow> reg_name list \<Rightarrow> reg_value list
      \<Rightarrow> 'x arch \<Rightarrow> failure + 'x arch" where
  "abs_set reject ns vs a = (case reject ns vs of
      Some e \<Rightarrow> Inl (WinErr e)
    | None \<Rightarrow> Inr (a\<lparr>a_regs := upd_regs (a_regs a) (zip ns vs)\<rparr>))"

definition abs_advance ::
    "(reg_name list \<Rightarrow> reg_value list \<Rightarrow> u32 option) \<Rightarrow> bool \<Rightarrow> u8 \<Rightarrow> 'x arch \<Rightarrow> failure + 'x arch" where
  "abs_advance reject checks len a =
    (let rip = Reg64 (a_regs a Rip) in
     if checks \<and> 2 ^ 64 \<le> unat rip + unat (ucast len :: u64) then Inl (Panic ArithOverflow)
     else abs_set reject [Rip] [set_Reg64 (rip + ucast len) (a_regs a Rip)] a)"

definition abs_inject ::
    "(reg_name list \<Rightarrow> reg_value list \<Rightarrow> u32 option) \<Rightarrow> EventType \<Rightarrow> 'x arch \<Rightarrow> failure + 'x arch" where
  "abs_inject reject ev a = (case ev of
      Syscall rax writes \<Rightarrow> abs_set reject [Rax] [mk_Reg64 rax] a
    | Rdtsc rax rdx \<Rightarrow> abs_set reject [Rax, Rdx] [mk_Reg64 rax, mk_Reg64 rdx] a
    | Cpuid eax ebx ecx edx \<Rightarrow> abs_set reject [Rax, Rbx, Rcx, Rdx]
        [mk_Reg64 (ucast eax), mk_Reg64 (ucast ebx), mk_Reg64 (ucast ecx), mk_Reg64 (ucast edx)] a
    | ContextSwitch _ \<Rightarrow> Inr a)"

definition abs_event :: "exit_context \<Rightarrow> 'x arch \<Rightarrow> EventType option" where
  "abs_event ctx a =
    (if ExitReason ctx = 4097 then Some sim_cpuid
     else if ExitReason ctx = 4099 then Some sim_rdtsc
     else if ExitReason ctx = 4 then Some (ContextSwitch (ucast (Reg64 (a_regs a Rcx))))
     else None)"

definition abs_length :: "exit_context \<Rightarrow> u8" where
  "abs_length ctx = (if ExitReason ctx = 4 then 3 else exit_instruction_length ctx)"

text \<open>Answering an exit with the event it stands for.\<close>

definition abs_answer ::
    "(reg_name list \<Rightarrow> reg_value list \<Rightarrow> u32 option) \<Rightarrow> bool \<Rightarrow> exit_context \<Rightarrow> EventType
      \<Rightarrow> 'x arch \<Rightarrow> failure + 'x arch" where
  "abs_answer reject checks ctx ev a = (case abs_inject reject ev a of
      Inl e \<Rightarrow> Inl e
    | Inr a' \<Rightarrow> abs_advance reject checks (abs_length ctx) a')"

section \<open>What each call does to the architectural state\<close>

context whp_contract
begin

abbreviation arch :: "Vcpu \<Rightarrow> 'h world \<Rightarrow> 'x arch" where
  "arch v w \<equiv> arch_of regs gpas exits rest v (w_heap w) (w_hv w)"

abbreviation ready :: "Vcpu \<Rightarrow> 'h world \<Rightarrow> bool" where
  "ready v w \<equiv> live (w_hv w) (vc_partition v) (vc_index v) \<and> heap_inv (w_heap w)"

abbreviation frame :: "Vcpu \<Rightarrow> 'h world \<Rightarrow> 'h world \<Rightarrow> bool" where
  "frame v w w' \<equiv> keeps live gpas v w w'"

lemma frame_refl: "ready v w \<Longrightarrow> frame v w w"
  by (simp add: keeps_def)

lemma frame_ready: "frame v w w' \<Longrightarrow> ready v w'"
  by (simp add: keeps_def)

lemma frame_println: "ready v w \<Longrightarrow> frame v w (w\<lparr>w_out := out\<rparr>)"
  by (simp add: keeps_def)

lemma get_registers_ready:
  "ready v w \<Longrightarrow> length ns = length vs \<Longrightarrow>
     get_registers P v ns vs w = Some (Inr (map (a_regs (arch v w)) ns), w)"
  by (simp add: get_registers_def cmd_simps get_live arch_of_def)

lemma set_registers_ready:
  assumes "ready v w" and "length ns = length vs" and "abs_set reject ns vs (arch v w) = Inr a'"
  shows "\<exists>w'. set_registers P v ns vs w = Some (Inr (), w') \<and> frame v w w' \<and> arch v w' = a'"
proof -
  have r: "reject ns vs = None"
    and a': "a' = (arch v w)\<lparr>a_regs := upd_regs (a_regs (arch v w)) (zip ns vs)\<rparr>"
    using assms(3) by (simp_all add: abs_set_def split: option.splits)
  obtain h' where h': "WHvSetVirtualProcessorRegisters P (vc_partition v) (vc_index v) ns vs (w_hv w)
      = (Inr (), h')" "live h' (vc_partition v) (vc_index v)"
    "regs h' (vc_partition v) (vc_index v) = upd_regs (regs (w_hv w) (vc_partition v) (vc_index v)) (zip ns vs)"
    "gpas h' (vc_partition v) = gpas (w_hv w) (vc_partition v)"
    "exits h' (vc_partition v) = exits (w_hv w) (vc_partition v)"
    "rest h' (vc_partition v) (vc_index v) = rest (w_hv w) (vc_partition v) (vc_index v)"
    using set_live [OF conjunct1 [OF assms(1)] assms(2) r] by blast
  show ?thesis
    using assms(1,2) h' a'
    by (intro exI [of _ "w\<lparr>w_hv := h'\<rparr>"]) (simp add: set_registers_def cmd_simps keeps_def arch_of_def)
qed

lemma set_registers_refused:
  assumes "ready v w" and "length ns = length vs" and "abs_set reject ns vs (arch v w) = Inl e"
  shows "set_registers P v ns vs w = Some (Inl e, w)"
  using assms set_rejected [of "w_hv w" "vc_partition v" "vc_index v" ns vs]
  by (auto simp: abs_set_def set_registers_def cmd_simps split: option.splits)

lemma record_advance_rip_ready:
  assumes "ready v w" and "abs_advance reject (overflow_checks P) len (arch v w) = Inr a'"
  shows "\<exists>w'. record_advance_rip P v len w = Some (Inr (), w') \<and> frame v w w' \<and> arch v w' = a'"
proof -
  let ?rip = "Reg64 (a_regs (arch v w) Rip)"
  have nov: "\<not> (overflow_checks P \<and> 2 ^ 64 \<le> unat ?rip + unat (ucast len :: u64))"
    and st: "abs_set reject [Rip] [set_Reg64 (?rip + ucast len) (a_regs (arch v w) Rip)] (arch v w) = Inr a'"
    using assms(2) by (auto simp: abs_advance_def Let_def split: if_splits)
  have "record_advance_rip P v len w =
      set_registers P v [Rip] [set_Reg64 (?rip + ucast len) (a_regs (arch v w) Rip)] w"
    using nov get_registers_ready [OF assms(1), of "[Rip]" "[0]"]
    by (auto simp: record_advance_rip_def bindE_step add_u64_def)
  then show ?thesis
    using set_registers_ready [OF assms(1) _ st] by simp
qed

lemma record_advance_rip_refused:
  assumes "ready v w" and "abs_advance reject (overflow_checks P) len (arch v w) = Inl e"
  shows "record_advance_rip P v len w = Some (Inl e, w)"
  using assms get_registers_ready [OF assms(1), of "[Rip]" "[0]"] set_registers_refused [OF assms(1)]
  by (auto simp: record_advance_rip_def bindE_step add_u64_def abs_advance_def Let_def raise_def
      split: if_splits)

lemma run_ready:
  assumes "ready v w" and "vp_handle p = vc_partition v" and "guest (arch v w) = Some (Inr ctx, a')"
  shows "\<exists>w'. VmRunner_run P (VmRunner_new p v) w = Some (Inr ctx, w') \<and> frame v w w' \<and> arch v w' = a'"
proof -
  have v: "\<lparr>vc_partition = vc_partition v, vc_index = vc_index v\<rparr> = v" by simp
  obtain hp' h' where r: "WHvRunVirtualProcessor P (vc_partition v) (vc_index v) (w_heap w, w_hv w)
      = Some (Inr ctx, hp', h')" "live h' (vc_partition v) (vc_index v)"
    "arch_of regs gpas exits rest v hp' h' = a'" "gpas h' (vc_partition v) = gpas (w_hv w) (vc_partition v)"
    "same_shape (w_heap w) hp'"
    "\<forall>q. q \<notin> mapped_ptrs (gpas (w_hv w) (vc_partition v)) \<longrightarrow> h_blocks hp' q = h_blocks (w_heap w) q"
    using run_exit [of "w_hv w" "vc_partition v" "vc_index v" "w_heap w" "Inr ctx" a'] assms(1,3)
    unfolding v by blast
  show ?thesis
    using r assms(1,2) same_shape_inv [OF r(5)]
    by (intro exI [of _ "w\<lparr>w_heap := hp', w_hv := h'\<rparr>"])
      (simp add: VmRunner_run_def VmRunner_new_def as_raw_def Vcpu_index_def cmd_simps keeps_def)
qed

lemma run_error:
  assumes "ready v w" and "vp_handle p = vc_partition v" and "guest (arch v w) = Some (Inl e, a')"
  shows "\<exists>w'. VmRunner_run P (VmRunner_new p v) w = Some (Inl (WinErr e), w')"
proof -
  have v: "\<lparr>vc_partition = vc_partition v, vc_index = vc_index v\<rparr> = v" by simp
  obtain hp' h' where "WHvRunVirtualProcessor P (vc_partition v) (vc_index v) (w_heap w, w_hv w)
      = Some (Inl e, hp', h')"
    using run_exit [of "w_hv w" "vc_partition v" "vc_index v" "w_heap w" "Inl e" a'] assms(1,3)
    unfolding v by blast
  then show ?thesis
    using assms(2) by (simp add: VmRunner_run_def VmRunner_new_def as_raw_def Vcpu_index_def cmd_simps)
qed

lemma run_silent:
  assumes "ready v w" and "vp_handle p = vc_partition v" and "guest (arch v w) = None"
  shows "VmRunner_run P (VmRunner_new p v) w = None"
proof -
  have v: "\<lparr>vc_partition = vc_partition v, vc_index = vc_index v\<rparr> = v" by simp
  have "WHvRunVirtualProcessor P (vc_partition v) (vc_index v) (w_heap w, w_hv w) = None"
    using run_forever [of "w_hv w" "vc_partition v" "vc_index v" "w_heap w"] assms(1,3)
    unfolding v by blast
  then show ?thesis
    using assms(2) by (simp add: VmRunner_run_def VmRunner_new_def as_raw_def Vcpu_index_def cmd_simps)
qed

end

end
