(* ===== verification/Record_Correct.thy ===== *)
theory Record_Correct
  imports Whp_Contract
begin

text \<open>
  The record engine against the abstract machine. \<open>abs_record\<close> is the specification of a
  recording: the sequence of intercepted exits of the guest, each answered with the event it
  stands for, up to the first exit that is not an interception. The engine's loop computes
  exactly that: it returns whenever such a sequence exists, with its events and its final
  state, and it returns normally in no other case.
\<close>

inductive abs_record ::
    "('x arch \<Rightarrow> ((u32 + exit_context) \<times> 'x arch) option)
      \<Rightarrow> (reg_name list \<Rightarrow> reg_value list \<Rightarrow> u32 option) \<Rightarrow> bool
      \<Rightarrow> u64 \<Rightarrow> 'x arch \<Rightarrow> TraceEvent list \<Rightarrow> exit_context \<Rightarrow> 'x arch \<Rightarrow> bool"
  for G reject checks where
  stop: "G a = Some (Inr ctx, a') \<Longrightarrow> abs_event ctx a' = None \<Longrightarrow>
    abs_record G reject checks n a [] ctx a'"
| intercept: "G a = Some (Inr ctx, a1) \<Longrightarrow> abs_event ctx a1 = Some ev \<Longrightarrow>
    abs_answer reject checks ctx ev a1 = Inr a2 \<Longrightarrow> (checks \<longrightarrow> unat n + 1 < 2 ^ 64) \<Longrightarrow>
    abs_record G reject checks (n + 1) a2 es ctx' a' \<Longrightarrow>
    abs_record G reject checks n a (\<lparr>instruction_count = n, event = ev\<rparr> # es) ctx' a'"

lemma abs_record_numbered: "abs_record G reject checks n a es ctx a' \<Longrightarrow> numbered_from n es"
  by (induction rule: abs_record.induct) simp_all

text \<open>The guest of an abstract recording runs deterministically, so its outcome is unique.\<close>

lemma abs_record_unique:
  assumes "abs_record G reject checks n a es ctx a'" and "abs_record G reject checks n a fs dtx b'"
  shows "es = fs \<and> ctx = dtx \<and> a' = b'"
  using assms
proof (induction arbitrary: fs dtx b' rule: abs_record.induct)
  case (stop a ctx a' n)
  from stop.prems show ?case
    by cases (use stop.hyps in auto)
next
  case (intercept a ctx a1 ev a2 n es ctx' a')
  from intercept.prems show ?case
  proof cases
    case (intercept ctx2 b1 ev2 b2 fs2)
    then show ?thesis
      using intercept.hyps intercept.IH by simp
  qed (use intercept.hyps in auto)
qed

lemma abs_event_cases:
  assumes "abs_event ctx a = Some ev"
  obtains (cpuid) "ExitReason ctx = 4097" "ev = sim_cpuid"
  | (rdtsc) "ExitReason ctx = 4099" "ev = sim_rdtsc"
  | (vmcall) "ExitReason ctx = 4" "ev = ContextSwitch (ucast (Reg64 (a_regs a Rcx)))"
  using assms by (auto simp: abs_event_def split: if_splits)

text \<open>The engine logs three kinds of events; it never logs a \<open>Syscall\<close>.\<close>

lemma abs_record_kinds:
  "abs_record G reject checks n a es ctx a' \<Longrightarrow> i < length es \<Longrightarrow>
     event (es ! i) \<in> {sim_cpuid, sim_rdtsc} \<or> (\<exists>t. event (es ! i) = ContextSwitch t)"
proof (induction arbitrary: i rule: abs_record.induct)
  case (intercept a ctx a1 ev a2 n es ctx' a')
  have "ev \<in> {sim_cpuid, sim_rdtsc} \<or> (\<exists>t. ev = ContextSwitch t)"
    using intercept.hyps(2) by (cases rule: abs_event_cases) auto
  then show ?case
    using intercept.IH [of "i - 1"] intercept.prems by (cases i) auto
qed simp

text \<open>The engine that records on virtual CPU \<open>v\<close> of partition \<open>p\<close>.\<close>

definition records_on :: "VmPartition \<Rightarrow> Vcpu \<Rightarrow> RecordEngine \<Rightarrow> bool" where
  "records_on p v eng \<longleftrightarrow>
     vp_handle p = vc_partition v \<and> re_vcpu eng = v \<and> re_runner eng = VmRunner_new p v"

lemma records_on_new [simp]: "vp_handle p = vc_partition v \<Longrightarrow> records_on p v (RecordEngine_new p v)"
  by (simp add: records_on_def RecordEngine_new_def)

lemma events_RecordEngine_new [simp]: "events (re_logger (RecordEngine_new p v)) = []"
  by (simp add: RecordEngine_new_def)

lemma records_on_log [simp]:
  "records_on p v (eng\<lparr>re_logger := l\<rparr>) \<longleftrightarrow> records_on p v eng"
  by (simp add: records_on_def)

lemma record_step_run:
  assumes "records_on p v eng" and "VmRunner_run P (VmRunner_new p v) w = Some (Inr ctx, w1)"
  shows "record_step P cnt (w, eng) =
    (if ExitReason ctx = 1 then
       thenE (on_fst (println (RecordEptViolation (mem_Gpa ctx)))) (ret None)
     else if ExitReason ctx = 8 then
       bindE (on_fst (get_registers P v [Rax] [0])) (\<lambda>values.
       thenE (on_fst (println (GuestHaltedRecord (Reg64 (values ! 0))))) (ret None))
     else if ExitReason ctx = 4097 then record_on_cpuid P v cnt ctx
     else if ExitReason ctx = 4099 then record_on_rdtsc P v cnt ctx
     else if ExitReason ctx = 4 then record_on_vmcall P v cnt
     else thenE (on_fst (println (UnhandledExitRecord (ExitReason ctx)))) (ret None)) (w1, eng)"
  using assms by (simp add: record_step_def records_on_def bindE_def on_fst_def)

text \<open>The loop as the finite sequences of its iterations.\<close>

inductive record_runs ::
    "'h platform \<Rightarrow> u64 \<Rightarrow> 'h world \<times> RecordEngine
      \<Rightarrow> (failure + unit) \<times> 'h world \<times> RecordEngine \<Rightarrow> bool" for P where
  failed: "record_step P n s = Some (Inl e, t) \<Longrightarrow> record_runs P n s (Inl e, t)"
| break: "record_step P n s = Some (Inr None, t) \<Longrightarrow> record_runs P n s (Inr (), t)"
| continue: "record_step P n s = Some (Inr (Some m), t) \<Longrightarrow> record_runs P m t r \<Longrightarrow> record_runs P n s r"

lemma record_loop_iff: "record_loop P n s = Some r \<longleftrightarrow> record_runs P n s r"
proof
  assume "record_loop P n s = Some r"
  then have "(\<lambda>((P, n), s) r. record_runs P n s r) ((P, n), s) r"
    by (rule record_loop.raw_induct [rotated])
      (auto split: option.splits sum.splits, erule record_runs.failed, erule record_runs.break,
        erule record_runs.continue, simp)
  then show "record_runs P n s r" by simp
next
  assume "record_runs P n s r"
  then show "record_loop P n s = Some r"
    by induction (simp_all add: record_loop.simps)
qed

text \<open>The registers that an answered instruction defines.\<close>

definition answer_writes :: "EventType \<Rightarrow> reg_name list \<times> reg_value list" where
  "answer_writes ev = (case ev of
      Rdtsc rax rdx \<Rightarrow> ([Rax, Rdx], [mk_Reg64 rax, mk_Reg64 rdx])
    | Cpuid eax ebx ecx edx \<Rightarrow> ([Rax, Rbx, Rcx, Rdx],
        [mk_Reg64 (ucast eax), mk_Reg64 (ucast ebx), mk_Reg64 (ucast ecx), mk_Reg64 (ucast edx)])
    | _ \<Rightarrow> ([], []))"

lemma record_step_answer:
  assumes eng: "records_on p v eng" and w1: "VmRunner_run P (VmRunner_new p v) w = Some (Inr ctx, w1)"
    and ev: "abs_event ctx a = Some ev" "\<not> is_ContextSwitch ev"
  shows "record_step P cnt (w, eng) =
      thenE (on_fst (set_registers P v (fst (answer_writes ev)) (snd (answer_writes ev))))
        (thenE (record_log \<lparr>instruction_count = cnt, event = ev\<rparr>)
          (bindE (add_u64 (overflow_checks P) cnt 1) (\<lambda>cnt'.
           thenE (on_fst (record_advance_rip P v (abs_length ctx))) (ret (Some cnt'))))) (w1, eng)"
    and "abs_inject reject ev b = abs_set reject (fst (answer_writes ev)) (snd (answer_writes ev)) b"
    and "length (fst (answer_writes ev)) = length (snd (answer_writes ev))"
proof -
  have "ExitReason ctx = 4097 \<and> ev = sim_cpuid \<or> ExitReason ctx = 4099 \<and> ev = sim_rdtsc"
    using ev by (cases rule: abs_event_cases) auto
  then show "record_step P cnt (w, eng) =
      thenE (on_fst (set_registers P v (fst (answer_writes ev)) (snd (answer_writes ev))))
        (thenE (record_log \<lparr>instruction_count = cnt, event = ev\<rparr>)
          (bindE (add_u64 (overflow_checks P) cnt 1) (\<lambda>cnt'.
           thenE (on_fst (record_advance_rip P v (abs_length ctx))) (ret (Some cnt'))))) (w1, eng)"
    "abs_inject reject ev b = abs_set reject (fst (answer_writes ev)) (snd (answer_writes ev)) b"
    "length (fst (answer_writes ev)) = length (snd (answer_writes ev))"
    by (auto simp: record_step_run [OF eng w1] record_on_cpuid_def record_on_rdtsc_def abs_length_def
        answer_writes_def sim_cpuid_def sim_rdtsc_def abs_inject_def)
qed

context whp_contract
begin

lemma record_step_stop:
  assumes rd: "ready v w" and eng: "records_on p v eng"
    and g: "guest (arch v w) = Some (Inr ctx, a')" and ev: "abs_event ctx a' = None"
  shows "\<exists>w'. record_step P cnt (w, eng) = Some (Inr None, (w', eng)) \<and> frame v w w' \<and> arch v w' = a'"
proof -
  obtain w1 where w1: "VmRunner_run P (VmRunner_new p v) w = Some (Inr ctx, w1)" "frame v w w1" "arch v w1 = a'"
    using run_ready [OF rd _ g, of p] eng by (auto simp: records_on_def)
  have r1: "ready v w1" using w1(2) by (rule frame_ready)
  have fr: "frame v w (w1\<lparr>w_out := out\<rparr>)" for out
    using w1(2) r1 frame_println keeps_trans by blast
  have no: "ExitReason ctx \<noteq> 4097" "ExitReason ctx \<noteq> 4099" "ExitReason ctx \<noteq> 4"
    using ev by (auto simp: abs_event_def split: if_splits)
  define m where "m = (if ExitReason ctx = 1 then RecordEptViolation (mem_Gpa ctx)
      else if ExitReason ctx = 8 then GuestHaltedRecord (Reg64 (a_regs (arch v w1) Rax))
      else UnhandledExitRecord (ExitReason ctx))"
  have "record_step P cnt (w, eng) = Some (Inr None, (w1\<lparr>w_out := w_out w1 @ [m]\<rparr>, eng))"
    using no get_registers_ready [OF r1, of "[Rax]" "[0]"]
    by (auto simp: record_step_run [OF eng w1(1)] m_def cmd_simps on_fst_def)
  then show ?thesis
    using fr w1(3) by auto
qed

text \<open>An intercepted exit, once the registers have been set: log, count, move past it.\<close>

lemma record_tail:
  assumes rd: "ready v w" and adv: "abs_advance reject (overflow_checks P) len (arch v w) = Inr a'"
    and cnt: "overflow_checks P \<longrightarrow> unat cnt + 1 < 2 ^ 64"
  shows "\<exists>w'. thenE (record_log ev) (bindE (add_u64 (overflow_checks P) cnt 1) (\<lambda>cnt'.
      thenE (on_fst (record_advance_rip P v len)) (ret (Some cnt')))) (w, eng) =
      Some (Inr (Some (cnt + 1)), (w', eng\<lparr>re_logger := log_event ev (re_logger eng)\<rparr>))
    \<and> frame v w w' \<and> arch v w' = a'"
proof -
  obtain w' where w': "record_advance_rip P v len w = Some (Inr (), w')" "frame v w w'" "arch v w' = a'"
    using record_advance_rip_ready [OF rd adv] by blast
  have "add_u64 (overflow_checks P) cnt 1 = (ret (cnt + 1) :: ('h world \<times> RecordEngine, u64) cmd)"
    using cnt by (auto simp: add_u64_def)
  then show ?thesis
    using w' by (intro exI [of _ w']) (simp add: thenE_def bindE_def ret_def on_fst_def)
qed

lemma record_tail_refused:
  assumes rd: "ready v w"
    and adv: "(\<exists>e. abs_advance reject (overflow_checks P) len (arch v w) = Inl e) \<or>
      (overflow_checks P \<and> 2 ^ 64 \<le> unat cnt + 1)"
  shows "\<exists>e s'. thenE (record_log ev) (bindE (add_u64 (overflow_checks P) cnt 1) (\<lambda>cnt'.
      thenE (on_fst (record_advance_rip P v len)) (ret (Some cnt')))) (w, eng) = Some (Inl e, s')"
  using adv record_advance_rip_refused [OF rd]
  by (auto simp: thenE_def bindE_def add_u64_def on_fst_def ret_def raise_def)

lemma abs_answer_ok:
  assumes "abs_answer reject checks ctx ev a = Inr a2"
  obtains b where "abs_inject reject ev a = Inr b" and "abs_advance reject checks (abs_length ctx) b = Inr a2"
  using assms by (auto simp: abs_answer_def split: sum.splits)

text \<open>
  What the engine does after an exit that stands for \<open>ev\<close>, whichever of the three it is: set the
  registers the event determines, then log, count and move past the instruction.
\<close>

lemma record_step_inject:
  assumes rd: "ready v w1" and eng: "records_on p v eng"
    and w1: "VmRunner_run P (VmRunner_new p v) w = Some (Inr ctx, w1)"
    and ev: "abs_event ctx (arch v w1) = Some ev"
  shows "abs_inject reject ev (arch v w1) = Inr b \<Longrightarrow> \<exists>w2. frame v w1 w2 \<and> arch v w2 = b \<and>
      record_step P cnt (w, eng) =
        thenE (record_log \<lparr>instruction_count = cnt, event = ev\<rparr>)
          (bindE (add_u64 (overflow_checks P) cnt 1) (\<lambda>cnt'.
           thenE (on_fst (record_advance_rip P v (abs_length ctx))) (ret (Some cnt')))) (w2, eng)"
    and "abs_inject reject ev (arch v w1) = Inl e \<Longrightarrow> record_step P cnt (w, eng) = Some (Inl e, (w1, eng))"
proof -
  have "(abs_inject reject ev (arch v w1) = Inr b \<longrightarrow> (\<exists>w2. frame v w1 w2 \<and> arch v w2 = b \<and>
      record_step P cnt (w, eng) =
        thenE (record_log \<lparr>instruction_count = cnt, event = ev\<rparr>)
          (bindE (add_u64 (overflow_checks P) cnt 1) (\<lambda>cnt'.
           thenE (on_fst (record_advance_rip P v (abs_length ctx))) (ret (Some cnt')))) (w2, eng)))
    \<and> (abs_inject reject ev (arch v w1) = Inl e \<longrightarrow> record_step P cnt (w, eng) = Some (Inl e, (w1, eng)))"
  proof (cases "is_ContextSwitch ev")
    case True
    then have "ExitReason ctx = 4" "ev = ContextSwitch (ucast (Reg64 (a_regs (arch v w1) Rcx)))"
      using ev by (auto elim!: abs_event_cases simp: sim_cpuid_def sim_rdtsc_def)
    then show ?thesis
      using rd frame_refl [OF rd] get_registers_ready [OF rd, of "[Rcx]" "[0]"]
      by (auto simp: record_step_run [OF eng w1] record_on_vmcall_def abs_length_def abs_inject_def bindE_step on_fst_def)
  next
    case False
    note st = record_step_answer [OF eng w1 ev False]
    show ?thesis
    proof (intro conjI impI)
      assume "abs_inject reject ev (arch v w1) = Inr b"
      then obtain w2 where "set_registers P v (fst (answer_writes ev)) (snd (answer_writes ev)) w1 = Some (Inr (), w2)"
        "frame v w1 w2" "arch v w2 = b"
        using set_registers_ready [OF rd st(3)] unfolding st(2) by blast
      then show "\<exists>w2. frame v w1 w2 \<and> arch v w2 = b \<and>
          record_step P cnt (w, eng) =
            thenE (record_log \<lparr>instruction_count = cnt, event = ev\<rparr>)
              (bindE (add_u64 (overflow_checks P) cnt 1) (\<lambda>cnt'.
               thenE (on_fst (record_advance_rip P v (abs_length ctx))) (ret (Some cnt')))) (w2, eng)"
        unfolding st(1) by (intro exI [of _ w2]) (simp add: thenE_step on_fst_def)
    qed (use set_registers_refused [OF rd st(3)] in \<open>simp add: st(1,2) thenE_def bindE_def on_fst_def\<close>)
  qed
  then show "abs_inject reject ev (arch v w1) = Inr b \<Longrightarrow> \<exists>w2. frame v w1 w2 \<and> arch v w2 = b \<and>
      record_step P cnt (w, eng) =
        thenE (record_log \<lparr>instruction_count = cnt, event = ev\<rparr>)
          (bindE (add_u64 (overflow_checks P) cnt 1) (\<lambda>cnt'.
           thenE (on_fst (record_advance_rip P v (abs_length ctx))) (ret (Some cnt')))) (w2, eng)"
    "abs_inject reject ev (arch v w1) = Inl e \<Longrightarrow> record_step P cnt (w, eng) = Some (Inl e, (w1, eng))"
    by blast+
qed

lemma record_step_event:
  assumes rd: "ready v w" and eng: "records_on p v eng"
    and g: "guest (arch v w) = Some (Inr ctx, a1)" and ev: "abs_event ctx a1 = Some ev"
    and ans: "abs_answer reject (overflow_checks P) ctx ev a1 = Inr a2"
    and cnt: "overflow_checks P \<longrightarrow> unat cnt + 1 < 2 ^ 64"
  shows "\<exists>w'. record_step P cnt (w, eng) = Some (Inr (Some (cnt + 1)),
      (w', eng\<lparr>re_logger := log_event \<lparr>instruction_count = cnt, event = ev\<rparr> (re_logger eng)\<rparr>))
    \<and> frame v w w' \<and> arch v w' = a2"
proof -
  obtain w1 where w1: "VmRunner_run P (VmRunner_new p v) w = Some (Inr ctx, w1)" "frame v w w1" "arch v w1 = a1"
    using run_ready [OF rd _ g, of p] eng by (auto simp: records_on_def)
  obtain b where b: "abs_inject reject ev a1 = Inr b"
    "abs_advance reject (overflow_checks P) (abs_length ctx) b = Inr a2"
    using abs_answer_ok [OF ans] .
  obtain w2 where w2: "frame v w1 w2" "arch v w2 = b"
    and step: "record_step P cnt (w, eng) = thenE (record_log \<lparr>instruction_count = cnt, event = ev\<rparr>)
          (bindE (add_u64 (overflow_checks P) cnt 1) (\<lambda>cnt'.
           thenE (on_fst (record_advance_rip P v (abs_length ctx))) (ret (Some cnt')))) (w2, eng)"
    using record_step_inject(1) [OF frame_ready [OF w1(2)] eng w1(1)] ev b(1) w1(3) by blast
  show ?thesis
    using record_tail [OF frame_ready [OF w2(1)], of "abs_length ctx" a2 cnt "\<lparr>instruction_count = cnt, event = ev\<rparr>" eng]
      b(2) w2 w1(2) cnt keeps_trans unfolding step by blast
qed

text \<open>The engine fails, rather than stopping or going on, when an answer is refused.\<close>

lemma record_step_refused:
  assumes rd: "ready v w" and eng: "records_on p v eng"
    and g: "guest (arch v w) = Some (Inr ctx, a1)" and ev: "abs_event ctx a1 = Some ev"
    and bad: "(\<exists>e. abs_answer reject (overflow_checks P) ctx ev a1 = Inl e) \<or>
      (overflow_checks P \<and> 2 ^ 64 \<le> unat cnt + 1)"
  shows "\<exists>e s'. record_step P cnt (w, eng) = Some (Inl e, s')"
proof -
  obtain w1 where w1: "VmRunner_run P (VmRunner_new p v) w = Some (Inr ctx, w1)" "frame v w w1" "arch v w1 = a1"
    using run_ready [OF rd _ g, of p] eng by (auto simp: records_on_def)
  note inject = record_step_inject [OF frame_ready [OF w1(2)] eng w1(1), of ev]
  show ?thesis
  proof (cases "abs_inject reject ev a1")
    case (Inl e)
    then show ?thesis using inject(2) ev w1(3) by blast
  next
    case (Inr b)
    obtain w2 where w2: "frame v w1 w2" "arch v w2 = b"
      and step: "record_step P cnt (w, eng) = thenE (record_log \<lparr>instruction_count = cnt, event = ev\<rparr>)
          (bindE (add_u64 (overflow_checks P) cnt 1) (\<lambda>cnt'.
           thenE (on_fst (record_advance_rip P v (abs_length ctx))) (ret (Some cnt')))) (w2, eng)"
      using inject(1) ev Inr w1(3) by blast
    have "(\<exists>e. abs_advance reject (overflow_checks P) (abs_length ctx) (arch v w2) = Inl e) \<or>
        (overflow_checks P \<and> 2 ^ 64 \<le> unat cnt + 1)"
      using bad Inr w2(2) by (auto simp: abs_answer_def)
    then show ?thesis
      using record_tail_refused [OF frame_ready [OF w2(1)]] unfolding step by blast
  qed
qed

section \<open>The loop\<close>

lemma record_loop_complete:
  assumes "abs_record guest reject (overflow_checks P) n a es ctx a'"
    and "ready v w" and "arch v w = a" and "records_on p v eng"
  shows "\<exists>w' eng'. record_loop P n (w, eng) = Some (Inr (), (w', eng'))
    \<and> events (re_logger eng') = events (re_logger eng) @ es \<and> records_on p v eng'
    \<and> frame v w w' \<and> arch v w' = a'"
  using assms
proof (induction arbitrary: w eng rule: abs_record.induct)
  case (stop a ctx a' n)
  obtain w' where "record_step P n (w, eng) = Some (Inr None, (w', eng))" "frame v w w'" "arch v w' = a'"
    using record_step_stop [OF stop.prems(1,3)] stop.hyps stop.prems(2) by blast
  then show ?case
    using stop.prems(3) by (subst record_loop.simps) simp
next
  case (intercept a ctx a1 ev a2 n es ctx' a')
  let ?eng = "eng\<lparr>re_logger := log_event \<lparr>instruction_count = n, event = ev\<rparr> (re_logger eng)\<rparr>"
  obtain w1 where w1: "record_step P n (w, eng) = Some (Inr (Some (n + 1)), (w1, ?eng))"
    "frame v w w1" "arch v w1 = a2"
    using record_step_event [OF intercept.prems(1,3)] intercept.hyps(1-4) intercept.prems(2) by blast
  obtain w' eng' where "record_loop P (n + 1) (w1, ?eng) = Some (Inr (), (w', eng'))"
    "events (re_logger eng') = events (re_logger ?eng) @ es" "records_on p v eng'"
    "frame v w1 w'" "arch v w' = a'"
    using intercept.IH [OF frame_ready [OF w1(2)] w1(3), of ?eng] intercept.prems(3) by auto
  then show ?case
    using w1(1,2) keeps_trans by (subst record_loop.simps) auto
qed

lemma record_step_outcome:
  assumes rd: "ready v w" and eng: "records_on p v eng"
    and step: "record_step P n (w, eng) = Some (Inr res, (w1, eng1))"
  shows "\<exists>ctx a1. guest (arch v w) = Some (Inr ctx, a1) \<and> frame v w w1 \<and>
    (case res of
       None \<Rightarrow> abs_event ctx a1 = None \<and> eng1 = eng \<and> arch v w1 = a1
     | Some m \<Rightarrow> m = n + 1 \<and> (\<exists>ev. abs_event ctx a1 = Some ev \<and>
         abs_answer reject (overflow_checks P) ctx ev a1 = Inr (arch v w1) \<and>
         (overflow_checks P \<longrightarrow> unat n + 1 < 2 ^ 64) \<and>
         eng1 = eng\<lparr>re_logger := log_event \<lparr>instruction_count = n, event = ev\<rparr> (re_logger eng)\<rparr>))"
proof -
  have hp: "vp_handle p = vc_partition v" using eng by (simp add: records_on_def)
  have run: "\<exists>ctx u. VmRunner_run P (VmRunner_new p v) w = Some (Inr ctx, u)"
    using step eng by (auto simp: record_step_def records_on_def on_fst_def elim!: bindE_SomeD split: option.splits)
  obtain ctx a1 where g: "guest (arch v w) = Some (Inr ctx, a1)"
  proof (cases "guest (arch v w)")
    case None
    then show ?thesis using run_silent [OF rd hp] run by simp
  next
    case (Some r)
    then show ?thesis using that run_error [OF rd hp] run by (cases "fst r"; cases r) fastforce+
  qed
  show ?thesis
  proof (cases "abs_event ctx a1")
    case None
    then show ?thesis
      using record_step_stop [OF rd eng g None, of n] step g by auto
  next
    case (Some ev)
    have fine: "\<not> ((\<exists>e. abs_answer reject (overflow_checks P) ctx ev a1 = Inl e) \<or>
        (overflow_checks P \<and> 2 ^ 64 \<le> unat n + 1))"
      using record_step_refused [OF rd eng g Some, of n] step by auto
    then obtain a2 where a2: "abs_answer reject (overflow_checks P) ctx ev a1 = Inr a2"
      by (cases "abs_answer reject (overflow_checks P) ctx ev a1") auto
    have cnt: "overflow_checks P \<longrightarrow> unat n + 1 < 2 ^ 64" using fine by auto
    show ?thesis
      using record_step_event [OF rd eng g Some a2 cnt] step g Some a2 cnt by auto
  qed
qed

lemma record_loop_sound:
  assumes "record_loop P n (w, eng) = Some (Inr (), (w', eng'))"
    and "ready v w" and "records_on p v eng"
  shows "\<exists>es ctx. abs_record guest reject (overflow_checks P) n (arch v w) es ctx (arch v w')
    \<and> events (re_logger eng') = events (re_logger eng) @ es \<and> frame v w w'"
proof -
  have "record_runs P n (w, eng) (Inr (), (w', eng'))"
    using assms(1) by (simp add: record_loop_iff)
  then show ?thesis
    using assms(2,3)
  proof (induction n "(w, eng)" "(Inr () :: failure + unit, (w', eng'))" arbitrary: w eng
      rule: record_runs.induct)
    case (break n)
    then show ?case
      using record_step_outcome [OF break.prems break.hyps] by (auto intro: abs_record.stop)
  next
    case (continue n m t)
    obtain w1 eng1 where t: "t = (w1, eng1)" by (cases t)
    obtain ctx a1 ev where g: "guest (arch v w) = Some (Inr ctx, a1)" and fr: "frame v w w1"
      and ev: "m = n + 1" "abs_event ctx a1 = Some ev"
        "abs_answer reject (overflow_checks P) ctx ev a1 = Inr (arch v w1)"
        "overflow_checks P \<longrightarrow> unat n + 1 < 2 ^ 64"
      and eng1: "eng1 = eng\<lparr>re_logger := log_event \<lparr>instruction_count = n, event = ev\<rparr> (re_logger eng)\<rparr>"
      using record_step_outcome [OF continue.prems continue.hyps(1) [unfolded t]] by auto
    obtain es ctx' where es: "abs_record guest reject (overflow_checks P) m (arch v w1) es ctx' (arch v w')"
      "events (re_logger eng') = events (re_logger eng1) @ es" "frame v w1 w'"
      using continue.hyps(3) [OF t] frame_ready [OF fr] continue.prems(2) eng1 by auto
    have "abs_record guest reject (overflow_checks P) n (arch v w)
        (\<lparr>instruction_count = n, event = ev\<rparr> # es) ctx' (arch v w')"
      using g ev es(1) by (auto intro: abs_record.intercept)
    then show ?case
      using es(2,3) eng1 keeps_trans [OF fr es(3)] by auto
  qed
qed

end

end
