(* ===== verification/Replay_Correct.thy ===== *)
theory Replay_Correct
  imports Record_Correct
begin

text \<open>
  The replay engine against the abstract machine: an event that stands for the guest's next
  exit is answered exactly as the record engine answered it, so a recorded trace replays to the
  end and leaves the guest one run away from the recorded final state. An event that does not
  match is not detected in general: the loop runs the guest again and may never return.
\<close>

definition replays_on :: "VmPartition \<Rightarrow> Vcpu \<Rightarrow> ReplayEngine \<Rightarrow> bool" where
  "replays_on p v r \<longleftrightarrow> vp_handle p = vc_partition v \<and> rp_partition r = p \<and>
     hm_get (rp_vcpus r) (active_vcpu_id r) = Some v"

lemma replays_on_new [simp]:
  "vp_handle p = vc_partition v \<Longrightarrow> replays_on p v (register_vcpu i v (ReplayEngine_new p i))"
  by (simp add: replays_on_def register_vcpu_def ReplayEngine_new_def hm.get_insert)

lemma active_vcpu_ret: "replays_on p v r \<Longrightarrow> active_vcpu r = ret v"
  by (simp add: replays_on_def active_vcpu_def expect_some_def)

lemma replay_advance_rip_eq: "replays_on p v r \<Longrightarrow> replay_advance_rip P r len = record_advance_rip P v len"
  by (simp add: replay_advance_rip_def record_advance_rip_def active_vcpu_ret)

lemma drop_writes: "for_each ws (\<lambda>(gpa, data). write_guest_memory r gpa data) = ret ()"
  by (induction ws) (auto simp: write_guest_memory_def thenE_def)

text \<open>The loop as the finite sequences of its iterations.\<close>

inductive replay_runs ::
    "'h platform \<Rightarrow> ReplayEngine \<Rightarrow> TraceEvent \<Rightarrow> 'h world \<Rightarrow> (failure + unit) \<times> 'h world \<Rightarrow> bool"
  for P r ev where
  failed: "replay_step P r ev w = Some (Inl e, w') \<Longrightarrow> replay_runs P r ev w (Inl e, w')"
| break: "replay_step P r ev w = Some (Inr True, w') \<Longrightarrow> replay_runs P r ev w (Inr (), w')"
| again: "replay_step P r ev w = Some (Inr False, w') \<Longrightarrow> replay_runs P r ev w' res \<Longrightarrow>
    replay_runs P r ev w res"

lemma replay_event_iff: "replay_event P r ev w = Some res \<longleftrightarrow> replay_runs P r ev w res"
proof
  assume "replay_event P r ev w = Some res"
  then have "(\<lambda>(((P, r), ev), w) res. replay_runs P r ev w res) (((P, r), ev), w) res"
    by (rule replay_event.raw_induct [rotated])
      (auto split: option.splits sum.splits if_splits, erule replay_runs.failed,
        erule replay_runs.break, erule replay_runs.again, simp)
  then show "replay_runs P r ev w res" by simp
next
  assume "replay_runs P r ev w res"
  then show "replay_event P r ev w = Some res"
    by induction (simp_all add: replay_event.simps)
qed

lemma replay_event_step:
  "replay_step P r ev w = Some (Inr True, w') \<Longrightarrow> replay_event P r ev w = Some (Inr (), w')"
  by (simp add: replay_event_iff replay_runs.break)

text \<open>The line printed for an exit that does not fit the event, where one is printed.\<close>

definition mismatch_line :: "exit_context \<Rightarrow> EventType \<Rightarrow> (reg_name \<Rightarrow> reg_value) \<Rightarrow> message option" where
  "mismatch_line ctx ev rg =
    (if ExitReason ctx \<in> {1, 8} then Some (GuestHaltedReplay (Reg64 (rg Rax)))
     else if ExitReason ctx \<in> {4097, 4099} then None
     else if ExitReason ctx = 4 then
       (case ev of
          ContextSwitch t \<Rightarrow> if ucast (Reg64 (rg Rcx)) = t then None else Some (MismatchThread t (ucast (Reg64 (rg Rcx))))
        | _ \<Rightarrow> Some MismatchVmcall)
     else Some (UnhandledExitReplay (ExitReason ctx)))"

context whp_contract
begin

lemma inject_event_ready:
  assumes rd: "ready v w" and r: "replays_on p v r"
    and inj: "abs_inject reject (event ev) (arch v w) = Inr b"
  shows "\<exists>w'. inject_event P r ev w = Some (Inr (), w') \<and> frame v w w' \<and> arch v w' = b"
proof (cases "event ev")
  case (Syscall rax writes)
  have st: "abs_set reject [Rax] [mk_Reg64 rax] (arch v w) = Inr b"
    using inj Syscall by (simp add: abs_inject_def)
  show ?thesis
    using set_registers_ready [OF rd _ st] Syscall
    by (auto simp: inject_event_def active_vcpu_ret [OF r] drop_writes thenE_def bindE_def ret_def)
next
  case (Rdtsc rax rdx)
  have st: "abs_set reject [Rax, Rdx] [mk_Reg64 rax, mk_Reg64 rdx] (arch v w) = Inr b"
    using inj Rdtsc by (simp add: abs_inject_def)
  show ?thesis
    using set_registers_ready [OF rd _ st] Rdtsc by (simp add: inject_event_def active_vcpu_ret [OF r])
next
  case (Cpuid eax ebx ecx edx)
  have st: "abs_set reject [Rax, Rbx, Rcx, Rdx] [mk_Reg64 (ucast eax), mk_Reg64 (ucast ebx),
      mk_Reg64 (ucast ecx), mk_Reg64 (ucast edx)] (arch v w) = Inr b"
    using inj Cpuid by (simp add: abs_inject_def)
  show ?thesis
    using set_registers_ready [OF rd _ st] Cpuid by (simp add: inject_event_def active_vcpu_ret [OF r])
next
  case (ContextSwitch t)
  then show ?thesis
    using inj frame_refl [OF rd] by (simp add: inject_event_def active_vcpu_ret [OF r] abs_inject_def ret_def)
qed

lemma inject_advance_ready:
  assumes rd: "ready v w" and r: "replays_on p v r"
    and inj: "abs_inject reject (event ev) (arch v w) = Inr b"
    and adv: "abs_advance reject (overflow_checks P) len b = Inr a2"
  shows "\<exists>w'. thenE (inject_event P r ev) (thenE (replay_advance_rip P r len) (ret x)) w = Some (Inr x, w')
    \<and> frame v w w' \<and> arch v w' = a2"
proof -
  obtain w1 where w1: "inject_event P r ev w = Some (Inr (), w1)" "frame v w w1" "arch v w1 = b"
    using inject_event_ready [OF rd r inj] by blast
  obtain w2 where w2: "record_advance_rip P v len w1 = Some (Inr (), w2)" "frame v w1 w2" "arch v w2 = a2"
    using record_advance_rip_ready [OF frame_ready [OF w1(2)]] adv w1(3) by blast
  show ?thesis
    using w1 w2 keeps_trans [OF w1(2) w2(2)]
    by (intro exI [of _ w2]) (simp add: thenE_step replay_advance_rip_eq [OF r] ret_def)
qed

lemma replay_step_match:
  assumes rd: "ready v w" and r: "replays_on p v r"
    and g: "guest (arch v w) = Some (Inr ctx, a1)" and ev: "abs_event ctx a1 = Some (event ev)"
    and ans: "abs_answer reject (overflow_checks P) ctx (event ev) a1 = Inr a2"
  shows "\<exists>w'. replay_step P r ev w = Some (Inr True, w') \<and> frame v w w' \<and> arch v w' = a2"
proof -
  have hp: "vp_handle p = vc_partition v" using r by (simp add: replays_on_def)
  obtain w1 where w1: "VmRunner_run P (VmRunner_new p v) w = Some (Inr ctx, w1)" "frame v w w1" "arch v w1 = a1"
    using run_ready [OF rd hp g] by blast
  have r1: "ready v w1" using w1(2) by (rule frame_ready)
  have p: "rp_partition r = p" using r by (simp add: replays_on_def)
  obtain b where b: "abs_inject reject (event ev) (arch v w1) = Inr b"
    "abs_advance reject (overflow_checks P) (abs_length ctx) b = Inr a2"
    using abs_answer_ok [OF ans] unfolding w1(3) .
  obtain w2 where w2: "thenE (inject_event P r ev) (thenE (replay_advance_rip P r (abs_length ctx)) (ret True)) w1
      = Some (Inr True, w2)" "frame v w1 w2" "arch v w2 = a2"
    using inject_advance_ready [OF r1 r b, where x = True] by (elim exE conjE)
  have "replay_step P r ev w = Some (Inr True, w2)"
    using ev
  proof (cases rule: abs_event_cases)
    case cpuid
    then show ?thesis
      using w1(1) w2(1)
      by (simp add: replay_step_def active_vcpu_ret [OF r] bindE_step p sim_cpuid_def abs_length_def)
  next
    case rdtsc
    then show ?thesis
      using w1(1) w2(1)
      by (simp add: replay_step_def active_vcpu_ret [OF r] bindE_step p sim_rdtsc_def abs_length_def)
  next
    case vmcall
    then show ?thesis
      using w1 w2(1) get_registers_ready [OF r1, of "[Rcx]" "[0]"]
      by (simp add: replay_step_def active_vcpu_ret [OF r] bindE_step p abs_length_def)
  qed
  then show ?thesis
    using w2 w1(2) keeps_trans by blast
qed

text \<open>A recorded trace replays to its end, one event per exit.\<close>

lemma replay_trace:
  assumes "abs_record guest reject (overflow_checks P) n a es ctx a'"
    and "ready v w" and "arch v w = a" and "replays_on p v r"
  shows "\<exists>w'. for_each es (replay_event P r) w = Some (Inr (), w') \<and> frame v w w'
    \<and> guest (arch v w') = Some (Inr ctx, a')"
  using assms
proof (induction arbitrary: w rule: abs_record.induct)
  case (stop a ctx a' n)
  then show ?case
    using frame_refl by (auto simp: ret_def)
next
  case (intercept a ctx a1 ev a2 n es ctx' a')
  let ?ev = "\<lparr>instruction_count = n, event = ev\<rparr>"
  obtain w1 where w1: "replay_step P r ?ev w = Some (Inr True, w1)" "frame v w w1" "arch v w1 = a2"
    using replay_step_match [OF intercept.prems(1,3), of ctx a1 ?ev a2] intercept.hyps(1-3) intercept.prems(2)
    by auto
  obtain w' where "for_each es (replay_event P r) w1 = Some (Inr (), w')" "frame v w1 w'"
    "guest (arch v w') = Some (Inr ctx', a')"
    using intercept.IH [OF frame_ready [OF w1(2)] w1(3) intercept.prems(3)] by blast
  then show ?case
    using replay_event_step [OF w1(1)] w1(2) keeps_trans by (auto simp: thenE_step)
qed

section \<open>Events that do not match\<close>

text \<open>
  An exit that does not fit the event and is neither CPUID nor RDTSC is reported with one line, and
  the call returns success without moving the guest.
\<close>

lemma replay_event_mismatch:
  assumes rd: "ready v w" and r: "replays_on p v r"
    and g: "guest (arch v w) = Some (Inr ctx, a1)" and m: "mismatch_line ctx (event ev) (a_regs a1) = Some line"
  shows "\<exists>w'. replay_event P r ev w = Some (Inr (), w') \<and> frame v w w' \<and> arch v w' = a1 \<and> last (w_out w') = line"
proof -
  have p: "rp_partition r = p" and hp: "vp_handle p = vc_partition v"
    using r by (simp_all add: replays_on_def)
  obtain w1 where w1: "VmRunner_run P (VmRunner_new p v) w = Some (Inr ctx, w1)" "frame v w w1" "arch v w1 = a1"
    using run_ready [OF rd hp g] by blast
  let ?w = "w1\<lparr>w_out := w_out w1 @ [line]\<rparr>"
  have "get_registers P v [n] [0] w1 = Some (Inr [a_regs a1 n], w1)" for n
    using get_registers_ready [OF frame_ready [OF w1(2)], of "[n]" "[0]"] w1(3) by simp
  then have "replay_step P r ev w = Some (Inr True, ?w)"
    using w1(1) m unfolding replay_step_def active_vcpu_ret [OF r] bindE_ret p mismatch_line_def
    by (auto simp: bindE_step thenE_step println_def ret_def Let_def split: if_splits EventType.splits)
  moreover have "frame v w ?w"
    using keeps_trans [OF w1(2) frame_println [OF frame_ready [OF w1(2)]]] .
  ultimately show ?thesis
    using w1(3) by (auto dest: replay_event_step)
qed

lemma replay_event_halt:
  assumes "ready v w" and "replays_on p v r" and "guest (arch v w) = Some (Inr ctx, a1)" and "ExitReason ctx \<in> {1, 8}"
  shows "\<exists>w'. replay_event P r ev w = Some (Inr (), w') \<and> frame v w w' \<and> arch v w' = a1
    \<and> last (w_out w') = GuestHaltedReplay (Reg64 (a_regs a1 Rax))"
  by (rule replay_event_mismatch [OF assms(1-3)]) (use assms(4) in \<open>simp add: mismatch_line_def\<close>)

lemma replay_event_rdtsc:
  assumes rd: "ready v w" and r: "replays_on p v r"
    and g: "guest (arch v w) = Some (Inr ctx, a1)" "ExitReason ctx = 4099" and ev: "is_Rdtsc (event ev)"
    and inj: "abs_inject reject (event ev) a1 = Inr b"
    and adv: "abs_advance reject (overflow_checks P) (exit_instruction_length ctx) b = Inr a2"
  shows "\<exists>w'. replay_event P r ev w = Some (Inr (), w') \<and> frame v w w' \<and> arch v w' = a2"
proof -
  have hp: "vp_handle p = vc_partition v" "rp_partition r = p" using r by (simp_all add: replays_on_def)
  obtain w1 where w1: "VmRunner_run P (VmRunner_new p v) w = Some (Inr ctx, w1)" "frame v w w1" "arch v w1 = a1"
    using run_ready [OF rd hp(1) g(1)] by blast
  obtain w2 where w2: "thenE (inject_event P r ev) (thenE (replay_advance_rip P r (exit_instruction_length ctx)) (ret True)) w1
      = Some (Inr True, w2)" "frame v w1 w2" "arch v w2 = a2"
    using inject_advance_ready [OF frame_ready [OF w1(2)] r, of ev b "exit_instruction_length ctx" a2 True] inj adv
    unfolding w1(3) by blast
  have "replay_step P r ev w = Some (Inr True, w2)"
    using w1(1) w2(1) g(2) ev by (simp add: replay_step_def active_vcpu_ret [OF r] bindE_step hp(2))
  then show ?thesis
    using replay_event_step keeps_trans [OF w1(2) w2(2)] w2(3) by blast
qed

text \<open>
  A CPUID or RDTSC exit for another kind of event: the engine runs the guest again without
  having changed anything. If the guest repeats the exit, as a processor whose instruction
  pointer still points at the instruction does, \<open>replay_event\<close> never returns.
\<close>

lemma replay_step_again:
  assumes rd: "ready v w" and r: "replays_on p v r"
    and g: "guest (arch v w) = Some (Inr ctx, a1)"
    and ne: "ExitReason ctx = 4097 \<and> \<not> is_Cpuid (event ev) \<or> ExitReason ctx = 4099 \<and> \<not> is_Rdtsc (event ev)"
  shows "\<exists>w1. replay_step P r ev w = Some (Inr False, w1) \<and> ready v w1 \<and> arch v w1 = a1"
proof -
  have p: "rp_partition r = p" and hp: "vp_handle p = vc_partition v"
    using r by (simp_all add: replays_on_def)
  obtain w1 where w1: "VmRunner_run P (VmRunner_new p v) w = Some (Inr ctx, w1)" "frame v w w1" "arch v w1 = a1"
    using run_ready [OF rd hp g] by blast
  have "replay_step P r ev w = Some (Inr False, w1)"
    using w1(1) ne by (auto simp: replay_step_def active_vcpu_ret [OF r] bindE_step p ret_def)
  then show ?thesis
    using w1(3) frame_ready [OF w1(2)] by blast
qed

lemma replay_event_stuck:
  assumes "ready v w" and r: "replays_on p v r" and "arch v w = a"
    and g: "guest a = Some (Inr ctx, a)"
    and ne: "ExitReason ctx = 4097 \<and> \<not> is_Cpuid (event ev) \<or> ExitReason ctx = 4099 \<and> \<not> is_Rdtsc (event ev)"
  shows "replay_event P r ev w = None"
proof (rule ccontr)
  assume "replay_event P r ev w \<noteq> None"
  then obtain res where "replay_runs P r ev w res"
    by (auto simp: replay_event_iff)
  then show False
    using assms(1,3)
  proof (induction rule: replay_runs.induct)
    case (failed w e w')
    then show ?case using replay_step_again [OF failed.prems(1) r _ ne] g by force
  next
    case (break w w')
    then show ?case using replay_step_again [OF break.prems(1) r _ ne] g by force
  next
    case (again w w' res)
    then show ?case using replay_step_again [OF again.prems(1) r _ ne] g by force
  qed
qed

text \<open>
  No exit leads to the injection of a system call: whatever such an event says, the guest goes on as
  it would alone, for as many exits as the call takes.
\<close>

lemma run_returns:
  assumes rd: "ready v w" and hp: "vp_handle p = vc_partition v"
    and run: "VmRunner_run P (VmRunner_new p v) w = Some (Inr ctx, w')"
  obtains a where "guest (arch v w) = Some (Inr ctx, a)"
proof (cases "guest (arch v w)")
  case None
  then show ?thesis using run_silent [OF rd hp] run by simp
next
  case (Some y)
  obtain x a where y: "y = (x, a)" by (cases y)
  show ?thesis
  proof (cases x)
    case (Inl e)
    then show ?thesis using run_error [OF rd hp] run Some y by fastforce
  next
    case (Inr c)
    then have "c = ctx" using run_ready [OF rd hp] run Some y by fastforce
    then show ?thesis using that Some y Inr by simp
  qed
qed

definition guest_step :: "'x arch \<Rightarrow> 'x arch \<Rightarrow> bool" where
  "guest_step a a' \<longleftrightarrow> (\<exists>ctx. guest a = Some (Inr ctx, a'))"

lemma replay_step_syscall:
  assumes rd: "ready v w" and r: "replays_on p v r" and ev: "event ev = Syscall rax writes"
    and run: "replay_step P r ev w = Some (Inr b, w')"
  shows "ready v w' \<and> guest_step (arch v w) (arch v w')"
proof -
  have hp: "vp_handle p = vc_partition v" "rp_partition r = p" using r by (simp_all add: replays_on_def)
  obtain ctx wr where "VmRunner_run P (VmRunner_new p v) w = Some (Inr ctx, wr)"
    using run unfolding replay_step_def active_vcpu_ret [OF r] bindE_ret hp(2) by (elim bindE_SomeD)
  then obtain a1 where g: "guest (arch v w) = Some (Inr ctx, a1)"
    by (rule run_returns [OF rd hp(1)])
  obtain w1 where w1: "VmRunner_run P (VmRunner_new p v) w = Some (Inr ctx, w1)" "frame v w w1" "arch v w1 = a1"
    using run_ready [OF rd hp(1) g] by blast
  have "get_registers P v [Rax] [0] w1 = Some (Inr [a_regs a1 Rax], w1)"
    using get_registers_ready [OF frame_ready [OF w1(2)], of "[Rax]" "[0]"] w1(3) by simp
  then have "\<exists>out. w' = w1\<lparr>w_out := out\<rparr> \<or> w' = w1"
    using run w1(1) ev unfolding replay_step_def active_vcpu_ret [OF r] bindE_ret hp(2)
    by (auto simp: bindE_step thenE_step println_def ret_def split: if_splits)
  then show ?thesis
    using frame_ready [OF w1(2)] g w1(3) by (auto simp: guest_step_def)
qed

lemma replay_event_syscall:
  assumes "ready v w" and r: "replays_on p v r" and ev: "event ev = Syscall rax writes"
    and "replay_event P r ev w = Some (Inr (), w')"
  shows "guest_step\<^sup>+\<^sup>+ (arch v w) (arch v w')"
proof -
  have "replay_runs P r ev w (Inr (), w')" using assms(4) by (simp add: replay_event_iff)
  then show ?thesis
    using assms(1)
  proof (induction w "(Inr () :: failure + unit, w')" rule: replay_runs.induct)
    case (break w)
    then show ?case using replay_step_syscall [OF _ r ev] by blast
  next
    case (again w w1)
    then show ?case using replay_step_syscall [OF again.prems r ev again.hyps(1)] by (meson tranclp_into_tranclp2)
  qed
qed

end

end
