(* ===== verification/Whp_Boot.thy ===== *)
theory Whp_Boot
  imports Replay_Correct
begin

text \<open>
  What the command line relies on of the hypervisor before a guest runs: creating and setting up
  a partition, choosing the interceptions, mapping memory, creating a virtual processor. The
  locale \<open>whp_boot\<close> extends \<open>whp_contract\<close> with these laws. Guest memory is described by
  \<open>mem_matches\<close>: the bytes of the regions, at the addresses of the regions, and nothing else.
\<close>

section \<open>Mappings and regions\<close>

text \<open>\<open>WHvMapGpaRange\<close> replaces what was mapped at the addresses of the new range.\<close>

definition map_range :: "gpa_map \<Rightarrow> ptr \<Rightarrow> u64 \<Rightarrow> u64 \<Rightarrow> u32 \<Rightarrow> gpa_map" where
  "map_range m p gpa sz fl g = (if gpa \<le> g \<and> g - gpa < sz then Some (p, unat (g - gpa), fl) else m g)"

definition layout_ok :: "(u64 \<Rightarrow> nat option) \<Rightarrow> bool" where
  "layout_ok S \<longleftrightarrow>
     (\<forall>g n. S g = Some n \<longrightarrow> 0 < n \<and> unat g mod 4096 = 0 \<and> n mod 4096 = 0 \<and> unat g + n \<le> 2 ^ 64) \<and>
     (\<forall>g g' n n'. S g = Some n \<longrightarrow> S g' = Some n' \<longrightarrow> g \<noteq> g' \<longrightarrow>
        unat g + n \<le> unat g' \<or> unat g' + n' \<le> unat g)"

definition maps_regions :: "gpa_map \<Rightarrow> (u64 \<Rightarrow> (ptr \<times> nat) option) \<Rightarrow> bool" where
  "maps_regions m R \<longleftrightarrow>
     (\<forall>g p n i. R g = Some (p, n) \<longrightarrow> i < n \<longrightarrow> m (g + of_nat i) = Some (p, i, 7)) \<and>
     (\<forall>a t. m a = Some t \<longrightarrow>
        (\<exists>g p n i. R g = Some (p, n) \<and> i < n \<and> a = g + of_nat i \<and> t = (p, i, 7)))"

definition mem_matches :: "(u64 \<Rightarrow> (u8 \<times> u32) option) \<Rightarrow> (u64 \<Rightarrow> u8 list option) \<Rightarrow> bool" where
  "mem_matches m C \<longleftrightarrow>
     (\<forall>g bs i. C g = Some bs \<longrightarrow> i < length bs \<longrightarrow> m (g + of_nat i) = Some (bs ! i, 7)) \<and>
     (\<forall>a t. m a = Some t \<longrightarrow> (\<exists>g bs i. C g = Some bs \<and> i < length bs \<and> a = g + of_nat i))"

lemma mem_matchesD:
  "mem_matches m C \<Longrightarrow> C g = Some bs \<Longrightarrow> i < length bs \<Longrightarrow> m (g + of_nat i) = Some (bs ! i, 7)"
  unfolding mem_matches_def by blast

lemma maps_regionsD:
  "maps_regions m R \<Longrightarrow> R g = Some (p, n) \<Longrightarrow> i < n \<Longrightarrow> m (g + of_nat i) = Some (p, i, 7)"
  unfolding maps_regions_def by blast

lemma mem_matches_unique:
  assumes "mem_matches m C" and "mem_matches m' C"
  shows "m = m'"
proof
  fix a
  show "m a = m' a"
    using assms unfolding mem_matches_def by (cases "m a"; cases "m' a") (metis option.distinct(1))+
qed

lemma mem_matches_content:
  assumes "mem_matches m C" and "mem_matches m C'"
    and len: "\<And>g. map_option length (C g) = map_option length (C' g)"
  shows "C = C'"
proof
  fix g
  show "C g = C' g"
  proof (cases "C g")
    case None
    then show ?thesis using len [of g] by simp
  next
    case (Some bs)
    then obtain bs' where C': "C' g = Some bs'" "length bs' = length bs"
      using len [of g] by (cases "C' g") auto
    have "bs ! i = bs' ! i" if "i < length bs" for i
    proof -
      have "m (g + of_nat i) = Some (bs ! i, 7)" "m (g + of_nat i) = Some (bs' ! i, 7)"
        using mem_matchesD [OF assms(1) Some that] mem_matchesD [OF assms(2) C'(1), of i] C'(2) that by simp_all
      then show ?thesis by simp
    qed
    then show ?thesis using Some C' by (simp add: list_eq_iff_nth_eq)
  qed
qed

lemma maps_regions_mem:
  assumes "maps_regions m R"
    and "\<And>g p n. R g = Some (p, n) \<Longrightarrow> \<exists>bs. heap_content hp p = Some bs \<and> length bs = n"
  shows "mem_matches (guest_mem hp m) (\<lambda>g. case R g of None \<Rightarrow> None | Some (p, n) \<Rightarrow> heap_content hp p)"
proof -
  have 1: "guest_mem hp m (g + of_nat i) = Some (bs ! i, 7)"
    if "R g = Some (p, n)" "heap_content hp p = Some bs" "i < length bs" for g p n bs i
  proof -
    have "length bs = n" using assms(2) [OF that(1)] that(2) by simp
    then have "m (g + of_nat i) = Some (p, i, 7)"
      using maps_regionsD [OF assms(1) that(1)] that(3) by simp
    then show ?thesis using that by (simp add: guest_mem_def heap_byte_def)
  qed
  have 2: "\<exists>g p n bs i. R g = Some (p, n) \<and> heap_content hp p = Some bs \<and> i < length bs \<and> a = g + of_nat i"
    if at: "guest_mem hp m a = Some t" for a t
  proof -
    obtain u where "m a = Some u" using at by (auto simp: guest_mem_def split: option.splits)
    then obtain g p n i where g: "R g = Some (p, n)" "i < n" "a = g + of_nat i"
      using assms(1) unfolding maps_regions_def by blast
    then show ?thesis using assms(2) [OF g(1)] by blast
  qed
  show ?thesis
    unfolding mem_matches_def
  proof (intro conjI allI impI)
    fix a t
    assume "guest_mem hp m a = Some t"
    then obtain g p n bs i where "R g = Some (p, n)" "heap_content hp p = Some bs" "i < length bs" "a = g + of_nat i"
      using 2 by blast
    then show "\<exists>g bs i. (case R g of None \<Rightarrow> None | Some (p, n) \<Rightarrow> heap_content hp p) = Some bs
        \<and> i < length bs \<and> a = g + of_nat i"
      by (intro exI [of _ g] exI [of _ bs] exI [of _ i]) simp
  qed (auto simp: 1 split: option.splits)
qed

lemma in_range_iff:
  fixes a gpa sz :: u64
  assumes "unat gpa + unat sz \<le> 2 ^ 64"
  shows "gpa \<le> a \<and> a - gpa < sz \<longleftrightarrow> (\<exists>i < unat sz. a = gpa + of_nat i)"
proof
  assume a: "gpa \<le> a \<and> a - gpa < sz"
  then have "unat (a - gpa) < unat sz" "a = gpa + of_nat (unat (a - gpa))"
    by (simp_all add: word_less_nat_alt)
  then show "\<exists>i < unat sz. a = gpa + of_nat i" by blast
next
  assume "\<exists>i < unat sz. a = gpa + of_nat i"
  then obtain i where i: "i < unat sz" "a = gpa + of_nat i" by blast
  have u: "unat (of_nat i :: u64) = i"
    using i(1) unsigned_less [of sz, where ?'a = nat] by (simp add: unat_of_nat)
  have "unat a = unat gpa + i"
    using assms i u by (simp add: unat_word_ariths)
  then show "gpa \<le> a \<and> a - gpa < sz"
    using i u by (simp add: word_le_nat_alt word_less_nat_alt)
qed

lemma layout_ok_addr:
  assumes "layout_ok S" and "S g = Some n" and "S g' = Some n'" and "i < n" and "i' < n'"
    and eq: "g + of_nat i = g' + of_nat i'"
  shows "g = g' \<and> i = i'"
proof -
  have a: "unat (h + of_nat j) = unat h + j" if "S h = Some k" "j < k" for h j k
  proof -
    have "unat h + k \<le> 2 ^ 64" using assms(1) that(1) by (simp add: layout_ok_def)
    then show ?thesis using that(2) by (simp add: unat_word_ariths unat_of_nat)
  qed
  have "unat g + i = unat g' + i'"
    using a [OF assms(2,4)] a [OF assms(3,5)] eq by simp
  moreover have "g = g' \<or> unat g + n \<le> unat g' \<or> unat g' + n' \<le> unat g"
    using assms(1-3) unfolding layout_ok_def by blast
  ultimately show ?thesis using assms(4,5) by auto
qed

lemma maps_regions_insert:
  assumes mr: "maps_regions m R" and lo: "layout_ok S"
    and S: "S = (\<lambda>g. map_option snd ((R(gpa \<mapsto> (p, unat sz))) g))" and new: "R gpa = None"
  shows "maps_regions (map_range m p gpa sz 7) (R(gpa \<mapsto> (p, unat sz)))"
proof -
  have fit: "unat gpa + unat sz \<le> 2 ^ 64" and S0: "S gpa = Some (unat sz)"
    using lo S by (auto simp: layout_ok_def)
  have old: "S g = Some n \<and> g \<noteq> gpa" if "R g = Some (q, n)" for g q n
    using that new by (auto simp: S)
  have out: "\<not> (gpa \<le> g + of_nat i \<and> g + of_nat i - gpa < sz)" if "R g = Some (q, n)" "i < n" for g q n i
    using layout_ok_addr [OF lo S0, of g n _ i] old [OF that(1)] that(2)
    unfolding in_range_iff [OF fit] by metis
  have inside: "map_range m p gpa sz 7 (gpa + of_nat i) = Some (p, i, 7)" if "i < unat sz" for i
  proof -
    have "unat (of_nat i :: u64) = i"
      using that unsigned_less [of sz, where ?'a = nat] by (simp add: unat_of_nat)
    moreover have "gpa \<le> gpa + of_nat i \<and> gpa + of_nat i - gpa < sz"
      unfolding in_range_iff [OF fit] using that by blast
    ultimately show ?thesis by (simp add: map_range_def)
  qed
  have "map_range m p gpa sz 7 (g + of_nat i) = Some (q, i, 7)"
    if "(R(gpa \<mapsto> (p, unat sz))) g = Some (q, n)" "i < n" for g q n i
  proof (cases "g = gpa")
    case True
    then show ?thesis using that inside by auto
  next
    case False
    then have "R g = Some (q, n)" using that(1) by simp
    then show ?thesis
      using out [of g q n i] that(2) maps_regionsD [OF mr, of g q n i] unfolding map_range_def by auto
  qed
  moreover have "\<exists>g q n i. (R(gpa \<mapsto> (p, unat sz))) g = Some (q, n) \<and> i < n \<and> a = g + of_nat i \<and> t = (q, i, 7)"
    if at: "map_range m p gpa sz 7 a = Some t" for a t
  proof (cases "gpa \<le> a \<and> a - gpa < sz")
    case True
    then obtain i where i: "i < unat sz" "a = gpa + of_nat i"
      unfolding in_range_iff [OF fit] by blast
    then show ?thesis using at inside [OF i(1)] by (intro exI [of _ gpa] exI [of _ p] exI [of _ "unat sz"] exI [of _ i]) simp
  next
    case False
    then have "m a = Some t" using at by (auto simp: map_range_def)
    then obtain g q n i where "R g = Some (q, n)" "i < n" "a = g + of_nat i" "t = (q, i, 7)"
      using mr unfolding maps_regions_def by blast
    then show ?thesis using new by (intro exI [of _ g] exI [of _ q] exI [of _ n] exI [of _ i]) auto
  qed
  ultimately show ?thesis unfolding maps_regions_def by blast
qed

section \<open>The laws\<close>

text \<open>
  \<^item> \<open>room h\<close>: another partition can be created;
  \<^item> \<open>created h p\<close>: \<open>p\<close> has been created and not set up; \<open>idle h p\<close>: it is set up and has no
    virtual processor;
  \<^item> \<open>regs0\<close>, \<open>rest0\<close>: the state of a new virtual processor.
\<close>

locale whp_boot = whp_contract P live regs gpas exits rest reject guest
  for P :: "'h platform" and live and regs and gpas and exits
    and rest :: "'h \<Rightarrow> handle \<Rightarrow> u32 \<Rightarrow> 'x" and reject and guest +
  fixes room :: "'h \<Rightarrow> bool" and created :: "'h \<Rightarrow> handle \<Rightarrow> bool" and idle :: "'h \<Rightarrow> handle \<Rightarrow> bool"
    and regs0 :: "reg_name \<Rightarrow> reg_value" and rest0 :: 'x
  assumes create: "room h \<Longrightarrow> \<exists>p h'. WHvCreatePartition P h = (Inr p, h') \<and> created h' p \<and> gpas h' p = (\<lambda>_. None)"
    and set_count: "created h p \<Longrightarrow> \<exists>h'. WHvSetPartitionProperty P p (ProcessorCount 4) h = (Inr (), h')
        \<and> created h' p \<and> gpas h' p = gpas h p"
    and set_up: "created h p \<Longrightarrow> \<exists>h'. WHvSetupPartition P p h = (Inr (), h') \<and> idle h' p \<and> gpas h' p = gpas h p"
    and set_exits: "idle h p \<Longrightarrow> \<exists>h'. WHvSetPartitionProperty P p (ExtendedVmExits x) h = (Inr (), h')
        \<and> idle h' p \<and> gpas h' p = gpas h p \<and> exits h' p = x"
    and map_idle: "idle h p \<Longrightarrow> sz \<noteq> 0 \<Longrightarrow> unat gpa mod 4096 = 0 \<Longrightarrow> unat sz mod 4096 = 0 \<Longrightarrow>
        unat gpa + unat sz \<le> 2 ^ 64 \<Longrightarrow> q \<notin> mapped_ptrs (gpas h p) \<Longrightarrow>
        \<exists>h'. WHvMapGpaRange P p q gpa sz fl h = (Inr (), h') \<and> idle h' p
          \<and> gpas h' p = map_range (gpas h p) q gpa sz fl \<and> exits h' p = exits h p"
    and map_live: "live h p i \<Longrightarrow> sz \<noteq> 0 \<Longrightarrow> unat gpa mod 4096 = 0 \<Longrightarrow> unat sz mod 4096 = 0 \<Longrightarrow>
        unat gpa + unat sz \<le> 2 ^ 64 \<Longrightarrow> q \<notin> mapped_ptrs (gpas h p) \<Longrightarrow>
        \<exists>h'. WHvMapGpaRange P p q gpa sz fl h = (Inr (), h') \<and> live h' p i
          \<and> gpas h' p = map_range (gpas h p) q gpa sz fl \<and> exits h' p = exits h p
          \<and> regs h' p i = regs h p i \<and> rest h' p i = rest h p i"
    and create_vp: "idle h p \<Longrightarrow> \<exists>h'. WHvCreateVirtualProcessor P p i 0 h = (Inr (), h') \<and> live h' p i
        \<and> gpas h' p = gpas h p \<and> exits h' p = exits h p \<and> regs h' p i = regs0 \<and> rest h' p i = rest0"
    and write_back: "live h p i \<Longrightarrow> reject ns (map (regs h p i) ns) = None"
begin

lemma partition_ready:
  assumes "room (w_hv w)"
  shows "\<exists>p w'. bindE (VmPartition_new P) (\<lambda>p. thenE (configure_interceptions P p) (ret p)) w = Some (Inr p, w')
    \<and> w' = w\<lparr>w_hv := w_hv w'\<rparr> \<and> idle (w_hv w') (vp_handle p) \<and> gpas (w_hv w') (vp_handle p) = (\<lambda>_. None)
    \<and> exits (w_hv w') (vp_handle p) = intercept_mask"
proof -
  obtain p h1 where h1: "WHvCreatePartition P (w_hv w) = (Inr p, h1)" "created h1 p" "gpas h1 p = (\<lambda>_. None)"
    using create [OF assms] by blast
  obtain h2 where h2: "WHvSetPartitionProperty P p (ProcessorCount 4) h1 = (Inr (), h2)" "created h2 p"
    "gpas h2 p = gpas h1 p"
    using set_count [OF h1(2)] by blast
  obtain h3 where h3: "WHvSetupPartition P p h2 = (Inr (), h3)" "idle h3 p" "gpas h3 p = gpas h2 p"
    using set_up [OF h2(2)] by blast
  obtain h4 where h4: "WHvSetPartitionProperty P p (ExtendedVmExits intercept_mask) h3 = (Inr (), h4)"
    "idle h4 p" "gpas h4 p = gpas h3 p" "exits h4 p = intercept_mask"
    using set_exits [OF h3(2)] by blast
  show ?thesis
    using h1 h2 h3 h4
    by (intro exI [of _ "\<lparr>vp_handle = p\<rparr>"] exI [of _ "w\<lparr>w_hv := h4\<rparr>"])
      (simp add: VmPartition_new_def configure_interceptions_def cmd_simps)
qed

lemma map_gpa_range_idle:
  assumes "idle (w_hv w) p" and "sz \<noteq> 0" and "unat gpa mod 4096 = 0" and "unat sz mod 4096 = 0"
    and "unat gpa + unat sz \<le> 2 ^ 64" and "q \<notin> mapped_ptrs (gpas (w_hv w) p)"
  shows "\<exists>w'. map_gpa_range P (EptManager_new p) gpa q sz fl w = Some (Inr (), w')
    \<and> w' = w\<lparr>w_hv := w_hv w'\<rparr> \<and> idle (w_hv w') p
    \<and> gpas (w_hv w') p = map_range (gpas (w_hv w) p) q gpa sz fl \<and> exits (w_hv w') p = exits (w_hv w) p"
proof -
  obtain h' where "WHvMapGpaRange P p q gpa sz fl (w_hv w) = (Inr (), h')" "idle h' p"
    "gpas h' p = map_range (gpas (w_hv w) p) q gpa sz fl" "exits h' p = exits (w_hv w) p"
    using map_idle [OF assms, of fl] by blast
  then show ?thesis
    by (intro exI [of _ "w\<lparr>w_hv := h'\<rparr>"]) (simp add: map_gpa_range_def EptManager_new_def cmd_simps)
qed

lemma map_gpa_range_live:
  assumes "live (w_hv w) p i" and "sz \<noteq> 0" and "unat gpa mod 4096 = 0" and "unat sz mod 4096 = 0"
    and "unat gpa + unat sz \<le> 2 ^ 64" and "q \<notin> mapped_ptrs (gpas (w_hv w) p)"
  shows "\<exists>w'. map_gpa_range P (EptManager_new p) gpa q sz fl w = Some (Inr (), w')
    \<and> w' = w\<lparr>w_hv := w_hv w'\<rparr> \<and> live (w_hv w') p i
    \<and> gpas (w_hv w') p = map_range (gpas (w_hv w) p) q gpa sz fl \<and> exits (w_hv w') p = exits (w_hv w) p
    \<and> regs (w_hv w') p i = regs (w_hv w) p i \<and> rest (w_hv w') p i = rest (w_hv w) p i"
proof -
  obtain h' where "WHvMapGpaRange P p q gpa sz fl (w_hv w) = (Inr (), h')" "live h' p i"
    "gpas h' p = map_range (gpas (w_hv w) p) q gpa sz fl" "exits h' p = exits (w_hv w) p"
    "regs h' p i = regs (w_hv w) p i" "rest h' p i = rest (w_hv w) p i"
    using map_live [OF assms, of fl] by blast
  then show ?thesis
    by (intro exI [of _ "w\<lparr>w_hv := h'\<rparr>"]) (simp add: map_gpa_range_def EptManager_new_def cmd_simps)
qed

lemma Vcpu_new_idle:
  assumes "idle (w_hv w) p"
  shows "\<exists>w'. Vcpu_new P p i w = Some (Inr \<lparr>vc_partition = p, vc_index = i\<rparr>, w')
    \<and> w' = w\<lparr>w_hv := w_hv w'\<rparr> \<and> live (w_hv w') p i \<and> gpas (w_hv w') p = gpas (w_hv w) p
    \<and> exits (w_hv w') p = exits (w_hv w) p \<and> regs (w_hv w') p i = regs0 \<and> rest (w_hv w') p i = rest0"
proof -
  obtain h' where "WHvCreateVirtualProcessor P p i 0 (w_hv w) = (Inr (), h')" "live h' p i"
    "gpas h' p = gpas (w_hv w) p" "exits h' p = exits (w_hv w) p" "regs h' p i = regs0" "rest h' p i = rest0"
    using create_vp [OF assms, of i] by blast
  then show ?thesis
    by (intro exI [of _ "w\<lparr>w_hv := h'\<rparr>"]) (simp add: Vcpu_new_def cmd_simps)
qed

end

end
