(* ===== verification/Host_Accounting.thy ===== *)
theory Host_Accounting
  imports Pe_Loader Vmm_Paging
begin

text \<open>
  What the loader and the page tables do to the rest of host memory: stores go to one allocation
  and never change what the allocator has left, so only the allocations count.
\<close>

definition only_at :: "ptr \<Rightarrow> (heap, 'a) cmd \<Rightarrow> bool" where
  "only_at p m \<longleftrightarrow> (\<forall>hp r hp'. m hp = Some (r, hp') \<longrightarrow>
     same_shape hp hp' \<and> (\<forall>q. q \<noteq> p \<longrightarrow> h_blocks hp' q = h_blocks hp q))"

lemma only_at_write: "only_at p (heap_write p off xs)"
  unfolding only_at_def
proof (intro allI impI)
  fix hp r hp'
  assume run: "heap_write p off xs hp = Some (r, hp')"
  show "same_shape hp hp' \<and> (\<forall>q. q \<noteq> p \<longrightarrow> h_blocks hp' q = h_blocks hp q)"
  proof (cases r)
    case (Inl e)
    then show ?thesis using run by (auto simp: heap_write_def split: option.splits)
  next
    case (Inr u)
    then show ?thesis using heap_write_shape [of p off xs hp hp'] run by auto
  qed
qed

lemma only_at_basic:
  "only_at p (ret x)" "only_at p (raise e)" "only_at p (ptr_add q off)" "only_at p (heap_write p off xs)"
  by (auto simp: only_at_def ret_def raise_def ptr_add_def split: option.splits) (use only_at_write [of p off xs] in \<open>auto simp: only_at_def\<close>)

lemma only_at_bindE: "only_at p m \<Longrightarrow> (\<And>x. only_at p (f x)) \<Longrightarrow> only_at p (bindE m f)"
  unfolding only_at_def bindE_def by (fastforce split: option.splits sum.splits intro: same_shape_trans)

lemma only_at_thenE: "only_at p m \<Longrightarrow> only_at p n \<Longrightarrow> only_at p (thenE m n)"
  unfolding thenE_def by (rule only_at_bindE)

lemma only_at_for_each: "(\<And>x. only_at p (f x)) \<Longrightarrow> only_at p (for_each xs f)"
  by (induction xs) (simp_all add: only_at_basic only_at_thenE)

lemma only_at_section: "only_at q (map_section bytes q s)"
  unfolding map_section_def copy_from_slice_def Let_def by (simp add: only_at_basic only_at_thenE)

lemma alloc_zeroed_frame:
  "alloc_zeroed l hp = Some (Inr p, hp') \<Longrightarrow> p \<noteq> 0 \<Longrightarrow>
     h_avail hp' + unat (l_size l) = h_avail hp \<and> p = h_next hp \<and> (\<forall>q. q \<noteq> p \<longrightarrow> h_blocks hp' q = h_blocks hp q)"
  by (auto simp: alloc_zeroed_def split: if_splits)

lemma fresh_frame:
  assumes "heap_inv hp" and "\<forall>q. q \<noteq> h_next hp \<longrightarrow> h_blocks hp' q = h_blocks hp q" and "heap_content hp q \<noteq> None"
  shows "h_blocks hp' q = h_blocks hp q"
  using assms heap_content_fresh [OF assms(1)] by metis

lemma map_into_memory_steps:
  assumes run: "map_into_memory l hp = Some (Inr (q, sz), hp')"
  obtains hp1 where "alloc_zeroed \<lparr>l_size = aligned_size l, l_align = 4096\<rparr> hp = Some (Inr q, hp1)" and "q \<noteq> 0"
    and "same_shape hp1 hp'" and "\<And>p. p \<noteq> q \<Longrightarrow> h_blocks hp' p = h_blocks hp1 p"
proof -
  obtain hp1 where a: "alloc_zeroed \<lparr>l_size = aligned_size l, l_align = 4096\<rparr> hp = Some (Inr q, hp1)" "q \<noteq> 0"
    and f: "for_each (pe_sections (pl_pe l)) (map_section (raw_bytes l) q) hp1 = Some (Inr (), hp')"
    using run unfolding map_into_memory_def aligned_layout
    by (elim bindE_SomeD thenE_SomeD) (auto simp: expect_some_def ret_Inr assert_that_def raise_def split: if_splits)
  have "only_at q (for_each (pe_sections (pl_pe l)) (map_section (raw_bytes l) q))"
    by (intro only_at_for_each only_at_section)
  then have "same_shape hp1 hp' \<and> (\<forall>p. p \<noteq> q \<longrightarrow> h_blocks hp' p = h_blocks hp1 p)"
    using f unfolding only_at_def by blast
  then show thesis
    using that [OF a] by blast
qed

lemma map_into_memory_frame:
  assumes inv: "heap_inv hp" and run: "map_into_memory l hp = Some (Inr (q, sz), hp')"
  shows "h_avail hp' + unat (aligned_size l) = h_avail hp
    \<and> (\<forall>p. heap_content hp p \<noteq> None \<longrightarrow> h_blocks hp' p = h_blocks hp p)"
proof -
  obtain hp1 where a: "alloc_zeroed \<lparr>l_size = aligned_size l, l_align = 4096\<rparr> hp = Some (Inr q, hp1)" "q \<noteq> 0"
    and st: "same_shape hp1 hp'" "\<And>p. p \<noteq> q \<Longrightarrow> h_blocks hp' p = h_blocks hp1 p"
    using map_into_memory_steps [OF run] by blast
  have "h_avail hp' = h_avail hp1" using st(1) by (simp add: same_shape_def)
  then show ?thesis
    using alloc_zeroed_frame [OF a] fresh_frame [OF inv, of hp'] st(2) by auto
qed

text \<open>The same on the whole world.\<close>

definition world_only_at :: "ptr \<Rightarrow> ('h world, 'a) cmd \<Rightarrow> bool" where
  "world_only_at p m \<longleftrightarrow> (\<forall>w r w'. m w = Some (r, w') \<longrightarrow>
     same_shape (w_heap w) (w_heap w') \<and> (\<forall>q. q \<noteq> p \<longrightarrow> h_blocks (w_heap w') q = h_blocks (w_heap w) q))"

lemma world_only_on_heap: "only_at p m \<Longrightarrow> world_only_at p (on_heap m)"
  by (auto simp: only_at_def world_only_at_def on_heap_def split: option.splits)

lemma world_only_bindE:
  "world_only_at p m \<Longrightarrow> (\<And>x. world_only_at p (f x)) \<Longrightarrow> world_only_at p (bindE m f)"
  unfolding world_only_at_def bindE_def by (fastforce split: option.splits sum.splits intro: same_shape_trans)

lemma world_only_thenE: "world_only_at p m \<Longrightarrow> world_only_at p n \<Longrightarrow> world_only_at p (thenE m n)"
  unfolding thenE_def by (rule world_only_bindE)

lemma world_only_basic: "world_only_at p (ret x)" "world_only_at p (add_u64 c a b)"
  by (auto simp: world_only_at_def ret_def add_u64_def raise_def)

lemma world_only_for_each: "(\<And>x. world_only_at p (f x)) \<Longrightarrow> world_only_at p (for_each xs f)"
  by (induction xs) (simp_all add: world_only_basic world_only_thenE)

lemma world_only_store: "world_only_at p (on_heap (write_u64 p off v))" "world_only_at p (on_heap (ptr_add q off))"
  by (simp_all add: world_only_on_heap only_at_basic write_u64_def)

lemma create_identity_mapping_steps:
  assumes run: "create_identity_mapping P base w = Some (Inr t, w')" and room: "12288 \<le> h_avail (w_heap w)"
    and inv: "heap_inv (w_heap w)"
  obtains hp1 where "alloc_zeroed \<lparr>l_size = 12288, l_align = 4096\<rparr> (w_heap w) = Some (Inr (pt_host_ptr t), hp1)"
    and "pt_host_ptr t \<noteq> 0" and "same_shape hp1 (w_heap w')"
    and "\<And>q. q \<noteq> pt_host_ptr t \<Longrightarrow> h_blocks (w_heap w') q = h_blocks hp1 q"
proof -
  let ?l = "\<lparr>l_size = 12288, l_align = 4096\<rparr> :: layout" and ?p = "h_next (w_heap w)"
  obtain hp1 where a: "alloc_zeroed ?l (w_heap w) = Some (Inr ?p, hp1)" "?p \<noteq> 0"
    using alloc_zeroed_fresh [OF inv, of ?l] room by auto
  let ?rest = "\<lambda>p. thenE (on_heap (ptr_add p 4096)) (thenE (on_heap (ptr_add p 8192))
    (bindE (add_u64 (overflow_checks P) base 4096) (\<lambda>pdpt_gpa.
     thenE (on_heap (write_u64 p 0 (pdpt_gpa OR 0x3)))
    (bindE (add_u64 (overflow_checks P) base 8192) (\<lambda>pd_gpa.
     thenE (on_heap (write_u64 p 4096 (pd_gpa OR 0x3)))
    (thenE (for_each [0..<512] (\<lambda>i. on_heap (write_u64 p (8192 + 8 * i) ((of_nat i * 0x200000) OR 0x83))))
    (ret \<lparr>pml4_gpa = base, pt_host_ptr = p, pt_size = 4096 * 3\<rparr>)))))))"
  have "world_only_at ?p (?rest ?p)"
    by (intro world_only_thenE world_only_bindE world_only_for_each world_only_basic world_only_store)
  moreover have "?rest ?p (w\<lparr>w_heap := hp1\<rparr>) = Some (Inr t, w')"
    using run a(1) unfolding create_identity_mapping_def Layout_page_tables
    by (simp add: expect_some_def bindE_step on_heap_def)
  moreover from this have "pt_host_ptr t = ?p"
    by (elim bindE_SomeD thenE_SomeD) (auto simp: ret_Inr)
  ultimately show thesis
    using that [of hp1] a unfolding world_only_at_def by fastforce
qed

lemma create_identity_mapping_frame:
  assumes run: "create_identity_mapping P base w = Some (Inr t, w')" and room: "12288 \<le> h_avail (w_heap w)"
    and inv: "heap_inv (w_heap w)"
  shows "h_avail (w_heap w') + 12288 = h_avail (w_heap w)
    \<and> (\<forall>q. heap_content (w_heap w) q \<noteq> None \<longrightarrow> h_blocks (w_heap w') q = h_blocks (w_heap w) q)"
proof -
  obtain hp1 where a: "alloc_zeroed \<lparr>l_size = 12288, l_align = 4096\<rparr> (w_heap w) = Some (Inr (pt_host_ptr t), hp1)"
      "pt_host_ptr t \<noteq> 0"
    and st: "same_shape hp1 (w_heap w')" "\<And>q. q \<noteq> pt_host_ptr t \<Longrightarrow> h_blocks (w_heap w') q = h_blocks hp1 q"
    using create_identity_mapping_steps [OF assms] by blast
  have "h_avail (w_heap w') = h_avail hp1" using st(1) by (simp add: same_shape_def)
  then show ?thesis
    using alloc_zeroed_frame [OF a] fresh_frame [OF inv, of "w_heap w'"] st(2) by auto
qed

end
