(* ===== verification/Cli_Layout.thy ===== *)
theory Cli_Layout
  imports Cli Whp_Boot Host_Accounting
begin

text \<open>
  The guest's memory as \<open>record\<close> lays it out: the four regions, the condition under which they do
  not overlap, and the facts about capturing and mapping them that the two commands share.
\<close>

section \<open>What a successful call says\<close>

lemma AlignedMemory_new_inv:
  assumes "AlignedMemory_new sz hp = Some (Inr m, hp')"
  shows "sz \<noteq> 0 \<and> unat sz \<le> 2 ^ 63 - 4096 \<and> unat sz \<le> h_avail hp"
proof -
  have "sz \<noteq> 0" using assms AlignedMemory_new_zero [of hp] by auto
  moreover have "unat sz \<le> 2 ^ 63 - 4096"
    using assms by (auto simp: AlignedMemory_new_def expect_some_def Layout_from_size_align_def raise_def split: if_splits)
  ultimately show ?thesis
    using assms Layout_4096 [of sz]
    by (auto simp: AlignedMemory_new_def alloc_zeroed_def cmd_simps split: if_splits)
qed

lemma copy_nonoverlapping_inv:
  assumes "copy_nonoverlapping p q n hp = Some (Inr (), hp')" and "0 < n"
  shows "p \<noteq> q \<and> (\<exists>bs. heap_content hp p = Some bs \<and> n \<le> length bs)"
proof -
  have pq: "p \<noteq> q" using assms by (auto simp: copy_nonoverlapping_def raise_def)
  then have "\<exists>bs. heap_read p 0 n hp = Some (Inr bs, hp)"
    using assms(1) by (auto simp: copy_nonoverlapping_def bindE_def heap_read_def split: option.splits)
  then show ?thesis
    using pq by (auto simp: heap_read_def access_fault_def heap_content_def split: option.splits if_splits)
qed

lemma capture_region_sound:
  assumes inv: "heap_inv hp" and snap: "snap_inv hp snap"
    and fresh: "hm_get (memory_regions snap) gpa = None"
    and run: "capture_region gpa p sz snap hp = Some (Inr snap', hp')"
  shows "\<exists>bs. heap_content hp p = Some bs \<and> unat sz \<le> length bs \<and> sz \<noteq> 0 \<and> unat sz \<le> 2 ^ 63 - 4096
    \<and> heap_inv hp' \<and> snap_inv hp' snap' \<and> registers snap' = registers snap
    \<and> hm_keys (memory_regions snap') = hm_keys (memory_regions snap) @ [gpa]
    \<and> region_bytes hp' snap' = (region_bytes hp snap)(gpa \<mapsto> take (unat sz) bs)
    \<and> snap_ptrs snap' \<subseteq> snap_ptrs snap \<union> {q. heap_content hp q = None}
    \<and> (\<forall>q. heap_content hp q \<noteq> None \<longrightarrow> h_blocks hp' q = h_blocks hp q)"
proof -
  obtain m hp1 where new: "AlignedMemory_new sz hp = Some (Inr m, hp1)"
    using run by (auto simp: capture_region_def elim: bindE_SomeD)
  have sz: "sz \<noteq> 0" "unat sz \<le> 2 ^ 63 - 4096" "unat sz \<le> h_avail hp"
    using AlignedMemory_new_inv [OF new] by auto
  then have m: "am_ptr m = h_next hp" and bl: "\<And>q. q \<noteq> h_next hp \<Longrightarrow> h_blocks hp1 q = h_blocks hp q"
    using AlignedMemory_new_ok [OF inv sz] new by auto
  obtain hp2 where "copy_nonoverlapping p (am_ptr m) (unat sz) hp1 = Some (Inr (), hp2)"
    using run new by (auto simp: capture_region_def bindE_def thenE_def split: option.splits sum.splits)
  then have c: "p \<noteq> h_next hp" "\<exists>bs. heap_content hp1 p = Some bs \<and> unat sz \<le> length bs"
    using copy_nonoverlapping_inv [of p "am_ptr m" "unat sz" hp1 hp2] sz(1) m by (auto simp: unat_gt_0)
  then obtain bs where bs: "heap_content hp p = Some bs" "unat sz \<le> length bs"
    using bl by (auto simp: heap_content_def)
  show ?thesis
    using capture_region_ok [OF inv snap fresh bs sz] run bs sz by auto
qed

section \<open>Regions in host memory\<close>

type_synonym regions = "u64 \<Rightarrow> (ptr \<times> nat) option"

definition regions_in :: "heap \<Rightarrow> regions \<Rightarrow> bool" where
  "regions_in hp R \<longleftrightarrow> (\<forall>g p n. R g = Some (p, n) \<longrightarrow> (\<exists>bs. heap_content hp p = Some bs \<and> length bs = n))"

definition content_of :: "heap \<Rightarrow> regions \<Rightarrow> u64 \<Rightarrow> u8 list option" where
  "content_of hp R g = (case R g of None \<Rightarrow> None | Some (p, n) \<Rightarrow> heap_content hp p)"

definition sizes :: "regions \<Rightarrow> u64 \<Rightarrow> nat option" where
  "sizes R g = map_option snd (R g)"

definition region_ptrs :: "regions \<Rightarrow> ptr set" where
  "region_ptrs R = {p. \<exists>g n. R g = Some (p, n)}"

lemma sizes_upd [simp]: "sizes (R(g \<mapsto> (p, n))) = (sizes R)(g \<mapsto> n)"
  by (auto simp: sizes_def)

lemma layout_okD:
  "layout_ok S \<Longrightarrow> S g = Some n \<Longrightarrow>
     0 < n \<and> unat g mod 4096 = 0 \<and> n mod 4096 = 0 \<and> unat g + n \<le> 2 ^ 64"
  unfolding layout_ok_def by blast

lemma layout_ok_submap: "layout_ok S \<Longrightarrow> S' \<subseteq>\<^sub>m S \<Longrightarrow> layout_ok S'"
  unfolding layout_ok_def map_le_def by (metis domIff option.distinct(1))

lemma region_ptrs_upd: "region_ptrs (R(g \<mapsto> (p, n))) \<subseteq> insert p (region_ptrs R)"
  by (auto simp: region_ptrs_def split: if_splits)

lemma mapped_ptrs_regions: "maps_regions m R \<Longrightarrow> mapped_ptrs m \<subseteq> region_ptrs R"
  unfolding maps_regions_def mapped_ptrs_def region_ptrs_def by blast

lemma regions_in_mem:
  "maps_regions m R \<Longrightarrow> regions_in hp R \<Longrightarrow> mem_matches (guest_mem hp m) (content_of hp R)"
  using maps_regions_mem [of m R hp] by (simp add: regions_in_def content_of_def [abs_def])

lemma regions_in_content: "regions_in hp R \<Longrightarrow> map_option length (content_of hp R g) = sizes R g"
  by (fastforce simp: regions_in_def content_of_def sizes_def split: option.splits)

lemma regions_in_shape:
  assumes "same_shape hp hp'" and "regions_in hp R"
  shows "regions_in hp' R"
  unfolding regions_in_def
proof (intro allI impI)
  fix g p n
  assume "R g = Some (p, n)"
  then obtain bs where "heap_content hp p = Some bs" "length bs = n"
    using assms(2) unfolding regions_in_def by blast
  then show "\<exists>bs. heap_content hp' p = Some bs \<and> length bs = n"
    using same_shape_length [OF assms(1), of p] by auto
qed

lemma regions_in_frame:
  assumes "regions_in hp R" and "\<And>q. heap_content hp q \<noteq> None \<Longrightarrow> h_blocks hp' q = h_blocks hp q"
  shows "regions_in hp' R" and "content_of hp' R = content_of hp R"
proof -
  have c: "heap_content hp' p = heap_content hp p" if "R g = Some (p, n)" for g p n
  proof -
    have "heap_content hp p \<noteq> None" using assms(1) that by (fastforce simp: regions_in_def)
    then show ?thesis using assms(2) [of p] by (simp add: heap_content_def)
  qed
  show "regions_in hp' R"
    using assms(1) c by (auto simp: regions_in_def)
  show "content_of hp' R = content_of hp R"
    using c by (auto simp: content_of_def fun_eq_iff split: option.splits)
qed

lemma fresh_not_region: "regions_in hp R \<Longrightarrow> heap_content hp q = None \<Longrightarrow> q \<notin> region_ptrs R"
  by (fastforce simp: regions_in_def region_ptrs_def)

context whp_boot
begin

lemma map_step_idle:
  assumes "idle (w_hv w) h" and m: "maps_regions (gpas (w_hv w) h) R" and lo: "layout_ok (sizes (R(gpa \<mapsto> (q, unat sz))))"
    and new: "R gpa = None" and q: "q \<notin> region_ptrs R"
  shows "\<exists>w'. map_gpa_range P (EptManager_new h) gpa q sz 7 w = Some (Inr (), w')
    \<and> w' = w\<lparr>w_hv := w_hv w'\<rparr> \<and> idle (w_hv w') h
    \<and> maps_regions (gpas (w_hv w') h) (R(gpa \<mapsto> (q, unat sz))) \<and> exits (w_hv w') h = exits (w_hv w) h"
proof -
  have sz: "0 < unat sz" "unat gpa mod 4096 = 0" "unat sz mod 4096 = 0" "unat gpa + unat sz \<le> 2 ^ 64"
    using layout_okD [OF lo, of gpa "unat sz"] by simp_all
  have "q \<notin> mapped_ptrs (gpas (w_hv w) h)"
    using mapped_ptrs_regions [OF m] q by blast
  then obtain w' where "map_gpa_range P (EptManager_new h) gpa q sz 7 w = Some (Inr (), w')"
    "w' = w\<lparr>w_hv := w_hv w'\<rparr>" "idle (w_hv w') h" "gpas (w_hv w') h = map_range (gpas (w_hv w) h) q gpa sz 7"
    "exits (w_hv w') h = exits (w_hv w) h"
    using map_gpa_range_idle [OF assms(1) _ sz(2-4), of q 7] sz(1) by (auto simp: unat_gt_0)
  then show ?thesis
    using maps_regions_insert [OF m lo _ new] by (auto simp: sizes_def [abs_def])
qed

lemma map_step_live:
  assumes "live (w_hv w) h i" and m: "maps_regions (gpas (w_hv w) h) R" and lo: "layout_ok (sizes (R(gpa \<mapsto> (q, unat sz))))"
    and new: "R gpa = None" and q: "q \<notin> region_ptrs R"
  shows "\<exists>w'. map_gpa_range P (EptManager_new h) gpa q sz 7 w = Some (Inr (), w')
    \<and> w' = w\<lparr>w_hv := w_hv w'\<rparr> \<and> live (w_hv w') h i
    \<and> maps_regions (gpas (w_hv w') h) (R(gpa \<mapsto> (q, unat sz))) \<and> exits (w_hv w') h = exits (w_hv w) h
    \<and> regs (w_hv w') h i = regs (w_hv w) h i \<and> rest (w_hv w') h i = rest (w_hv w) h i"
proof -
  have sz: "0 < unat sz" "unat gpa mod 4096 = 0" "unat sz mod 4096 = 0" "unat gpa + unat sz \<le> 2 ^ 64"
    using layout_okD [OF lo, of gpa "unat sz"] by simp_all
  have "q \<notin> mapped_ptrs (gpas (w_hv w) h)"
    using mapped_ptrs_regions [OF m] q by blast
  then obtain w' where "map_gpa_range P (EptManager_new h) gpa q sz 7 w = Some (Inr (), w')"
    "w' = w\<lparr>w_hv := w_hv w'\<rparr>" "live (w_hv w') h i" "gpas (w_hv w') h = map_range (gpas (w_hv w) h) q gpa sz 7"
    "exits (w_hv w') h = exits (w_hv w) h" "regs (w_hv w') h i = regs (w_hv w) h i"
    "rest (w_hv w') h i = rest (w_hv w) h i"
    using map_gpa_range_live [OF assms(1) _ sz(2-4), of q 7] sz(1) by (auto simp: unat_gt_0)
  then show ?thesis
    using maps_regions_insert [OF m lo _ new] by (auto simp: sizes_def [abs_def])
qed

end

section \<open>The layout\<close>

definition layout_regions :: "guest_layout \<Rightarrow> regions" where
  "layout_regions gl =
    [base_gpa \<mapsto> (gl_image gl, unat (gl_image_size gl)),
     gl_stack_base gl \<mapsto> (am_ptr (gl_stack gl), unat stack_size),
     0 \<mapsto> (am_ptr (gl_null gl), 4096),
     pt_gpa \<mapsto> (pt_host_ptr (gl_tables gl), unat (pt_size (gl_tables gl)))]"

text \<open>An image of at most \<open>0xF0000\<close> bytes leaves room for the stack below the page tables.\<close>

lemma layout_push:
  assumes "layout_ok S" and below: "\<forall>g n. S g = Some n \<longrightarrow> unat g + n \<le> unat h"
    and "0 < k" and "unat h mod 4096 = 0" and "k mod 4096 = 0" and "unat h + k \<le> 2 ^ 64"
  shows "layout_ok (S(h \<mapsto> k))" and "\<forall>g n. (S(h \<mapsto> k)) g = Some n \<longrightarrow> unat g + n \<le> unat h + k"
proof -
  show "layout_ok (S(h \<mapsto> k))"
    unfolding layout_ok_def
  proof (intro conjI allI impI)
    fix g m assume "(S(h \<mapsto> k)) g = Some m"
    then show "0 < m" "unat g mod 4096 = 0" "m mod 4096 = 0" "unat g + m \<le> 2 ^ 64"
      using assms(3-6) layout_okD [OF assms(1), of g m] by (auto split: if_splits)
  next
    fix g g' m m'
    assume a: "(S(h \<mapsto> k)) g = Some m" "(S(h \<mapsto> k)) g' = Some m'" "g \<noteq> g'"
    consider "g = h" "S g' = Some m'" | "g' = h" "S g = Some m" | "S g = Some m" "S g' = Some m'"
      using a by (auto split: if_splits)
    then show "unat g + m \<le> unat g' \<or> unat g' + m' \<le> unat g"
    proof cases
      case 3
      then show ?thesis using assms(1) a(3) unfolding layout_ok_def by blast
    qed (use below in auto)
  qed
  show "\<forall>g n. (S(h \<mapsto> k)) g = Some n \<longrightarrow> unat g + n \<le> unat h + k"
    using below by (auto split: if_splits) (meson le_add1 order_trans)
qed

lemma layout_disjoint:
  assumes sz: "0 < unat sz" "unat sz \<le> 0xF0000" "unat sz mod 4096 = 0" and sb: "sb = base_gpa + sz"
  shows "layout_ok [base_gpa \<mapsto> unat sz, sb \<mapsto> unat stack_size, 0 \<mapsto> 4096, pt_gpa \<mapsto> 12288]"
    and "distinct [base_gpa, sb, 0, pt_gpa]"
proof -
  have u: "unat sb = 0x100000 + unat sz"
    using sz(2) by (simp add: sb base_gpa_def unat_word_ariths)
  have n: "unat base_gpa = 0x100000" "unat pt_gpa = 0x200000" "unat stack_size = 0x10000"
    by (simp_all add: base_gpa_def pt_gpa_def stack_size_def)
  show d: "distinct [base_gpa, sb, 0, pt_gpa]"
    using sz u n by (auto simp: word_unat_eq_iff)
  have m: "unat sb mod 4096 = 0"
    using sz(3) u mod_mult_self3 [of 256 4096 "unat sz"] by simp
  have Z: "layout_ok [0 \<mapsto> 4096]" "\<forall>g n. [0 \<mapsto> 4096] g = Some n \<longrightarrow> unat (g :: u64) + n \<le> unat base_gpa"
    by (simp_all add: layout_ok_def n)
  have 1: "layout_ok [0 \<mapsto> 4096, base_gpa \<mapsto> unat sz]"
      "\<forall>g m. [0 \<mapsto> 4096, base_gpa \<mapsto> unat sz] g = Some m \<longrightarrow> unat g + m \<le> unat sb"
    using layout_push [OF Z, of "unat sz"] sz unfolding n u by (simp_all del: fun_upd_apply)
  have 2: "layout_ok [0 \<mapsto> 4096, base_gpa \<mapsto> unat sz, sb \<mapsto> unat stack_size]"
      "\<forall>g m. [0 \<mapsto> 4096, base_gpa \<mapsto> unat sz, sb \<mapsto> unat stack_size] g = Some m \<longrightarrow>
         unat g + m \<le> unat sb + unat stack_size"
    using layout_push [OF 1, of "unat stack_size"] sz m unfolding n u by (simp_all del: fun_upd_apply)
  have "unat sb + unat stack_size \<le> unat pt_gpa"
    using sz(2) unfolding n u by simp
  then have "\<forall>g m. [0 \<mapsto> 4096, base_gpa \<mapsto> unat sz, sb \<mapsto> unat stack_size] g = Some m \<longrightarrow> unat g + m \<le> unat pt_gpa"
    using 2(2) order_trans by blast
  then have 3: "layout_ok [0 \<mapsto> 4096, base_gpa \<mapsto> unat sz, sb \<mapsto> unat stack_size, pt_gpa \<mapsto> 12288]"
    by (rule layout_push(1) [OF 2(1)]) (simp_all add: n)
  moreover have "[0 \<mapsto> 4096, base_gpa \<mapsto> unat sz, sb \<mapsto> unat stack_size, pt_gpa \<mapsto> (12288::nat)] =
      [base_gpa \<mapsto> unat sz, sb \<mapsto> unat stack_size, 0 \<mapsto> 4096, pt_gpa \<mapsto> 12288]"
    using d by (auto simp: fun_eq_iff)
  ultimately show "layout_ok [base_gpa \<mapsto> unat sz, sb \<mapsto> unat stack_size, 0 \<mapsto> 4096, pt_gpa \<mapsto> 12288]"
    by simp
qed

lemma create_identity_mapping_inv:
  assumes inv: "heap_inv (w_heap w)" and run: "create_identity_mapping P pt_gpa w = Some (Inr t, w')"
  shows "pt_size t = 12288 \<and> w' = w\<lparr>w_heap := w_heap w'\<rparr> \<and> heap_inv (w_heap w')
    \<and> heap_content (w_heap w) (pt_host_ptr t) = None
    \<and> length (table_bytes pt_gpa) = 12288
    \<and> heap_content (w_heap w') = (heap_content (w_heap w))(pt_host_ptr t \<mapsto> table_bytes pt_gpa)"
proof -
  have "12288 \<le> h_avail (w_heap w)"
    using run create_identity_mapping_oom [of w P pt_gpa] by (cases "h_avail (w_heap w) < 12288") auto
  then obtain w2 q bs where "create_identity_mapping P pt_gpa w =
      Some (Inr \<lparr>pml4_gpa = pt_gpa, pt_host_ptr = q, pt_size = 4096 * 3\<rparr>, w2)"
    "w2 = w\<lparr>w_heap := w_heap w2\<rparr>" "heap_inv (w_heap w2)" "heap_content (w_heap w) q = None"
    "heap_content (w_heap w2) = (heap_content (w_heap w))(q \<mapsto> bs)"
    "length bs = 12288" "\<forall>k < 1536. entry bs k = identity_entry pt_gpa k"
    using create_identity_mapping_ok [OF inv, of pt_gpa P] by (auto simp: pt_gpa_def)
  moreover from this have "bs = table_bytes pt_gpa" by (intro table_bytes_unique)
  ultimately show ?thesis using run by simp
qed

lemma regions_in_alloc:
  assumes "regions_in hp R" and "heap_content hp' = (heap_content hp)(q \<mapsto> bs)" and "heap_content hp q = None"
  shows "regions_in hp' (R(g \<mapsto> (q, length bs)))" and "regions_in hp' R"
proof -
  have "\<exists>cs. heap_content hp' p = Some cs \<and> length cs = n" if r: "R h = Some (p, n)" for h p n
  proof -
    obtain cs where "heap_content hp p = Some cs" "length cs = n"
      using assms(1) r unfolding regions_in_def by blast
    then show ?thesis using assms(2,3) by auto
  qed
  then show "regions_in hp' R" "regions_in hp' (R(g \<mapsto> (q, length bs)))"
    using assms(2) by (auto simp: regions_in_def)
qed

lemma content_of_alloc:
  assumes R: "regions_in hp R" and "heap_content hp' = (heap_content hp)(q \<mapsto> bs)" and q: "heap_content hp q = None"
  shows "content_of hp' (R(g \<mapsto> (q, n))) = (content_of hp R)(g \<mapsto> bs)"
proof
  fix h
  have "p \<noteq> q" if "R h = Some (p, m)" for p m
    using fresh_not_region [OF R q] that by (auto simp: region_ptrs_def)
  then show "content_of hp' (R(g \<mapsto> (q, n))) h = ((content_of hp R)(g \<mapsto> bs)) h"
    using assms(2) by (cases "R h") (auto simp: content_of_def)
qed

lemma stack_base_value:
  assumes "unat sz \<le> 0xF0000" and "unat sz mod 4096 = 0"
  shows "add_u64 c sz 0xFFF = ret (sz + 0xFFF)" and "(sz + 0xFFF) AND NOT 0xFFF = sz"
    and "add_u64 c base_gpa sz = ret (base_gpa + sz)"
proof -
  show "add_u64 c sz 0xFFF = ret (sz + 0xFFF)" "add_u64 c base_gpa sz = ret (base_gpa + sz)"
    using assms by (simp_all add: base_gpa_def)
  have "unat (sz + 0xFFF) = unat sz + 4095"
    using assms by (simp add: unat_word_ariths)
  moreover have "(unat sz + 4095) div 4096 * 4096 = unat sz"
    using assms(2) by (auto elim!: dvdE simp: dvd_eq_mod_eq_0 [symmetric])
  ultimately have "unat ((sz + 0xFFF) AND - 4096) = unat sz"
    by (simp add: and_not_4095)
  then show "(sz + 0xFFF) AND NOT 0xFFF = sz"
    by (simp add: word_unat_eq_iff)
qed

lemma map_gpa_range_hv: "map_gpa_range P e g q sz fl w = Some (r, w') \<Longrightarrow> w_heap w' = w_heap w"
  by (auto simp: map_gpa_range_def call_hv_def split: prod.splits sum.splits)

lemma AlignedMemory_new_avail:
  assumes "heap_inv hp" and "AlignedMemory_new sz hp = Some (Inr m, hp')"
  shows "h_avail hp' + unat sz = h_avail hp \<and> heap_inv hp'"
  using AlignedMemory_new_ok [OF assms(1), of sz] AlignedMemory_new_inv [OF assms(2)] assms(2) by auto

lemma map_guest_memory_room:
  assumes run: "map_guest_memory P vm q sz w = Some (Inr gl, w')" and inv: "heap_inv (w_heap w)"
  shows "0x14000 \<le> h_avail (w_heap w)"
proof -
  have "\<exists>w4 st hp2 nl. AlignedMemory_new stack_size (w_heap w) = Some (Inr st, hp2)
      \<and> AlignedMemory_new 0x1000 hp2 = Some (Inr nl, w_heap w4)
      \<and> (\<exists>t w5. create_identity_mapping P pt_gpa w4 = Some (Inr t, w5))"
    using run unfolding map_guest_memory_def Let_def
    by (elim bindE_SomeD thenE_SomeD) (auto simp: add_u64_Inr dest!: map_gpa_range_hv, blast+)
  then obtain w4 st hp2 nl t w5 where c: "AlignedMemory_new stack_size (w_heap w) = Some (Inr st, hp2)"
    "AlignedMemory_new 0x1000 hp2 = Some (Inr nl, w_heap w4)" "create_identity_mapping P pt_gpa w4 = Some (Inr t, w5)"
    by blast
  note a2 = AlignedMemory_new_avail [OF inv c(1)]
  note a4 = AlignedMemory_new_avail [OF conjunct2 [OF a2] c(2)]
  have "12288 \<le> h_avail (w_heap w4)"
    using c(3) create_identity_mapping_oom [of w4 P pt_gpa] by (cases "h_avail (w_heap w4) < 12288") auto
  then show ?thesis
    using a2 a4 by (simp add: stack_size_def)
qed

lemma maps_nothing: "maps_regions (\<lambda>_. None) Map.empty"
  by (simp add: maps_regions_def)

lemma sizes_empty [simp]: "sizes Map.empty = Map.empty"
  by (simp add: sizes_def fun_eq_iff)

lemma layout_ok_prefix:
  assumes lo: "layout_ok [a \<mapsto> k, b \<mapsto> l, c \<mapsto> m, d \<mapsto> n]" and "distinct [a, b, c, d]"
  shows "layout_ok [a \<mapsto> k]" and "layout_ok [a \<mapsto> k, b \<mapsto> l]" and "layout_ok [a \<mapsto> k, b \<mapsto> l, c \<mapsto> m]"
  by (rule layout_ok_submap [OF lo], use assms(2) in \<open>auto simp: map_le_def\<close>)+

context whp_boot
begin

text \<open>Allocating a buffer and mapping it.\<close>

lemma alloc_map_step:
  assumes idle: "idle (w_hv w) h" and m: "maps_regions (gpas (w_hv w) h) R" and R: "regions_in (w_heap w) R"
    and inv: "heap_inv (w_heap w)" and lo: "layout_ok ((sizes R)(gpa \<mapsto> unat sz))" and new: "R gpa = None"
    and sz: "sz \<noteq> 0" "unat sz \<le> 0xF0000" and av: "unat sz \<le> h_avail (w_heap w)"
  shows "\<exists>m w'. on_heap (AlignedMemory_new sz) w = Some (Inr m, w\<lparr>w_heap := w_heap w'\<rparr>)
    \<and> map_gpa_range P (EptManager_new h) gpa (am_ptr m) sz 7 (w\<lparr>w_heap := w_heap w'\<rparr>) = Some (Inr (), w')
    \<and> idle (w_hv w') h \<and> maps_regions (gpas (w_hv w') h) (R(gpa \<mapsto> (am_ptr m, unat sz)))
    \<and> regions_in (w_heap w') (R(gpa \<mapsto> (am_ptr m, unat sz))) \<and> heap_inv (w_heap w')
    \<and> content_of (w_heap w') (R(gpa \<mapsto> (am_ptr m, unat sz))) = (content_of (w_heap w) R)(gpa \<mapsto> replicate (unat sz) 0)
    \<and> exits (w_hv w') h = exits (w_hv w) h \<and> w_files w' = w_files w
    \<and> h_avail (w_heap w') = h_avail (w_heap w) - unat sz \<and> am_inv (w_heap w') m
    \<and> (\<forall>m'. am_inv (w_heap w) m' \<longrightarrow> am_inv (w_heap w') m' \<and> am_ptr m' \<noteq> am_ptr m)"
proof -
  let ?q = "h_next (w_heap w)"
  let ?m = "\<lparr>am_ptr = ?q, am_size = sz, am_layout = \<lparr>l_size = sz, l_align = 4096\<rparr>\<rparr>"
  obtain hp where hp: "AlignedMemory_new sz (w_heap w) = Some (Inr ?m, hp)" "heap_inv hp"
    "h_avail hp = h_avail (w_heap w) - unat sz"
    "h_blocks hp = (h_blocks (w_heap w))(?q \<mapsto> \<lparr>b_layout = \<lparr>l_size = sz, l_align = 4096\<rparr>, b_bytes = replicate (unat sz) 0\<rparr>)"
    using AlignedMemory_new_ok [OF inv sz(1) _ av] sz(2) by auto
  have fr: "heap_content (w_heap w) ?q = None" by (rule heap_content_fresh [OF inv])
  have c: "heap_content hp = (heap_content (w_heap w))(?q \<mapsto> replicate (unat sz) 0)"
    using hp(4) by (auto simp: heap_content_def)
  obtain w' where w': "map_gpa_range P (EptManager_new h) gpa ?q sz 7 (w\<lparr>w_heap := hp\<rparr>) = Some (Inr (), w')"
    "w' = w\<lparr>w_heap := hp, w_hv := w_hv w'\<rparr>" "idle (w_hv w') h"
    "maps_regions (gpas (w_hv w') h) (R(gpa \<mapsto> (?q, unat sz)))" "exits (w_hv w') h = exits (w_hv w) h"
    using map_step_idle [of "w\<lparr>w_heap := hp\<rparr>" h R gpa ?q sz] idle m lo new fresh_not_region [OF R fr] by auto
  have h: "w_heap w' = hp" "w_files w' = w_files w" by (subst w'(2), simp)+
  have "am_inv hp m' \<and> am_ptr m' \<noteq> ?q" if "am_inv (w_heap w) m'" for m'
  proof -
    have "am_ptr m' \<noteq> ?q" using am_inv_allocated [OF that] fr by metis
    then show ?thesis using am_inv_mono [OF that, of hp] hp(4) by simp
  qed
  moreover have "am_inv hp ?m" using hp(4) by (simp add: am_inv_def)
  moreover have "regions_in hp (R(gpa \<mapsto> (?q, unat sz)))"
    using regions_in_alloc(1) [OF R c fr, of gpa] by simp
  ultimately show ?thesis
    using hp(1-3) w' h content_of_alloc [OF R c fr, of gpa] by (intro exI [of _ ?m] exI [of _ w']) (simp add: on_heap_def)
qed

text \<open>Building the page tables and mapping them.\<close>

lemma tables_map_step:
  assumes idle: "idle (w_hv w) h" and m: "maps_regions (gpas (w_hv w) h) R" and R: "regions_in (w_heap w) R"
    and inv: "heap_inv (w_heap w)" and lo: "layout_ok ((sizes R)(pt_gpa \<mapsto> 12288))" and new: "R pt_gpa = None"
    and av: "12288 \<le> h_avail (w_heap w)"
  shows "\<exists>t w1 w'. create_identity_mapping P pt_gpa w = Some (Inr t, w1) \<and> pt_size t = 12288
    \<and> map_gpa_range P (EptManager_new h) pt_gpa (pt_host_ptr t) (pt_size t) 7 w1 = Some (Inr (), w')
    \<and> idle (w_hv w') h \<and> maps_regions (gpas (w_hv w') h) (R(pt_gpa \<mapsto> (pt_host_ptr t, unat (pt_size t))))
    \<and> regions_in (w_heap w') (R(pt_gpa \<mapsto> (pt_host_ptr t, unat (pt_size t)))) \<and> heap_inv (w_heap w')
    \<and> content_of (w_heap w') (R(pt_gpa \<mapsto> (pt_host_ptr t, unat (pt_size t)))) =
        (content_of (w_heap w) R)(pt_gpa \<mapsto> table_bytes pt_gpa)
    \<and> exits (w_hv w') h = exits (w_hv w) h \<and> w_files w' = w_files w
    \<and> h_avail (w_heap w') + 12288 = h_avail (w_heap w)
    \<and> (\<forall>m. am_inv (w_heap w) m \<longrightarrow> am_inv (w_heap w') m)"
proof -
  obtain t w1 where c: "create_identity_mapping P pt_gpa w = Some (Inr t, w1)"
    using create_identity_mapping_ok [OF inv av, of pt_gpa P] by (auto simp: pt_gpa_def)
  have n: "pt_size t = 12288" "w1 = w\<lparr>w_heap := w_heap w1\<rparr>" "heap_inv (w_heap w1)"
    "heap_content (w_heap w) (pt_host_ptr t) = None" "length (table_bytes pt_gpa) = 12288"
    "heap_content (w_heap w1) = (heap_content (w_heap w))(pt_host_ptr t \<mapsto> table_bytes pt_gpa)"
    using create_identity_mapping_inv [OF inv c] by blast+
  have h1: "w_hv w1 = w_hv w" "w_files w1 = w_files w" by (subst n(2), simp)+
  obtain w' where w': "map_gpa_range P (EptManager_new h) pt_gpa (pt_host_ptr t) (pt_size t) 7 w1 = Some (Inr (), w')"
    "w' = w1\<lparr>w_hv := w_hv w'\<rparr>" "idle (w_hv w') h"
    "maps_regions (gpas (w_hv w') h) (R(pt_gpa \<mapsto> (pt_host_ptr t, unat (pt_size t))))"
    "exits (w_hv w') h = exits (w_hv w1) h"
    using map_step_idle [of w1 h R pt_gpa "pt_host_ptr t" "pt_size t"] idle m lo new h1
      fresh_not_region [OF R n(4)] n(1) by auto
  have h': "w_heap w' = w_heap w1" "w_files w' = w_files w1" using w'(2) unfolding hv_only_iff by simp_all
  note fr = create_identity_mapping_frame [OF c av inv]
  have "am_inv (w_heap w1) m" if "am_inv (w_heap w) m" for m
    by (rule am_inv_frame [OF that]) (use fr in simp)
  then show ?thesis
    using c n w' h1 h' fr regions_in_alloc(1) [OF R n(6,4), of pt_gpa]
      content_of_alloc [OF R n(6,4), of pt_gpa "unat (pt_size t)"]
    by - (rule exI [of _ t], rule exI [of _ w1], rule exI [of _ w'], simp)
qed

text \<open>The first three of the four regions: the image, the stack and the null page.\<close>

lemma map_buffers_ok:
  assumes idle: "idle (w_hv w) h" and gp: "gpas (w_hv w) h = (\<lambda>_. None)"
    and inv: "heap_inv (w_heap w)" and q: "heap_content (w_heap w) q = Some bs" "length bs = unat sz"
    and sz: "0 < unat sz" "unat sz \<le> 0xF0000" "unat sz mod 4096 = 0" and av: "0x11000 \<le> h_avail (w_heap w)"
  obtains w1 st w3 nl w4 R where
    "R = [base_gpa \<mapsto> (q, unat sz), base_gpa + sz \<mapsto> (am_ptr st, unat stack_size), 0 \<mapsto> (am_ptr nl, 0x1000)]"
    "map_gpa_range P (EptManager_new h) base_gpa q sz 7 w = Some (Inr (), w1)"
    "on_heap (AlignedMemory_new stack_size) w1 = Some (Inr st, w1\<lparr>w_heap := w_heap w3\<rparr>)"
    "map_gpa_range P (EptManager_new h) (base_gpa + sz) (am_ptr st) stack_size 7 (w1\<lparr>w_heap := w_heap w3\<rparr>) = Some (Inr (), w3)"
    "on_heap (AlignedMemory_new 0x1000) w3 = Some (Inr nl, w3\<lparr>w_heap := w_heap w4\<rparr>)"
    "map_gpa_range P (EptManager_new h) 0 (am_ptr nl) 0x1000 7 (w3\<lparr>w_heap := w_heap w4\<rparr>) = Some (Inr (), w4)"
    "idle (w_hv w4) h" "maps_regions (gpas (w_hv w4) h) R" "regions_in (w_heap w4) R" "heap_inv (w_heap w4)"
    "exits (w_hv w4) h = exits (w_hv w) h" "w_files w4 = w_files w" "h_avail (w_heap w4) + 0x11000 = h_avail (w_heap w)"
    "am_inv (w_heap w4) st" "am_inv (w_heap w4) nl" "am_ptr st \<noteq> am_ptr nl"
    "content_of (w_heap w4) R = [base_gpa \<mapsto> bs, base_gpa + sz \<mapsto> replicate 0x10000 0, 0 \<mapsto> replicate 4096 0]"
proof -
  let ?sb = "base_gpa + sz" and ?n1 = "0x1000 :: usize"
  note lo = layout_disjoint [OF sz refl]
  note pre = layout_ok_prefix [OF lo]
  have d: "base_gpa \<noteq> ?sb" "base_gpa \<noteq> 0" "base_gpa \<noteq> pt_gpa" "?sb \<noteq> 0" "?sb \<noteq> pt_gpa" "0 \<noteq> pt_gpa"
    using lo(2) by auto
  define R1 where "R1 = [base_gpa \<mapsto> (q, unat sz)]"
  obtain w1 where s1: "map_gpa_range P (EptManager_new h) base_gpa q sz 7 w = Some (Inr (), w1)"
    "w1 = w\<lparr>w_hv := w_hv w1\<rparr>" "idle (w_hv w1) h" "maps_regions (gpas (w_hv w1) h) R1"
    "exits (w_hv w1) h = exits (w_hv w) h"
    using map_step_idle [OF idle, of Map.empty base_gpa q sz] gp maps_nothing pre(1)
    by (auto simp: R1_def region_ptrs_def)
  have r1: "regions_in (w_heap w1) R1" "w_heap w1 = w_heap w" "w_files w1 = w_files w" "content_of (w_heap w1) R1 = [base_gpa \<mapsto> bs]"
    using q s1(2) unfolding hv_only_iff by (simp_all add: R1_def regions_in_def content_of_def fun_eq_iff)
  have p: "layout_ok ((sizes R1)(?sb \<mapsto> unat stack_size))" "R1 ?sb = None" "stack_size \<noteq> 0"
    "unat stack_size \<le> 0xF0000" "unat stack_size \<le> h_avail (w_heap w1)" "heap_inv (w_heap w1)"
    using pre(2) d(1) av inv r1(2) by (simp_all add: R1_def stack_size_def)
  obtain st w3 R2 where R2: "R2 = R1(?sb \<mapsto> (am_ptr st, unat stack_size))"
    and s3: "on_heap (AlignedMemory_new stack_size) w1 = Some (Inr st, w1\<lparr>w_heap := w_heap w3\<rparr>)"
    "map_gpa_range P (EptManager_new h) ?sb (am_ptr st) stack_size 7 (w1\<lparr>w_heap := w_heap w3\<rparr>) = Some (Inr (), w3)"
    "idle (w_hv w3) h" "maps_regions (gpas (w_hv w3) h) R2" "regions_in (w_heap w3) R2" "heap_inv (w_heap w3)"
    "exits (w_hv w3) h = exits (w_hv w1) h" "w_files w3 = w_files w1"
    "h_avail (w_heap w3) = h_avail (w_heap w1) - unat stack_size" "am_inv (w_heap w3) st"
    "content_of (w_heap w3) R2 = (content_of (w_heap w1) R1)(?sb \<mapsto> replicate (unat stack_size) 0)"
    using alloc_map_step [OF s1(3,4) r1(1) p(6,1-5)] by blast
  have p: "layout_ok ((sizes R2)(0 \<mapsto> unat ?n1))" "R2 0 = None" "?n1 \<noteq> 0" "unat ?n1 \<le> 0xF0000"
    "unat ?n1 \<le> h_avail (w_heap w3)"
    using pre(3) d av s3(9) r1(2) by (simp_all add: R1_def R2 stack_size_def)
  obtain nl w4 R3 where R3: "R3 = R2(0 \<mapsto> (am_ptr nl, unat ?n1))"
    and s4: "on_heap (AlignedMemory_new 0x1000) w3 = Some (Inr nl, w3\<lparr>w_heap := w_heap w4\<rparr>)"
    "map_gpa_range P (EptManager_new h) 0 (am_ptr nl) 0x1000 7 (w3\<lparr>w_heap := w_heap w4\<rparr>) = Some (Inr (), w4)"
    "idle (w_hv w4) h" "maps_regions (gpas (w_hv w4) h) R3" "regions_in (w_heap w4) R3" "heap_inv (w_heap w4)"
    "exits (w_hv w4) h = exits (w_hv w3) h" "w_files w4 = w_files w3"
    "h_avail (w_heap w4) = h_avail (w_heap w3) - unat ?n1" "am_inv (w_heap w4) nl" "am_inv (w_heap w4) st"
    "am_ptr st \<noteq> am_ptr nl" "content_of (w_heap w4) R3 = (content_of (w_heap w3) R2)(0 \<mapsto> replicate (unat ?n1) 0)"
    using alloc_map_step [OF s3(3-6) p] s3(10) by blast
  have "h_avail (w_heap w4) + 0x11000 = h_avail (w_heap w)"
    using s4(9) s3(9) r1(2) av by (simp add: stack_size_def)
  moreover have "content_of (w_heap w4) R3 = [base_gpa \<mapsto> bs, ?sb \<mapsto> replicate 0x10000 0, 0 \<mapsto> replicate 4096 0]"
    using s4(13) s3(11) r1(4) by (simp add: stack_size_def)
  moreover have "R3 = [base_gpa \<mapsto> (q, unat sz), ?sb \<mapsto> (am_ptr st, unat stack_size), 0 \<mapsto> (am_ptr nl, 0x1000)]"
    by (simp add: R3 R2 R1_def)
  ultimately show ?thesis
    using that [OF _ s1(1) s3(1,2) s4(1-6) _ _ _ s4(11,10,12)] s4(7,8) s3(7,8) s1(5) r1(3) by simp
qed

lemma map_guest_memory_ok:
  assumes idle: "idle (w_hv w) (vp_handle vm)" and gp: "gpas (w_hv w) (vp_handle vm) = (\<lambda>_. None)"
    and inv: "heap_inv (w_heap w)" and q: "heap_content (w_heap w) q = Some bs" "length bs = unat sz"
    and sz: "0 < unat sz" "unat sz \<le> 0xF0000" "unat sz mod 4096 = 0" and av: "0x14000 \<le> h_avail (w_heap w)"
  shows "\<exists>gl w'. map_guest_memory P vm q sz w = Some (Inr gl, w')
    \<and> gl_stack_base gl = base_gpa + sz \<and> gl_image_size gl = sz \<and> pt_size (gl_tables gl) = 12288
    \<and> maps_regions (gpas (w_hv w') (vp_handle vm)) (layout_regions gl)
    \<and> regions_in (w_heap w') (layout_regions gl) \<and> heap_inv (w_heap w') \<and> idle (w_hv w') (vp_handle vm)
    \<and> exits (w_hv w') (vp_handle vm) = exits (w_hv w) (vp_handle vm) \<and> w_files w' = w_files w
    \<and> h_avail (w_heap w') + 0x14000 = h_avail (w_heap w)
    \<and> content_of (w_heap w') (layout_regions gl) =
        [base_gpa \<mapsto> bs, base_gpa + sz \<mapsto> replicate 0x10000 0, 0 \<mapsto> replicate 4096 0, pt_gpa \<mapsto> table_bytes pt_gpa]
    \<and> am_inv (w_heap w') (gl_stack gl) \<and> am_inv (w_heap w') (gl_null gl) \<and> am_ptr (gl_stack gl) \<noteq> am_ptr (gl_null gl)"
proof -
  let ?h = "vp_handle vm" and ?sb = "base_gpa + sz"
  note sbv = stack_base_value [OF sz(2,3)] and lo = layout_disjoint [OF sz refl]
  have av': "0x11000 \<le> h_avail (w_heap w)" using av by simp
  show ?thesis
  proof (rule map_buffers_ok [OF idle gp inv q sz av'])
    fix w1 st w3 nl w4 R
    assume R: "R = [base_gpa \<mapsto> (q, unat sz), ?sb \<mapsto> (am_ptr st, unat stack_size), 0 \<mapsto> (am_ptr nl, 0x1000)]"
      and c: "map_gpa_range P (EptManager_new ?h) base_gpa q sz 7 w = Some (Inr (), w1)"
        "on_heap (AlignedMemory_new stack_size) w1 = Some (Inr st, w1\<lparr>w_heap := w_heap w3\<rparr>)"
        "map_gpa_range P (EptManager_new ?h) ?sb (am_ptr st) stack_size 7 (w1\<lparr>w_heap := w_heap w3\<rparr>) = Some (Inr (), w3)"
        "on_heap (AlignedMemory_new 0x1000) w3 = Some (Inr nl, w3\<lparr>w_heap := w_heap w4\<rparr>)"
        "map_gpa_range P (EptManager_new ?h) 0 (am_ptr nl) 0x1000 7 (w3\<lparr>w_heap := w_heap w4\<rparr>) = Some (Inr (), w4)"
      and f: "idle (w_hv w4) ?h" "maps_regions (gpas (w_hv w4) ?h) R" "regions_in (w_heap w4) R" "heap_inv (w_heap w4)"
        "exits (w_hv w4) ?h = exits (w_hv w) ?h" "w_files w4 = w_files w" "h_avail (w_heap w4) + 0x11000 = h_avail (w_heap w)"
        "am_inv (w_heap w4) st" "am_inv (w_heap w4) nl" "am_ptr st \<noteq> am_ptr nl"
        "content_of (w_heap w4) R = [base_gpa \<mapsto> bs, ?sb \<mapsto> replicate 0x10000 0, 0 \<mapsto> replicate 4096 0]"
    have p: "layout_ok ((sizes R)(pt_gpa \<mapsto> 12288))" "R pt_gpa = None" "12288 \<le> h_avail (w_heap w4)"
      using lo f(7) av by (auto simp: R stack_size_def)
    obtain t w5 w6 where s6: "create_identity_mapping P pt_gpa w4 = Some (Inr t, w5)" "pt_size t = 12288"
      "map_gpa_range P (EptManager_new ?h) pt_gpa (pt_host_ptr t) (pt_size t) 7 w5 = Some (Inr (), w6)"
      "idle (w_hv w6) ?h" "maps_regions (gpas (w_hv w6) ?h) (R(pt_gpa \<mapsto> (pt_host_ptr t, unat (pt_size t))))"
      "regions_in (w_heap w6) (R(pt_gpa \<mapsto> (pt_host_ptr t, unat (pt_size t))))" "heap_inv (w_heap w6)"
      "content_of (w_heap w6) (R(pt_gpa \<mapsto> (pt_host_ptr t, unat (pt_size t)))) =
         (content_of (w_heap w4) R)(pt_gpa \<mapsto> table_bytes pt_gpa)"
      "exits (w_hv w6) ?h = exits (w_hv w4) ?h" "w_files w6 = w_files w4"
      "h_avail (w_heap w6) + 12288 = h_avail (w_heap w4)" "am_inv (w_heap w6) st" "am_inv (w_heap w6) nl"
      using tables_map_step [OF f(1-4) p] f(8,9) by blast
    let ?gl = "\<lparr>gl_image = q, gl_image_size = sz, gl_stack = st, gl_stack_base = ?sb, gl_null = nl, gl_tables = t\<rparr>"
    have "map_guest_memory P vm q sz w = Some (Inr ?gl, w6)"
      using c s6(1,3) unfolding map_guest_memory_def Let_def as_raw_def sbv bindE_ret
      by (simp add: thenE_step bindE_step sbv ret_def)
    moreover have "layout_regions ?gl = R(pt_gpa \<mapsto> (pt_host_ptr t, unat (pt_size t)))"
      by (simp add: layout_regions_def R)
    ultimately show ?thesis
      using s6(2,4-13) f(5-7,10,11) by (intro exI [of _ ?gl] exI [of _ w6]) simp
  qed
qed

text \<open>A return means that the memory was there.\<close>

lemma map_guest_memory_sound:
  assumes run: "map_guest_memory P vm q sz w = Some (Inr gl, w')"
    and idle: "idle (w_hv w) (vp_handle vm)" and gp: "gpas (w_hv w) (vp_handle vm) = (\<lambda>_. None)"
    and inv: "heap_inv (w_heap w)" and q: "heap_content (w_heap w) q = Some bs" "length bs = unat sz"
    and sz: "0 < unat sz" "unat sz \<le> 0xF0000" "unat sz mod 4096 = 0"
  shows "gl_stack_base gl = base_gpa + sz \<and> gl_image_size gl = sz \<and> pt_size (gl_tables gl) = 12288
    \<and> maps_regions (gpas (w_hv w') (vp_handle vm)) (layout_regions gl)
    \<and> regions_in (w_heap w') (layout_regions gl) \<and> heap_inv (w_heap w') \<and> idle (w_hv w') (vp_handle vm)
    \<and> exits (w_hv w') (vp_handle vm) = exits (w_hv w) (vp_handle vm) \<and> w_files w' = w_files w
    \<and> content_of (w_heap w') (layout_regions gl) =
        [base_gpa \<mapsto> bs, base_gpa + sz \<mapsto> replicate 0x10000 0, 0 \<mapsto> replicate 4096 0, pt_gpa \<mapsto> table_bytes pt_gpa]"
  using map_guest_memory_ok [OF idle gp inv q sz map_guest_memory_room [OF run inv]] run by auto

end

section \<open>Capturing the layout\<close>

lemma snap_inv_new [simp]: "snap_inv hp Snapshot_new" "region_bytes hp Snapshot_new = Map.empty"
  "memory_regions Snapshot_new = []" "registers Snapshot_new = []"
  by (simp_all add: snap_inv_def Snapshot_new_def hm.invar_empty hm.get_empty region_bytes_def fun_eq_iff)

lemma hm_get_keys: "hm_get m k = None \<longleftrightarrow> k \<notin> set (hm_keys m)"
  by (simp add: hm_get_def hm_keys_def map_of_eq_None_iff)

lemma regions_in_lookup: "regions_in hp R \<Longrightarrow> R g = Some (p, n) \<Longrightarrow> heap_content hp p = Some bs \<Longrightarrow> length bs = n"
  unfolding regions_in_def by fastforce

text \<open>One more region of a layout, in a heap that has grown since the layout was mapped.\<close>

lemma capture_next:
  assumes inv: "heap_inv hp" and snap: "snap_inv hp snap" and fresh: "gpa \<notin> set (hm_keys (memory_regions snap))"
    and old: "\<And>q. heap_content hp0 q \<noteq> None \<Longrightarrow> h_blocks hp q = h_blocks hp0 q"
    and R: "regions_in hp0 R" "R gpa = Some (p, unat sz)"
    and run: "capture_region gpa p sz snap hp = Some (Inr snap', hp')"
  shows "heap_inv hp' \<and> snap_inv hp' snap' \<and> registers snap' = registers snap
    \<and> hm_keys (memory_regions snap') = hm_keys (memory_regions snap) @ [gpa]
    \<and> region_bytes hp' snap' = (region_bytes hp snap)(gpa := content_of hp0 R gpa)
    \<and> snap_ptrs snap' \<subseteq> snap_ptrs snap \<union> {q. heap_content hp0 q = None}
    \<and> (\<forall>q. heap_content hp0 q \<noteq> None \<longrightarrow> h_blocks hp' q = h_blocks hp0 q)"
proof -
  obtain bs where bs: "heap_content hp0 p = Some bs" "length bs = unat sz"
    using R unfolding regions_in_def by blast
  then have "heap_content hp p = Some bs"
    using old [of p] by (auto simp: heap_content_def)
  moreover have "content_of hp0 R gpa = Some bs"
    using R(2) bs(1) by (simp add: content_of_def)
  moreover have "h_blocks hp' q = h_blocks hp0 q"
    if "\<forall>q. heap_content hp q \<noteq> None \<longrightarrow> h_blocks hp' q = h_blocks hp q" "heap_content hp0 q \<noteq> None" for q
    using that old [of q] by (simp add: heap_content_def)
  moreover have "{q. heap_content hp q = None} \<subseteq> {q. heap_content hp0 q = None}"
    using old by (fastforce simp: heap_content_def)
  ultimately show ?thesis
    using capture_region_sound [OF inv snap _ run] fresh bs(2) by (simp add: hm_get_keys) blast
qed

text \<open>A capture of a list of regions: the abstract form of the four calls of \<open>capture_memory_layout\<close>.\<close>

fun capture_all :: "(u64 \<times> ptr \<times> usize) list \<Rightarrow> Snapshot \<Rightarrow> (heap, Snapshot) cmd" where
  "capture_all [] snap = ret snap"
| "capture_all ((gpa, p, sz) # rs) snap = bindE (capture_region gpa p sz snap) (capture_all rs)"

definition layout_list :: "guest_layout \<Rightarrow> (u64 \<times> ptr \<times> usize) list" where
  "layout_list gl = [(0, am_ptr (gl_null gl), 0x1000), (base_gpa, gl_image gl, gl_image_size gl),
     (gl_stack_base gl, am_ptr (gl_stack gl), stack_size),
     (pt_gpa, pt_host_ptr (gl_tables gl), pt_size (gl_tables gl))]"

lemma capture_memory_layout_all: "capture_memory_layout gl = capture_all (layout_list gl) Snapshot_new"
  by (rule ext) (auto simp: capture_memory_layout_def layout_list_def bindE_def ret_def split: option.splits sum.splits)

lemma layout_list_regions:
  assumes "distinct [base_gpa, gl_stack_base gl, 0, pt_gpa]"
  shows "distinct (map fst (layout_list gl))"
    and "\<forall>(gpa, p, sz) \<in> set (layout_list gl). layout_regions gl gpa = Some (p, unat sz)"
    and "fst ` set (layout_list gl) = dom (layout_regions gl)"
  using assms by (auto simp: layout_list_def layout_regions_def split: if_splits)

lemma layout_region_ptrs:
  assumes "distinct [base_gpa, gl_stack_base gl, 0, pt_gpa]"
  shows "am_ptr (gl_stack gl) \<in> region_ptrs (layout_regions gl)" and "am_ptr (gl_null gl) \<in> region_ptrs (layout_regions gl)"
proof -
  have "layout_regions gl (gl_stack_base gl) = Some (am_ptr (gl_stack gl), unat stack_size)"
    "layout_regions gl 0 = Some (am_ptr (gl_null gl), 4096)"
    using assms by (simp_all add: layout_regions_def)
  then show "am_ptr (gl_stack gl) \<in> region_ptrs (layout_regions gl)" "am_ptr (gl_null gl) \<in> region_ptrs (layout_regions gl)"
    unfolding region_ptrs_def by blast+
qed

lemma capture_all_sound:
  assumes "heap_inv hp" and "snap_inv hp snap" and "distinct (hm_keys (memory_regions snap) @ map fst rs)"
    and "\<And>q. heap_content hp0 q \<noteq> None \<Longrightarrow> h_blocks hp q = h_blocks hp0 q"
    and "regions_in hp0 R" and "\<forall>(gpa, p, sz) \<in> set rs. R gpa = Some (p, unat sz)"
    and "capture_all rs snap hp = Some (Inr snap', hp')"
  shows "heap_inv hp' \<and> snap_inv hp' snap' \<and> registers snap' = registers snap
    \<and> hm_keys (memory_regions snap') = hm_keys (memory_regions snap) @ map fst rs
    \<and> region_bytes hp' snap' = (\<lambda>g. if g \<in> fst ` set rs then content_of hp0 R g else region_bytes hp snap g)
    \<and> snap_ptrs snap' \<subseteq> snap_ptrs snap \<union> {q. heap_content hp0 q = None}
    \<and> (\<forall>q. heap_content hp0 q \<noteq> None \<longrightarrow> h_blocks hp' q = h_blocks hp0 q)"
  using assms
proof (induction rs arbitrary: snap hp)
  case (Cons r rs)
  obtain gpa p sz where r: "r = (gpa, p, sz)" by (cases r) auto
  obtain s1 hp1 where c: "capture_region gpa p sz snap hp = Some (Inr s1, hp1)"
    "capture_all rs s1 hp1 = Some (Inr snap', hp')"
    using Cons.prems(7) by (auto simp: r elim!: bindE_SomeD)
  have Rg: "R gpa = Some (p, unat sz)" "gpa \<notin> set (hm_keys (memory_regions snap))"
    using Cons.prems(3,6) by (auto simp: r)
  note n = capture_next [OF Cons.prems(1,2) Rg(2) Cons.prems(4,5) Rg(1) c(1)]
  have d: "distinct (hm_keys (memory_regions s1) @ map fst rs)" using n Cons.prems(3) by (simp add: r)
  have "region_bytes hp' snap' = (\<lambda>g. if g \<in> fst ` set rs then content_of hp0 R g else region_bytes hp1 s1 g)"
    using Cons.IH [OF _ _ d _ Cons.prems(5) _ c(2)] n Cons.prems(6) by simp
  then have rb: "region_bytes hp' snap' =
      (\<lambda>g. if g \<in> fst ` set (r # rs) then content_of hp0 R g else region_bytes hp snap g)"
    using n by (auto simp: r fun_eq_iff)
  show ?case
    using Cons.IH [OF _ _ d _ Cons.prems(5) _ c(2)] n Cons.prems(6) rb by (auto simp: r)
qed (auto simp: ret_def)

lemma capture_memory_layout_sound:
  assumes inv: "heap_inv hp" and R: "regions_in hp (layout_regions gl)"
    and d: "distinct [base_gpa, gl_stack_base gl, 0, pt_gpa]" 
    and run: "capture_memory_layout gl hp = Some (Inr snap, hp')"
  shows "heap_inv hp' \<and> snap_inv hp' snap \<and> registers snap = [] \<and> length (memory_regions snap) = 4
    \<and> region_bytes hp' snap = content_of hp (layout_regions gl)
    \<and> snap_ptrs snap \<subseteq> {q. heap_content hp q = None}
    \<and> (\<forall>q. heap_content hp q \<noteq> None \<longrightarrow> h_blocks hp' q = h_blocks hp q)"
proof -
  note L = layout_list_regions [OF d]
  have fresh: "distinct (hm_keys (memory_regions Snapshot_new) @ map fst (layout_list gl))"
    using L(1) by (simp add: hm_keys_def)
  note n = capture_all_sound [OF inv snap_inv_new(1) fresh refl R L(2) run [unfolded capture_memory_layout_all]]
  have "content_of hp (layout_regions gl) g = None" if "g \<notin> dom (layout_regions gl)" for g
    using that by (auto simp: content_of_def split: option.splits)
  then have "region_bytes hp' snap = content_of hp (layout_regions gl)"
    using n unfolding L(3) by (simp add: fun_eq_iff)
  moreover have "length (hm_keys (memory_regions snap)) = 4"
    using n by (simp add: layout_list_def hm_keys_def)
  moreover have "snap_ptrs Snapshot_new = {}"
    by (simp add: snap_ptrs_def hm.get_empty)
  ultimately show ?thesis
    using n by (simp add: hm_keys_def)
qed

end
