(* ===== verification/Cli_Determinism.thy ===== *)
theory Cli_Determinism
  imports Cli_Layout
begin

text \<open>
  The two commands together: an archive written by a \<open>record\<close> that returned, replayed on a machine
  with room for it, makes \<open>replay\<close> return and report success. The proof follows the commands:
  what a returned \<open>record\<close> leaves in the archive, and that \<open>replay\<close> rebuilds the architectural
  state the recording started from.
\<close>

section \<open>Recording\<close>

definition boot_regs :: "(reg_name \<Rightarrow> reg_value) \<Rightarrow> u64 \<Rightarrow> u64 \<Rightarrow> reg_name \<Rightarrow> reg_value" where
  "boot_regs r0 ep sp =
     upd_regs (upd_regs r0 (zip long_mode_names (long_mode_values pt_gpa)))
       (zip [Rip, Rsp] [mk_Reg64 ep, mk_Reg64 sp])"

text \<open>
  The memory the guest starts with: its image, a zero stack, a zero page at address 0, and the
  page tables.
\<close>

definition boot_content :: "PeLoader \<Rightarrow> u64 \<Rightarrow> u8 list option" where
  "boot_content l =
    [base_gpa \<mapsto> map (image_byte (raw_bytes l) (pe_sections (pl_pe l)) 0) [0..<unat (aligned_size l)],
     base_gpa + aligned_size l \<mapsto> replicate 0x10000 0,
     0 \<mapsto> replicate 4096 0,
     pt_gpa \<mapsto> table_bytes pt_gpa]"

definition boots_as :: "(reg_name \<Rightarrow> reg_value) \<Rightarrow> 'x \<Rightarrow> PeLoader \<Rightarrow> 'x arch \<Rightarrow> bool" where
  "boots_as r0 x0 l a \<longleftrightarrow>
     a_regs a = boot_regs r0 (base_gpa + entry_point l) (base_gpa + aligned_size l + stack_size)
     \<and> mem_matches (a_mem a) (boot_content l) \<and> a_exits a = intercept_mask \<and> a_rest a = x0"

lemma set_registers_hv: "set_registers P v ns vs w = Some (r, w') \<Longrightarrow> w' = w\<lparr>w_hv := w_hv w'\<rparr>"
  by (auto simp: set_registers_def cmd_simps split: if_splits prod.splits sum.splits)

text \<open>Commands that neither print nor touch files.\<close>

definition quiet :: "('h world, 'a) cmd \<Rightarrow> bool" where
  "quiet m \<longleftrightarrow> (\<forall>w r w'. m w = Some (r, w') \<longrightarrow> w_files w' = w_files w \<and> w_out w' = w_out w)"

lemma quiet_thenE: "quiet m \<Longrightarrow> quiet n \<Longrightarrow> quiet (thenE m n)"
  by (auto simp: quiet_def thenE_def bindE_def split: option.splits sum.splits)

lemma quiet_on_heap: "quiet (on_heap m)"
  by (auto simp: quiet_def on_heap_def split: option.splits)

lemma quiet_ret: "quiet (ret x)"
  by (simp add: quiet_def ret_def)

lemma quiet_ignore: "quiet (ignore_hv f)"
  by (auto simp: quiet_def ignore_hv_def)

lemma quiet_for_each: "(\<And>x. quiet (f x)) \<Longrightarrow> quiet (for_each xs f)"
  by (induction xs) (simp_all add: quiet_ret quiet_thenE)

lemmas quiet_intros = quiet_thenE quiet_on_heap quiet_ret quiet_ignore quiet_for_each

lemma quiet_Snapshot_drop: "quiet (Snapshot_drop P s)"
  unfolding Snapshot_drop_def by (rule quiet_for_each) (simp add: quiet_intros split: option.splits)

lemma quiet_drops:
  "quiet (record_drop P vm gl s v fs)" "quiet (Vcpu_drop P v)" "quiet (VmPartition_drop P vm)"
  unfolding record_drop_def record_drop_locals_def Vcpu_drop_def VmPartition_drop_def
  by (auto intro!: quiet_intros quiet_Snapshot_drop simp: Vcpu_drop_def VmPartition_drop_def)

context whp_contract
begin

lemma set_registers_inv:
  assumes "live (w_hv w) p i" and "length ns = length vs"
    and run: "set_registers P \<lparr>vc_partition = p, vc_index = i\<rparr> ns vs w = Some (Inr (), w')"
  shows "reject ns vs = None \<and> w' = w\<lparr>w_hv := w_hv w'\<rparr> \<and> live (w_hv w') p i
    \<and> regs (w_hv w') p i = upd_regs (regs (w_hv w) p i) (zip ns vs) \<and> gpas (w_hv w') p = gpas (w_hv w) p
    \<and> exits (w_hv w') p = exits (w_hv w) p \<and> rest (w_hv w') p i = rest (w_hv w) p i"
proof -
  have r: "reject ns vs = None"
    using set_rejected [OF assms(1,2)] run assms(2)
    by (cases "reject ns vs") (auto simp: set_registers_def cmd_simps)
  then show ?thesis
    using set_live [OF assms(1,2) r] run assms(2) set_registers_hv [OF run]
    by (auto simp: set_registers_def cmd_simps)
qed

lemma set_registers_run:
  assumes "live (w_hv w) p i" and "length ns = length vs" and "reject ns vs = None"
  shows "\<exists>w'. set_registers P \<lparr>vc_partition = p, vc_index = i\<rparr> ns vs w = Some (Inr (), w')"
  using set_live [OF assms] assms(2) by (auto simp: set_registers_def cmd_simps)

end

lemma map_into_memory_image:
  assumes inv: "heap_inv hp" and run: "map_into_memory l hp = Some (Inr (q, sz), hp')"
  shows "sz = aligned_size l \<and> 0 < unat sz \<and> unat sz mod 4096 = 0 \<and> heap_inv hp'
    \<and> heap_content hp' q = Some (map (image_byte (raw_bytes l) (pe_sections (pl_pe l)) 0) [0..<unat sz])"
proof -
  note ok = map_into_memory_returns [OF inv run]
  have "unat (aligned_size l) mod 4096 = 0"
    by (simp add: unat_aligned_size split: option.splits)
  moreover obtain hp2 bs where "map_into_memory l hp = Some (Inr (h_next hp, aligned_size l), hp2)" "heap_inv hp2"
    "heap_content hp2 = (heap_content hp)(h_next hp \<mapsto> bs)" "length bs = unat (aligned_size l)"
    "\<forall>i < length bs. bs ! i = image_byte (raw_bytes l) (pe_sections (pl_pe l)) 0 i"
    using map_into_memory_ok [OF inv] ok by blast
  moreover from this(4,5) have "bs = map (image_byte (raw_bytes l) (pe_sections (pl_pe l)) 0) [0..<unat (aligned_size l)]"
    by (intro nth_equalityI) simp_all
  ultimately show ?thesis
    using run ok by (simp add: unat_gt_0)
qed

context whp_contract
begin

lemma capture_registers_live:
  assumes "live (w_hv w) (vc_partition v) (vc_index v)"
  shows "capture_registers P v ns s w =
    Some (Inr (s\<lparr>registers := map (regs (w_hv w) (vc_partition v) (vc_index v)) ns\<rparr>), w)"
  by (simp add: capture_registers_def get_registers_def cmd_simps get_live [OF assms])

end

context whp_boot
begin

lemma boot_vcpu_sound:
  assumes run: "boot_vcpu P vm loader gl w = Some (Inr v, w')" and idle: "idle (w_hv w) (vp_handle vm)"
  shows "v = \<lparr>vc_partition = vp_handle vm, vc_index = 0\<rparr> \<and> w' = w\<lparr>w_hv := w_hv w'\<rparr>
    \<and> live (w_hv w') (vp_handle vm) 0 \<and> gpas (w_hv w') (vp_handle vm) = gpas (w_hv w) (vp_handle vm)
    \<and> exits (w_hv w') (vp_handle vm) = exits (w_hv w) (vp_handle vm)
    \<and> rest (w_hv w') (vp_handle vm) 0 = rest0 \<and> reject long_mode_names (long_mode_values pt_gpa) = None
    \<and> regs (w_hv w') (vp_handle vm) 0 =
        boot_regs regs0 (base_gpa + entry_point loader) (gl_stack_base gl + stack_size)"
proof -
  let ?h = "vp_handle vm" and ?v = "\<lparr>vc_partition = vp_handle vm, vc_index = 0\<rparr>"
  obtain w1 where w1: "Vcpu_new P ?h 0 w = Some (Inr ?v, w1)" "w1 = w\<lparr>w_hv := w_hv w1\<rparr>" "live (w_hv w1) ?h 0"
    "gpas (w_hv w1) ?h = gpas (w_hv w) ?h" "exits (w_hv w1) ?h = exits (w_hv w) ?h"
    "regs (w_hv w1) ?h 0 = regs0" "rest (w_hv w1) ?h 0 = rest0"
    using Vcpu_new_idle [OF idle, of 0] by blast
  define ep sp where "ep = base_gpa + entry_point loader" and "sp = gl_stack_base gl + stack_size"
  obtain w2 where s: "setup_long_mode P ?v pt_gpa w1 = Some (Inr (), w2)"
    "set_registers P ?v [Rip, Rsp] [mk_Reg64 ep, mk_Reg64 sp] w2 = Some (Inr (), w')" and v: "v = ?v"
    using run unfolding boot_vcpu_def as_raw_def
    by (elim bindE_SomeD thenE_SomeD) (auto simp: add_u64_Inr ret_Inr w1(1) ep_def sp_def)
  note i1 = set_registers_inv [OF w1(3) length_long_mode [symmetric] s(1) [unfolded setup_long_mode_def]]
  have i2: "w' = w2\<lparr>w_hv := w_hv w'\<rparr> \<and> live (w_hv w') ?h 0
    \<and> regs (w_hv w') ?h 0 = upd_regs (regs (w_hv w2) ?h 0) (zip [Rip, Rsp] [mk_Reg64 ep, mk_Reg64 sp])
    \<and> gpas (w_hv w') ?h = gpas (w_hv w2) ?h
    \<and> exits (w_hv w') ?h = exits (w_hv w2) ?h \<and> rest (w_hv w') ?h 0 = rest (w_hv w2) ?h 0"
    using set_registers_inv [OF _ _ s(2)] i1 by simp
  have "w' = w\<lparr>w_hv := w_hv w'\<rparr>"
    using w1(2) i1 i2 unfolding hv_only_iff by simp
  moreover have "regs (w_hv w') ?h 0 = boot_regs regs0 ep sp"
    using i1 i2 w1(6) by (simp add: boot_regs_def)
  ultimately show ?thesis
    using i1 i2 w1 v by (auto simp: ep_def sp_def)
qed

text \<open>
  The state in which the guest is ready to run, as far as it determines the rest of the command:
  processor, layout and the snapshot of both.
\<close>

definition guest_prepared :: "VmPartition \<Rightarrow> guest_layout \<Rightarrow> Snapshot \<Rightarrow> Vcpu \<Rightarrow> 'h world \<Rightarrow> bool" where
  "guest_prepared vm gl snap v w \<longleftrightarrow>
     v = \<lparr>vc_partition = vp_handle vm, vc_index = 0\<rparr> \<and> live (w_hv w) (vp_handle vm) 0 \<and> heap_inv (w_heap w)
     \<and> gl_stack_base gl = base_gpa + gl_image_size gl \<and> pt_size (gl_tables gl) = 12288
     \<and> unat (gl_image_size gl) \<le> 0xF0000
     \<and> layout_ok (sizes (layout_regions gl)) \<and> distinct [base_gpa, gl_stack_base gl, 0, pt_gpa]
     \<and> maps_regions (gpas (w_hv w) (vp_handle vm)) (layout_regions gl) \<and> regions_in (w_heap w) (layout_regions gl)
     \<and> exits (w_hv w) (vp_handle vm) = intercept_mask \<and> rest (w_hv w) (vp_handle vm) 0 = rest0
     \<and> (\<exists>ep sp. regs (w_hv w) (vp_handle vm) 0 = boot_regs regs0 ep sp)
     \<and> reject long_mode_names (long_mode_values pt_gpa) = None
     \<and> snap_inv (w_heap w) snap \<and> region_bytes (w_heap w) snap = content_of (w_heap w) (layout_regions gl)
     \<and> registers snap = map (regs (w_hv w) (vp_handle vm) 0) capture_names \<and> length (memory_regions snap) = 4
     \<and> snap_ptrs snap \<inter> region_ptrs (layout_regions gl) = {}"

lemma guest_prepared_out: "guest_prepared vm gl snap v (w\<lparr>w_out := out\<rparr>) \<longleftrightarrow> guest_prepared vm gl snap v w"
  by (simp add: guest_prepared_def)

lemma layout_regions_ok:
  assumes "gl_stack_base gl = base_gpa + gl_image_size gl" and "pt_size (gl_tables gl) = 12288"
    and "0 < unat (gl_image_size gl)" and "unat (gl_image_size gl) \<le> 0xF0000" and "unat (gl_image_size gl) mod 4096 = 0"
  shows "layout_ok (sizes (layout_regions gl)) \<and> distinct [base_gpa, gl_stack_base gl, 0, pt_gpa]"
  using layout_disjoint [OF assms(3-5,1)] assms(2) by (simp add: layout_regions_def)

lemma record_prepare_stages:
  assumes run: "record_prepare P goblin target w = Some (Inr (vm, gl, snap, v), w')" and room: "room (w_hv w)"
    and tgt: "hm_get (w_files w) target = Some data" "goblin data = Inr pe" and l: "l = \<lparr>pl_pe = pe, raw_bytes = data\<rparr>"
  obtains q sz hp1 w1 w2 snap0 hp3 w4 where
    "map_into_memory l (w_heap w) = Some (Inr (q, sz), hp1)"
    "w_heap w1 = hp1" "w_files w1 = w_files w" "idle (w_hv w1) (vp_handle vm)"
    "gpas (w_hv w1) (vp_handle vm) = (\<lambda>_. None)" "exits (w_hv w1) (vp_handle vm) = intercept_mask"
    "map_guest_memory P vm q sz w1 = Some (Inr gl, w2)"
    "capture_memory_layout gl (w_heap w2) = Some (Inr snap0, hp3)"
    "boot_vcpu P vm l gl (w2\<lparr>w_heap := hp3, w_out := w_out w2 @ [TargetMapped base_gpa (entry_point l)]\<rparr>) = Some (Inr v, w4)"
    "capture_registers P v capture_names snap0 w4 = Some (Inr snap, w')"
proof -
  let ?w0 = "w\<lparr>w_out := w_out w @ [RecordingTarget target]\<rparr>"
  obtain q sz hp1 where m: "map_into_memory l (w_heap w) = Some (Inr (q, sz), hp1)"
    and run1: "bindE (expect_ok ''Failed to create VM partition'' (VmPartition_new P)) (\<lambda>vm.
     thenE (expect_ok ''Failed to configure interceptions'' (configure_interceptions P vm))
    (bindE (map_guest_memory P vm q sz) (\<lambda>gl.
     bindE (on_heap (capture_memory_layout gl)) (\<lambda>snapshot.
     thenE (println (TargetMapped base_gpa (entry_point l)))
    (bindE (boot_vcpu P vm l gl) (\<lambda>vcpu.
     bindE (expect_ok ''Failed to capture initial registers''
              (capture_registers P vcpu capture_names snapshot)) (\<lambda>snapshot.
     ret (vm, gl, snapshot, vcpu))))))))  (?w0\<lparr>w_heap := hp1\<rparr>) = Some (Inr (vm, gl, snap, v), w')"
    using run tgt unfolding record_prepare_def l
    by (elim bindE_SomeD thenE_SomeD)
      (auto simp: println_def fs_read_def expect_some_def expect_right_def PeLoader_parse_def ret_Inr split: prod.splits)
  obtain vm' w1 where vm': "bindE (VmPartition_new P) (\<lambda>p. thenE (configure_interceptions P p) (ret p)) (?w0\<lparr>w_heap := hp1\<rparr>)
      = Some (Inr vm', w1)" "w1 = ?w0\<lparr>w_heap := hp1, w_hv := w_hv w1\<rparr>" "idle (w_hv w1) (vp_handle vm')"
    "gpas (w_hv w1) (vp_handle vm') = (\<lambda>_. None)" "exits (w_hv w1) (vp_handle vm') = intercept_mask"
    using partition_ready [of "?w0\<lparr>w_heap := hp1\<rparr>"] room by auto
  obtain w2 snap0 hp3 w4 where
    c2: "map_guest_memory P vm q sz w1 = Some (Inr gl, w2)" and
    c3: "capture_memory_layout gl (w_heap w2) = Some (Inr snap0, hp3)" and
    c4: "boot_vcpu P vm l gl (w2\<lparr>w_heap := hp3, w_out := w_out w2 @ [TargetMapped base_gpa (entry_point l)]\<rparr>) = Some (Inr v, w4)" and
    c5: "capture_registers P v capture_names snap0 w4 = Some (Inr snap, w')" and vm: "vm = vm'"
    using run1 vm'(1) by (elim bindE_SomeD thenE_SomeD) (auto simp: println_def ret_Inr bindE_step thenE_step)
  have "w_heap w1 = hp1" "w_files w1 = w_files w" by (subst vm'(2), simp)+
  then show thesis
    using that [OF m, of w1 w2 snap0 hp3 w4] vm'(3-5) c2 c3 c4 c5 unfolding vm by blast
qed

lemma record_prepare_sound:
  assumes run: "record_prepare P goblin target w = Some (Inr (vm, gl, snap, v), w')"
    and room: "room (w_hv w)" and inv: "heap_inv (w_heap w)"
    and tgt: "hm_get (w_files w) target = Some data" "goblin data = Inr pe"
    and small: "unat (aligned_size \<lparr>pl_pe = pe, raw_bytes = data\<rparr>) \<le> 0xF0000"
  shows "guest_prepared vm gl snap v w' \<and> w_files w' = w_files w
    \<and> gl_image_size gl = aligned_size \<lparr>pl_pe = pe, raw_bytes = data\<rparr>
    \<and> boots_as regs0 rest0 \<lparr>pl_pe = pe, raw_bytes = data\<rparr> (arch v w')"
proof -
  let ?l = "\<lparr>pl_pe = pe, raw_bytes = data\<rparr>"
  obtain q sz hp1 w1 w2 snap0 hp3 w4 where m: "map_into_memory ?l (w_heap w) = Some (Inr (q, sz), hp1)"
    and h1: "w_heap w1 = hp1" "w_files w1 = w_files w" and vm: "idle (w_hv w1) (vp_handle vm)"
      "gpas (w_hv w1) (vp_handle vm) = (\<lambda>_. None)" "exits (w_hv w1) (vp_handle vm) = intercept_mask"
    and c2: "map_guest_memory P vm q sz w1 = Some (Inr gl, w2)"
    and c3: "capture_memory_layout gl (w_heap w2) = Some (Inr snap0, hp3)"
    and c4: "boot_vcpu P vm ?l gl (w2\<lparr>w_heap := hp3, w_out := w_out w2 @ [TargetMapped base_gpa (entry_point ?l)]\<rparr>) = Some (Inr v, w4)"
    and c5: "capture_registers P v capture_names snap0 w4 = Some (Inr snap, w')"
    using record_prepare_stages [OF run room tgt refl] by blast
  let ?h = "vp_handle vm" and ?R = "layout_regions gl"
  let ?bs = "map (image_byte (raw_bytes ?l) (pe_sections (pl_pe ?l)) 0) [0..<unat sz]"
  have img: "sz = aligned_size ?l" "0 < unat sz" "unat sz mod 4096 = 0" "heap_inv hp1"
    "heap_content hp1 q = Some ?bs"
    using map_into_memory_image [OF inv m] by blast+
  have len: "length ?bs = unat sz" by simp
  have mg: "gl_stack_base gl = base_gpa + sz" "gl_image_size gl = sz" "pt_size (gl_tables gl) = 12288"
    "maps_regions (gpas (w_hv w2) ?h) ?R" "regions_in (w_heap w2) ?R" "heap_inv (w_heap w2)" "idle (w_hv w2) ?h"
    "exits (w_hv w2) ?h = intercept_mask" "w_files w2 = w_files w"
    "content_of (w_heap w2) ?R = [base_gpa \<mapsto> ?bs, base_gpa + sz \<mapsto> replicate 0x10000 0, 0 \<mapsto> replicate 4096 0,
       pt_gpa \<mapsto> table_bytes pt_gpa]"
    using map_guest_memory_sound [OF c2, of ?bs] vm img len small unfolding h1 by auto
  have lo: "layout_ok (sizes ?R)" "distinct [base_gpa, gl_stack_base gl, 0, pt_gpa]"
    using layout_regions_ok [of gl] mg(1-3) img(1-3) small by auto
  note cap = capture_memory_layout_sound [OF mg(6,5) lo(2) c3]
  have cap: "heap_inv hp3" "snap_inv hp3 snap0" "length (memory_regions snap0) = 4"
    "region_bytes hp3 snap0 = content_of (w_heap w2) ?R" "snap_ptrs snap0 \<subseteq> {q. heap_content (w_heap w2) q = None}"
    "\<And>q. heap_content (w_heap w2) q \<noteq> None \<Longrightarrow> h_blocks hp3 q = h_blocks (w_heap w2) q"
    using cap by blast+
  have R: "regions_in hp3 ?R" "content_of hp3 ?R = content_of (w_heap w2) ?R"
    using regions_in_frame [OF mg(5) cap(6)] by blast+
  have bv: "v = \<lparr>vc_partition = ?h, vc_index = 0\<rparr>" "w_heap w4 = hp3" "w_files w4 = w_files w2" "live (w_hv w4) ?h 0"
    "gpas (w_hv w4) ?h = gpas (w_hv w2) ?h" "exits (w_hv w4) ?h = intercept_mask" "rest (w_hv w4) ?h 0 = rest0"
    "reject long_mode_names (long_mode_values pt_gpa) = None"
    "regs (w_hv w4) ?h 0 = boot_regs regs0 (base_gpa + entry_point ?l) (gl_stack_base gl + stack_size)"
    using boot_vcpu_sound [OF c4] mg(7,8) unfolding hv_only_iff by simp_all
  have fin: "w' = w4" "snap = snap0\<lparr>registers := map (regs (w_hv w4) ?h 0) capture_names\<rparr>"
    using capture_registers_live [of w4 v capture_names snap0] c5 bv(1,4) by auto
  have "snap_ptrs snap0 \<inter> region_ptrs ?R = {}"
    using cap(5) fresh_not_region [OF mg(5)] by blast
  moreover have "boots_as regs0 rest0 ?l (arch v w4)"
    using regions_in_mem [of "gpas (w_hv w4) ?h" ?R hp3] bv R mg(1,4,10) img(1)
    by (simp add: boots_as_def arch_of_def boot_content_def)
  ultimately show ?thesis
    unfolding guest_prepared_def fin using bv cap(1-4) R lo mg img(1) small by auto
qed

lemma record_run_sound:
  assumes prep: "guest_prepared vm gl snap v w"
    and run: "with_engine (RecordEngine_run P) (RecordEngine_new vm v) w = Some (Inr eng, w')"
  shows "\<exists>ctx. abs_record guest reject (overflow_checks P) 0 (arch v w) (RecordEngine_finalize eng) ctx (arch v w')
    \<and> frame v w w'"
proof -
  have "record_loop P 0 (w, RecordEngine_new vm v) = Some (Inr (), (w', eng))"
    using run by (auto simp: with_engine_def RecordEngine_run_def split: option.splits sum.splits)
  then show ?thesis
    using record_loop_sound [of 0 w "RecordEngine_new vm v" w' eng v vm] prep
    by (auto simp: guest_prepared_def RecordEngine_finalize_def)
qed

lemma record_archive_sound:
  assumes run: "record_archive P F out gl snap v eng w = Some (Inr fs, w')"
    and lv: "live (w_hv w) (vc_partition v) (vc_index v)" and inv: "heap_inv (w_heap w)"
    and R: "regions_in (w_heap w) (layout_regions gl)" and d: "distinct [base_gpa, gl_stack_base gl, 0, pt_gpa]"
    and snap: "snap_inv (w_heap w) snap"
  shows "\<exists>bytes hp hp'. ser_archive P F snap (RecordEngine_finalize eng)
        (state_hash (map (regs (w_hv w) (vc_partition v) (vc_index v)) capture_names)
           (content_of (w_heap w) (layout_regions gl))) hp = Some (Inr bytes, hp')
    \<and> heap_inv hp \<and> snap_inv hp snap \<and> region_bytes hp snap = region_bytes (w_heap w) snap
    \<and> hm_get (w_files w') out = Some bytes
    \<and> ExecutionCompleted (length (RecordEngine_finalize eng)) \<in> set (w_out w')"
proof -
  let ?rs = "map (regs (w_hv w) (vc_partition v) (vc_index v)) capture_names"
  obtain fs0 hp1 where c1: "capture_memory_layout gl (w_heap w) = Some (Inr fs0, hp1)"
    using run unfolding record_archive_def by (elim bindE_SomeD) auto
  note cap = capture_memory_layout_sound [OF inv R d c1]
  let ?fs = "fs0\<lparr>registers := ?rs\<rparr>"
  have cr: "capture_registers P v capture_names fs0 (w\<lparr>w_heap := hp1\<rparr>) = Some (Inr ?fs, w\<lparr>w_heap := hp1\<rparr>)"
    using capture_registers_live [of "w\<lparr>w_heap := hp1\<rparr>" v capture_names fs0] lv by simp
  have hs: "hash_state ?fs hp1 = Some (Inr (state_hash ?rs (content_of (w_heap w) (layout_regions gl))), hp1)"
    using hash_state_eq [of hp1 ?fs] cap by simp
  have sf: "snap_inv hp1 snap" "region_bytes hp1 snap = region_bytes (w_heap w) snap"
  proof -
    have "h_blocks hp1 q = h_blocks (w_heap w) q" if "q \<in> snap_ptrs snap" for q
      using snap_ptrs_allocated [OF snap that] cap by blast
    then show "snap_inv hp1 snap" "region_bytes hp1 snap = region_bytes (w_heap w) snap"
      using snap_frame [OF snap, of hp1] by blast+
  qed
  have "\<exists>bytes hp'. ser_archive P F snap (RecordEngine_finalize eng)
        (state_hash ?rs (content_of (w_heap w) (layout_regions gl))) hp1 = Some (Inr bytes, hp')
      \<and> hm_get (w_files w') out = Some bytes
      \<and> ExecutionCompleted (length (RecordEngine_finalize eng)) \<in> set (w_out w')"
    using run unfolding record_archive_def Let_def
    by (elim bindE_SomeD thenE_SomeD)
      (auto simp: c1 cr hs println_def fs_write_def modify_def raise_def ret_Inr hm_get_def hm_insert_def update_conv' split: if_splits)
  then show ?thesis
    using cap sf by blast
qed

lemma cli_record_stages:
  assumes run: "cli_record P goblin F target out w = Some (Inr (), w')"
  obtains vm gl snap v w1 eng w2 fs w3 where
    "record_prepare P goblin target w = Some (Inr (vm, gl, snap, v), w1)"
    "with_engine (RecordEngine_run P) (RecordEngine_new vm v) (w1\<lparr>w_out := w_out w1 @ [StartingRecordMode]\<rparr>) = Some (Inr eng, w2)"
    "record_archive P F out gl snap v eng w2 = Some (Inr fs, w3)"
    "record_drop P vm gl snap v fs w3 = Some (Inr (), w')"
  using run unfolding cli_record_def
  by (elim bindE_SomeD thenE_SomeD) (auto simp: println_def elim!: bindE_SomeD thenE_SomeD)

lemma cli_record_sound:
  assumes run: "cli_record P goblin F target out w = Some (Inr (), w')"
    and room: "room (w_hv w)" and inv: "heap_inv (w_heap w)"
    and tgt: "hm_get (w_files w) target = Some data" "goblin data = Inr pe"
    and small: "unat (aligned_size \<lparr>pl_pe = pe, raw_bytes = data\<rparr>) \<le> 0xF0000"
  shows "\<exists>vm gl snap v w1 es ctx a' C' bytes hp hp'.
      guest_prepared vm gl snap v w1 \<and> gl_image_size gl = aligned_size \<lparr>pl_pe = pe, raw_bytes = data\<rparr>
    \<and> boots_as regs0 rest0 \<lparr>pl_pe = pe, raw_bytes = data\<rparr> (arch v w1)
    \<and> abs_record guest reject (overflow_checks P) 0 (arch v w1) es ctx a'
    \<and> mem_matches (a_mem a') C' \<and> (\<forall>g. map_option length (C' g) = sizes (layout_regions gl) g)
    \<and> ser_archive P F snap es (state_hash (map (a_regs a') capture_names) C') hp = Some (Inr bytes, hp')
    \<and> heap_inv hp \<and> snap_inv hp snap \<and> region_bytes hp snap = region_bytes (w_heap w1) snap
    \<and> hm_get (w_files w') out = Some bytes \<and> ExecutionCompleted (length es) \<in> set (w_out w')"
proof -
  obtain vm gl snap v w1 eng w2 fs w3 where
    c1: "record_prepare P goblin target w = Some (Inr (vm, gl, snap, v), w1)" and
    c2: "with_engine (RecordEngine_run P) (RecordEngine_new vm v) (w1\<lparr>w_out := w_out w1 @ [StartingRecordMode]\<rparr>) = Some (Inr eng, w2)" and
    c3: "record_archive P F out gl snap v eng w2 = Some (Inr fs, w3)" and
    c4: "record_drop P vm gl snap v fs w3 = Some (Inr (), w')"
    by (rule cli_record_stages [OF run])
  let ?w1 = "w1\<lparr>w_out := w_out w1 @ [StartingRecordMode]\<rparr>" and ?R = "layout_regions gl"
  have prep: "guest_prepared vm gl snap v w1" "gl_image_size gl = aligned_size \<lparr>pl_pe = pe, raw_bytes = data\<rparr>"
    "boots_as regs0 rest0 \<lparr>pl_pe = pe, raw_bytes = data\<rparr> (arch v w1)"
    using record_prepare_sound [OF c1 room inv tgt small] by blast+
  have prep1: "guest_prepared vm gl snap v ?w1" using prep(1) by (simp add: guest_prepared_out)
  obtain ctx where rec: "abs_record guest reject (overflow_checks P) 0 (arch v ?w1) (RecordEngine_finalize eng) ctx (arch v w2)"
    and fr: "frame v ?w1 w2"
    using record_run_sound [OF prep1 c2] by blast
  have p: "v = \<lparr>vc_partition = vp_handle vm, vc_index = 0\<rparr>" "distinct [base_gpa, gl_stack_base gl, 0, pt_gpa]"
    "maps_regions (gpas (w_hv w1) (vp_handle vm)) ?R" "regions_in (w_heap w1) ?R"
    "snap_inv (w_heap w1) snap" "snap_ptrs snap \<inter> region_ptrs ?R = {}"
    using prep(1) unfolding guest_prepared_def by blast+
  have f: "live (w_hv w2) (vc_partition v) (vc_index v)" "heap_inv (w_heap w2)" "same_shape (w_heap w1) (w_heap w2)"
    "gpas (w_hv w2) (vc_partition v) = gpas (w_hv w1) (vc_partition v)"
    "\<And>q. q \<notin> mapped_ptrs (gpas (w_hv w1) (vc_partition v)) \<Longrightarrow> h_blocks (w_heap w2) q = h_blocks (w_heap w1) q"
    using fr by (simp_all add: keeps_def)
  have R2: "regions_in (w_heap w2) ?R" by (rule regions_in_shape [OF f(3) p(4)])
  have "q \<notin> mapped_ptrs (gpas (w_hv w1) (vc_partition v))" if "q \<in> snap_ptrs snap" for q
    using mapped_ptrs_regions [OF p(3)] p(1,6) that by auto
  then have s2: "snap_inv (w_heap w2) snap" "region_bytes (w_heap w2) snap = region_bytes (w_heap w1) snap"
    using snap_frame [OF p(5), of "w_heap w2"] f(5) by blast+
  have mm: "mem_matches (a_mem (arch v w2)) (content_of (w_heap w2) ?R)"
    using regions_in_mem [OF p(3) R2] f(4) p(1) by (simp add: arch_of_def)
  obtain bytes hp hp' where b: "ser_archive P F snap (RecordEngine_finalize eng)
        (state_hash (map (a_regs (arch v w2)) capture_names) (content_of (w_heap w2) ?R)) hp = Some (Inr bytes, hp')"
    "heap_inv hp" "snap_inv hp snap" "region_bytes hp snap = region_bytes (w_heap w2) snap"
    "hm_get (w_files w3) out = Some bytes" "ExecutionCompleted (length (RecordEngine_finalize eng)) \<in> set (w_out w3)"
    using record_archive_sound [OF c3 f(1,2) R2 p(2) s2(1)] by (auto simp: arch_of_def)
  have "w_files w' = w_files w3" "w_out w' = w_out w3"
    using quiet_drops(1) c4 unfolding quiet_def by blast+
  then show ?thesis
    using prep rec mm regions_in_content [OF R2] b s2(2)
    by (intro exI [of _ vm] exI [of _ gl] exI [of _ snap] exI [of _ v] exI [of _ w1]
        exI [of _ "RecordEngine_finalize eng"] exI [of _ ctx] exI [of _ "arch v w2"]
        exI [of _ "content_of (w_heap w2) ?R"] exI [of _ bytes] exI [of _ hp] exI [of _ hp']) simp
qed

end

section \<open>Restoring\<close>

definition snap_regions :: "Snapshot \<Rightarrow> regions" where
  "snap_regions s g = map_option (\<lambda>m. (am_ptr m, unat (am_size m))) (hm_get (memory_regions s) g)"

lemma snap_regions_in:
  assumes inv: "heap_inv hp" and snap: "snap_inv hp s"
  shows "regions_in hp (snap_regions s)" and "content_of hp (snap_regions s) = region_bytes hp s"
proof -
  have "\<exists>bs. heap_content hp (am_ptr m) = Some bs \<and> length bs = unat (am_size m)"
    if "hm_get (memory_regions s) g = Some m" for g m
  proof -
    have "am_inv hp m" using snap that unfolding snap_inv_def by blast
    then show ?thesis by (rule am_inv_content [OF inv]) blast
  qed
  then show "regions_in hp (snap_regions s)"
    by (auto simp: regions_in_def snap_regions_def)
  show "content_of hp (snap_regions s) = region_bytes hp s"
    by (auto simp: content_of_def snap_regions_def region_bytes_def fun_eq_iff split: option.splits)
qed

lemma am_inv_shape:
  assumes "same_shape hp hp'" and "am_inv hp m"
  shows "am_inv hp' m"
proof -
  have "map_option fst (map_option (\<lambda>b. (b_layout b, length (b_bytes b))) (h_blocks hp' (am_ptr m))) =
      map_option fst (map_option (\<lambda>b. (b_layout b, length (b_bytes b))) (h_blocks hp (am_ptr m)))"
    using assms(1) by (simp add: same_shape_def)
  then have "map_option b_layout (h_blocks hp' (am_ptr m)) = map_option b_layout (h_blocks hp (am_ptr m))"
    by (simp add: option.map_comp comp_def)
  then show ?thesis using am_inv_mono [OF assms(2)] by blast
qed

lemma snap_inv_shape:
  assumes "same_shape hp hp'" and "snap_inv hp s"
  shows "snap_inv hp' s"
  using assms(2) am_inv_shape [OF assms(1)] unfolding snap_inv_def by blast

lemma boot_regs_restore:
  assumes "\<And>n. reg_canon n (boot_regs r0 ep sp n) = boot_regs r0 ep sp n"
  shows "upd_regs (upd_regs r0 (zip long_mode_names (long_mode_values pt_gpa)))
      (zip capture_names (map (boot_regs r0 ep sp) capture_names)) = boot_regs r0 ep sp"
proof
  fix n
  let ?B = "boot_regs r0 ep sp"
  have "upd_regs f (zip capture_names (map ?B capture_names)) n = (if n \<in> set capture_names then ?B n else f n)" for f
    using assms by (simp add: upd_regs_def capture_names_def)
  moreover have "?B n = upd_regs r0 (zip long_mode_names (long_mode_values pt_gpa)) n" if "n \<notin> set capture_names"
    using that by (simp add: boot_regs_def upd_regs_def [of "upd_regs _ _"] capture_names_def)
  ultimately show "upd_regs (upd_regs r0 (zip long_mode_names (long_mode_values pt_gpa)))
      (zip capture_names (map ?B capture_names)) n = ?B n"
    by simp
qed

lemma for_each_expect:
  "for_each xs f s = Some (Inr (), t) \<Longrightarrow> for_each xs (\<lambda>x. expect_ok msg (f x)) s = Some (Inr (), t)"
proof (induction xs arbitrary: s)
  case (Cons x xs)
  then show ?case by (auto elim!: thenE_SomeD simp: thenE_step)
qed simp

lemma Snapshot_drop_ok:
  fixes P :: "'h platform" and w :: "'h world"
  assumes ord: "iterates_all P" and snap: "snap_inv (w_heap w) s"
  shows "\<exists>w'. Snapshot_drop P s w = Some (Inr (), w') \<and> (\<forall>q. q \<notin> snap_ptrs s \<longrightarrow> h_blocks (w_heap w') q = h_blocks (w_heap w) q)"
proof -
  let ?ks = "hash_order P (hm_keys (memory_regions s))"
  have d: "distinct ?ks"
    using ord snap hm.distinct_keys [of "memory_regions s"] by (simp add: iterates_all_def snap_inv_def)
  have inj: "am_ptr m \<noteq> am_ptr m'" if "hm_get (memory_regions s) g = Some m" "hm_get (memory_regions s) g' = Some m'" "g \<noteq> g'" for g g' m m'
    using snap that unfolding snap_inv_def by blast
  have "\<exists>w'. for_each ks (\<lambda>gpa. case hm_get (memory_regions s) gpa of
        None \<Rightarrow> ret () | Some m \<Rightarrow> on_heap (AlignedMemory_drop m)) w = Some (Inr (), w')
      \<and> (\<forall>q. q \<notin> snap_ptrs s \<longrightarrow> h_blocks (w_heap w') q = h_blocks (w_heap w) q)"
    if "distinct ks" "\<forall>k \<in> set ks. \<forall>m. hm_get (memory_regions s) k = Some m \<longrightarrow> am_inv (w_heap w) m" for ks and w :: "'h world"
    using that
  proof (induction ks arbitrary: w)
    case (Cons k ks)
    show ?case
    proof (cases "hm_get (memory_regions s) k")
      case None
      then show ?thesis using Cons by (simp add: thenE_def)
    next
      case (Some m)
      then obtain b where b: "h_blocks (w_heap w) (am_ptr m) = Some b" "b_layout b = am_layout m"
        using Cons.prems(2) by (auto simp: am_inv_def)
      define w1 where "w1 = w\<lparr>w_heap := (w_heap w)\<lparr>h_blocks := (h_blocks (w_heap w))(am_ptr m := None),
          h_avail := h_avail (w_heap w) + unat (l_size (am_layout m))\<rparr>\<rparr>"
      have dr: "on_heap (AlignedMemory_drop m) w = Some (Inr (), w1)"
        using b by (simp add: AlignedMemory_drop_def dealloc_def w1_def)
      have "am_inv (w_heap w1) m'" if "k' \<in> set ks" "hm_get (memory_regions s) k' = Some m'" for k' m'
      proof -
        have "am_ptr m' \<noteq> am_ptr m" using inj [OF that(2) Some] that(1) Cons.prems(1) by auto
        moreover have "am_inv (w_heap w) m'" using Cons.prems(2) that by simp
        ultimately show ?thesis using am_inv_mono [of "w_heap w" m' "w_heap w1"] by (simp add: w1_def)
      qed
      then have "\<exists>w'. for_each ks (\<lambda>gpa. case hm_get (memory_regions s) gpa of
            None \<Rightarrow> ret () | Some m \<Rightarrow> on_heap (AlignedMemory_drop m)) w1 = Some (Inr (), w')
          \<and> (\<forall>q. q \<notin> snap_ptrs s \<longrightarrow> h_blocks (w_heap w') q = h_blocks (w_heap w1) q)"
        using Cons.prems(1) by (intro Cons.IH) auto
      moreover have "am_ptr m \<in> snap_ptrs s" using Some by (auto simp: snap_ptrs_def)
      ultimately show ?thesis
        using Some dr by (auto simp: thenE_step w1_def)
    qed
  qed (simp add: ret_def)
  then show ?thesis
    unfolding Snapshot_drop_def using d snap unfolding snap_inv_def by blast
qed

context whp_boot
begin

text \<open>Mapping the regions of a snapshot one after another; \<open>D\<close> are those already mapped.\<close>

lemma restore_maps:
  assumes snap: "snap_inv hp s" and inv: "heap_inv hp"
    and lo: "layout_ok (sizes (snap_regions s))"
    and "distinct ks" and "set ks \<subseteq> set (hm_keys (memory_regions s))" and "D \<inter> set ks = {}"
    and "live (w_hv w) h i" and "maps_regions (gpas (w_hv w) h) (snap_regions s |` D)"
  shows "\<exists>w'. for_each ks (\<lambda>gpa. case hm_get (memory_regions s) gpa of None \<Rightarrow> ret ()
        | Some data \<Rightarrow> map_gpa_range P (EptManager_new h) gpa (am_ptr data) (am_size data) 7) w = Some (Inr (), w')
    \<and> w' = w\<lparr>w_hv := w_hv w'\<rparr> \<and> live (w_hv w') h i \<and> maps_regions (gpas (w_hv w') h) (snap_regions s |` (D \<union> set ks))
    \<and> exits (w_hv w') h = exits (w_hv w) h \<and> regs (w_hv w') h i = regs (w_hv w) h i \<and> rest (w_hv w') h i = rest (w_hv w) h i"
  using assms(4-)
proof (induction ks arbitrary: w D)
  case Nil
  then show ?case by (simp add: ret_def)
next
  case (Cons k ks)
  let ?R = "snap_regions s"
  obtain m where m: "hm_get (memory_regions s) k = Some m"
    using Cons.prems(2) by (auto simp: hm.set_keys)
  have k: "k \<notin> D" using Cons.prems(3) by auto
  have upd: "(?R |` D)(k \<mapsto> (am_ptr m, unat (am_size m))) = ?R |` insert k D"
    using m by (auto simp: snap_regions_def restrict_map_def fun_eq_iff)
  have "sizes (?R |` insert k D) \<subseteq>\<^sub>m sizes ?R"
    by (auto simp: map_le_def sizes_def restrict_map_def dom_def)
  then have lo1: "layout_ok (sizes ((?R |` D)(k \<mapsto> (am_ptr m, unat (am_size m)))))"
    unfolding upd by (rule layout_ok_submap [OF lo])
  have "am_ptr m \<notin> region_ptrs (?R |` D)"
  proof
    assume "am_ptr m \<in> region_ptrs (?R |` D)"
    then obtain g m' where "g \<in> D" "hm_get (memory_regions s) g = Some m'" "am_ptr m' = am_ptr m"
      by (auto simp: region_ptrs_def snap_regions_def restrict_map_def split: if_splits)
    then show False using snap m k unfolding snap_inv_def by blast
  qed
  moreover have "(?R |` D) k = None" using k by simp
  ultimately obtain w1 where w1: "map_gpa_range P (EptManager_new h) k (am_ptr m) (am_size m) 7 w = Some (Inr (), w1)"
    "w1 = w\<lparr>w_hv := w_hv w1\<rparr>" "live (w_hv w1) h i" "maps_regions (gpas (w_hv w1) h) (?R |` insert k D)"
    "exits (w_hv w1) h = exits (w_hv w) h" "regs (w_hv w1) h i = regs (w_hv w) h i" "rest (w_hv w1) h i = rest (w_hv w) h i"
    using map_step_live [OF Cons.prems(4,5) lo1] unfolding upd by blast
  obtain w2 where w2: "for_each ks (\<lambda>gpa. case hm_get (memory_regions s) gpa of None \<Rightarrow> ret ()
        | Some data \<Rightarrow> map_gpa_range P (EptManager_new h) gpa (am_ptr data) (am_size data) 7) w1 = Some (Inr (), w2)"
    "w2 = w1\<lparr>w_hv := w_hv w2\<rparr>" "live (w_hv w2) h i" "maps_regions (gpas (w_hv w2) h) (?R |` (insert k D \<union> set ks))"
    "exits (w_hv w2) h = exits (w_hv w1) h" "regs (w_hv w2) h i = regs (w_hv w1) h i" "rest (w_hv w2) h i = rest (w_hv w1) h i"
    using Cons.IH [of "insert k D" w1] Cons.prems(1-3) w1(3,4) by auto
  have "w2 = w\<lparr>w_hv := w_hv w2\<rparr>"
    using w1(2) w2(2) unfolding hv_only_iff by simp
  then show ?case
    using w1 w2 m by (intro exI [of _ w2]) (simp add: thenE_step)
qed

lemma restore_snapshot_ok:
  assumes ord: "iterates_all P" and snap: "snap_inv (w_heap w) s" and inv: "heap_inv (w_heap w)"
    and lo: "layout_ok (sizes (snap_regions s))" and lv: "live (w_hv w) h i"
    and gp: "gpas (w_hv w) h = (\<lambda>_. None)"
    and len: "length names = length (registers s)" "registers s \<noteq> []" and rej: "reject names (registers s) = None"
    and eng: "replays_on vm \<lparr>vc_partition = h, vc_index = i\<rparr> r"
  shows "\<exists>w'. restore_snapshot P r s names w = Some (Inr (), w') \<and> w' = w\<lparr>w_hv := w_hv w'\<rparr>
    \<and> live (w_hv w') h i \<and> maps_regions (gpas (w_hv w') h) (snap_regions s) \<and> exits (w_hv w') h = exits (w_hv w) h
    \<and> regs (w_hv w') h i = upd_regs (regs (w_hv w) h i) (zip names (registers s)) \<and> rest (w_hv w') h i = rest (w_hv w) h i"
proof -
  let ?ks = "hash_order P (hm_keys (memory_regions s))"
  have ks: "distinct ?ks" "set ?ks = set (hm_keys (memory_regions s))"
    using ord snap hm.distinct_keys [of "memory_regions s"] by (simp_all add: iterates_all_def snap_inv_def)
  have full: "snap_regions s |` set ?ks = snap_regions s"
    unfolding ks(2) by (auto simp: restrict_map_def snap_regions_def hm.set_keys fun_eq_iff)
  obtain w1 where w1: "for_each ?ks (\<lambda>gpa. case hm_get (memory_regions s) gpa of None \<Rightarrow> ret ()
        | Some data \<Rightarrow> map_gpa_range P (EptManager_new h) gpa (am_ptr data) (am_size data) 7) w = Some (Inr (), w1)"
    "w1 = w\<lparr>w_hv := w_hv w1\<rparr>" "live (w_hv w1) h i" "maps_regions (gpas (w_hv w1) h) (snap_regions s)"
    "exits (w_hv w1) h = exits (w_hv w) h" "regs (w_hv w1) h i = regs (w_hv w) h i" "rest (w_hv w1) h i = rest (w_hv w) h i"
    using restore_maps [OF snap inv lo ks(1), of "{}" w h i] ks(2) lv gp maps_nothing full by auto
  obtain w2 where w2: "set_registers P \<lparr>vc_partition = h, vc_index = i\<rparr> names (registers s) w1 = Some (Inr (), w2)"
    using set_registers_run [OF w1(3) len(1) rej] by blast
  have e: "vp_handle (rp_partition r) = h" using eng by (simp add: replays_on_def)
  have "restore_snapshot P r s names w = Some (Inr (), w2)"
    using w1(1) w2 len(2) unfolding restore_snapshot_def Let_def as_raw_def e active_vcpu_ret [OF eng]
    by (simp add: thenE_step)
  moreover note set_registers_inv [OF w1(3) len(1) w2]
  ultimately show ?thesis
    using w1 unfolding hv_only_iff by auto
qed

end

section \<open>Replaying what was recorded\<close>

lemma abs_record_fits: "abs_record G reject checks n a es ctx a' \<Longrightarrow> \<forall>e \<in> set es. event_fits (event e)"
proof (induction rule: abs_record.induct)
  case (intercept a ctx a1 ev a2 n es ctx' a')
  have "event_fits ev"
    using intercept.hyps(2) by (rule abs_event_cases) (simp_all add: event_fits_def sim_cpuid_def sim_rdtsc_def)
  then show ?case using intercept.IH by simp
qed simp

lemma layout_sizes:
  assumes "distinct [base_gpa, gl_stack_base gl, 0, pt_gpa]" and "pt_size (gl_tables gl) = 12288"
    and "unat (gl_image_size gl) \<le> 0xF0000"
  shows "dom (sizes (layout_regions gl)) = {base_gpa, gl_stack_base gl, 0, pt_gpa}"
    and "(\<Sum>g \<in> dom (sizes (layout_regions gl)). the (sizes (layout_regions gl) g)) = unat (gl_image_size gl) + 0x14000"
    and "sizes (layout_regions gl) g = Some n \<Longrightarrow> n \<le> 0xF0000"
proof -
  show d: "dom (sizes (layout_regions gl)) = {base_gpa, gl_stack_base gl, 0, pt_gpa}"
    using assms by (auto simp: layout_regions_def)
  show "(\<Sum>g \<in> dom (sizes (layout_regions gl)). the (sizes (layout_regions gl) g)) = unat (gl_image_size gl) + 0x14000"
    unfolding d using assms by (auto simp: layout_regions_def stack_size_def)
  show "sizes (layout_regions gl) g = Some n \<Longrightarrow> n \<le> 0xF0000"
    using assms by (auto simp: layout_regions_def stack_size_def split: if_splits)
qed

lemma snap_total_sizes:
  assumes "snap_inv hp s" and "\<And>g. map_option length (region_bytes hp s g) = S g"
  shows "snap_total hp s = (\<Sum>g \<in> dom S. the (S g))"
proof -
  have "the (S g) = length (the (region_bytes hp s g))" if "g \<in> dom (region_bytes hp s)" for g
    using that assms(2) [of g, symmetric] by auto
  moreover have "dom S = dom (region_bytes hp s)"
    using assms(2) [symmetric] by (auto simp: dom_def)
  ultimately show ?thesis
    using hm.distinct_keys [of "memory_regions s"] assms(1) region_bytes_dom [OF assms(1)]
    by (simp add: snap_total_def sum_list_distinct_conv_sum_set snap_inv_def hm.set_keys)
qed

context whp_boot
begin

text \<open>A fresh partition with a virtual processor in long mode, as \<open>replay\<close> makes it.\<close>

lemma replay_machine:
  assumes room: "room (w_hv w)" and rej: "reject long_mode_names (long_mode_values pt_gpa) = None"
  shows "\<exists>vm w1 w2 w3. VmPartition_new P w = Some (Inr vm, w1) \<and> configure_interceptions P vm w1 = Some (Inr (), w2)
    \<and> (\<exists>w4. Vcpu_new P (vp_handle vm) 0 w2 = Some (Inr \<lparr>vc_partition = vp_handle vm, vc_index = 0\<rparr>, w4)
      \<and> setup_long_mode P \<lparr>vc_partition = vp_handle vm, vc_index = 0\<rparr> pt_gpa w4 = Some (Inr (), w3))
    \<and> w3 = w\<lparr>w_hv := w_hv w3\<rparr> \<and> live (w_hv w3) (vp_handle vm) 0 \<and> gpas (w_hv w3) (vp_handle vm) = (\<lambda>_. None)
    \<and> exits (w_hv w3) (vp_handle vm) = intercept_mask \<and> rest (w_hv w3) (vp_handle vm) 0 = rest0
    \<and> regs (w_hv w3) (vp_handle vm) 0 = upd_regs regs0 (zip long_mode_names (long_mode_values pt_gpa))"
proof -
  obtain vm w2 where b: "bindE (VmPartition_new P) (\<lambda>p. thenE (configure_interceptions P p) (ret p)) w = Some (Inr vm, w2)"
    "w2 = w\<lparr>w_hv := w_hv w2\<rparr>" "idle (w_hv w2) (vp_handle vm)" "gpas (w_hv w2) (vp_handle vm) = (\<lambda>_. None)"
    "exits (w_hv w2) (vp_handle vm) = intercept_mask"
    using partition_ready [OF room] by blast
  obtain w1 where w1: "VmPartition_new P w = Some (Inr vm, w1)" "configure_interceptions P vm w1 = Some (Inr (), w2)"
    using b(1) by (elim bindE_SomeD thenE_SomeD) (auto simp: ret_Inr)
  let ?h = "vp_handle vm" and ?v = "\<lparr>vc_partition = vp_handle vm, vc_index = 0\<rparr>"
  obtain w4 where w4: "Vcpu_new P ?h 0 w2 = Some (Inr ?v, w4)" "w4 = w2\<lparr>w_hv := w_hv w4\<rparr>" "live (w_hv w4) ?h 0"
    "gpas (w_hv w4) ?h = gpas (w_hv w2) ?h" "exits (w_hv w4) ?h = exits (w_hv w2) ?h"
    "regs (w_hv w4) ?h 0 = regs0" "rest (w_hv w4) ?h 0 = rest0"
    using Vcpu_new_idle [OF b(3), of 0] by blast
  obtain w3 where w3: "setup_long_mode P ?v pt_gpa w4 = Some (Inr (), w3)"
    using set_registers_run [OF w4(3) length_long_mode [symmetric] rej] unfolding setup_long_mode_def by blast
  note i = set_registers_inv [OF w4(3) length_long_mode [symmetric] w3 [unfolded setup_long_mode_def]]
  have "w3 = w\<lparr>w_hv := w_hv w3\<rparr>"
    using b(2) w4(2) i unfolding hv_only_iff by simp
  then show ?thesis
    using w1 w3 w4 b(4,5) i by (intro exI [of _ vm] exI [of _ w1] exI [of _ w2] exI [of _ w3]) auto
qed

lemma arch_eqI:
  assumes "regs (w_hv w) (vc_partition v) (vc_index v) = regs (w_hv u) (vc_partition v') (vc_index v')"
    and "exits (w_hv w) (vc_partition v) = exits (w_hv u) (vc_partition v')"
    and "rest (w_hv w) (vc_partition v) (vc_index v) = rest (w_hv u) (vc_partition v') (vc_index v')"
    and "mem_matches (a_mem (arch v w)) C" and "mem_matches (a_mem (arch v' u)) C"
  shows "arch v w = arch v' u"
  using assms mem_matches_unique [OF assms(4,5)] by (simp add: arch_of_def)

lemma archive_loads:
  assumes F: "binary_format F" and ord: "iterates_all P" and prep: "guest_prepared vm gl snap v w1"
    and ser: "ser_archive P F snap es hash hp = Some (Inr bytes, hp')" and inv: "heap_inv hp" and snap: "snap_inv hp snap"
    and rb: "region_bytes hp snap = region_bytes (w_heap w1) snap"
    and es: "length es < 2 ^ 64" "\<forall>e \<in> set es. event_fits (event e)"
    and hp2: "heap_inv hp2" "unat (gl_image_size gl) + 0x14000 \<le> h_avail hp2"
  shows "\<exists>s hp3. de_archive F bytes hp2 = Some (Inr (s, es, hash), hp3) \<and> heap_inv hp3 \<and> snap_inv hp3 s
    \<and> region_bytes hp3 s = content_of (w_heap w1) (layout_regions gl)
    \<and> sizes (snap_regions s) = sizes (layout_regions gl) \<and> registers s = registers snap"
proof -
  let ?R = "layout_regions gl"
  have p: "pt_size (gl_tables gl) = 12288" "unat (gl_image_size gl) \<le> 0xF0000" "layout_ok (sizes ?R)"
    "distinct [base_gpa, gl_stack_base gl, 0, pt_gpa]" "regions_in (w_heap w1) ?R"
    "region_bytes (w_heap w1) snap = content_of (w_heap w1) ?R" "length (registers snap) = length capture_names"
    "length (memory_regions snap) = 4"
    using prep unfolding guest_prepared_def by (blast, blast, blast, blast, blast, blast, metis length_map, blast)
  have S: "map_option length (region_bytes hp snap g) = sizes ?R g" for g
    unfolding rb p(6) by (rule regions_in_content [OF p(5)])
  have "bs \<noteq> [] \<and> length bs \<le> 2 ^ 63 - 4096" if "region_bytes hp snap g = Some bs" for g bs
    using S [of g] that layout_okD [OF p(3), of g "length bs"] layout_sizes(3) [OF p(4,1,2), of g "length bs"] by auto
  then have fits: "archive_fits hp snap es"
    using es p(7,8) by (simp add: archive_fits_def capture_names_def)
  have total: "snap_total hp snap \<le> h_avail hp2"
    using snap_total_sizes [OF snap S] layout_sizes(2) [OF p(4,1,2)] hp2(2) by simp
  obtain s hp3 where s: "de_archive F bytes hp2 = Some (Inr (s, es, hash), hp3)" "heap_inv hp3" "snap_inv hp3 s"
    "region_bytes hp3 s = region_bytes hp snap" "registers s = registers snap"
    using binary_format.de_archive_ser [OF F inv snap ord fits ser hp2(1) total, of "[]"] by auto
  note R = snap_regions_in [OF s(2,3)]
  have "sizes (snap_regions s) = sizes ?R"
    using regions_in_content [OF R(1)] S unfolding R(2) s(4) by (simp add: fun_eq_iff)
  then show ?thesis using s rb p(6) by simp
qed

text \<open>Restoring into a fresh machine gives the architectural state that was captured.\<close>

lemma restore_fresh:
  fixes vm2 :: VmPartition
  defines "h \<equiv> vp_handle vm2" and "v2 \<equiv> \<lparr>vc_partition = vp_handle vm2, vc_index = 0\<rparr>"
  assumes ord: "iterates_all P" and prep: "guest_prepared vm gl snap v w1"
    and s: "heap_inv (w_heap u)" "snap_inv (w_heap u) s" "region_bytes (w_heap u) s = content_of (w_heap w1) (layout_regions gl)"
      "registers s = registers snap" "sizes (snap_regions s) = sizes (layout_regions gl)"
    and m: "live (w_hv u) h 0" "gpas (w_hv u) h = (\<lambda>_. None)" "exits (w_hv u) h = intercept_mask" "rest (w_hv u) h 0 = rest0"
      "regs (w_hv u) h 0 = upd_regs regs0 (zip long_mode_names (long_mode_values pt_gpa))" and r: "replays_on vm2 v2 r"
  obtains u' where "restore_snapshot P r s capture_names u = Some (Inr (), u')" "u' = u\<lparr>w_hv := w_hv u'\<rparr>" "live (w_hv u') h 0"
    "maps_regions (gpas (w_hv u') h) (snap_regions s)" "arch v2 u' = arch v w1"
proof -
  let ?R = "layout_regions gl" and ?h1 = "vp_handle vm"
  have p: "v = \<lparr>vc_partition = ?h1, vc_index = 0\<rparr>" "live (w_hv w1) ?h1 0" "layout_ok (sizes ?R)"
    "maps_regions (gpas (w_hv w1) ?h1) ?R" "regions_in (w_heap w1) ?R" "exits (w_hv w1) ?h1 = intercept_mask"
    "rest (w_hv w1) ?h1 0 = rest0" "registers snap = map (regs (w_hv w1) ?h1 0) capture_names"
    using prep unfolding guest_prepared_def by blast+
  obtain ep sp where boot: "regs (w_hv w1) ?h1 0 = boot_regs regs0 ep sp"
    using prep unfolding guest_prepared_def by blast
  have R2: "regions_in (w_heap u) (snap_regions s)" "content_of (w_heap u) (snap_regions s) = region_bytes (w_heap u) s"
    using snap_regions_in [OF s(1,2)] by blast+
  have regs: "registers s = map (regs (w_hv w1) ?h1 0) capture_names" using s(4) p(8) by simp
  obtain u' where u': "restore_snapshot P r s capture_names u = Some (Inr (), u')" "u' = u\<lparr>w_hv := w_hv u'\<rparr>"
    "live (w_hv u') h 0" "maps_regions (gpas (w_hv u') h) (snap_regions s)" "exits (w_hv u') h = exits (w_hv u) h"
    "regs (w_hv u') h 0 = upd_regs (regs (w_hv u) h 0) (zip capture_names (registers s))"
    "rest (w_hv u') h 0 = rest (w_hv u) h 0"
    using restore_snapshot_ok [OF ord, of u s h 0 capture_names vm2 r] s(1,2,5) p(3) m(1,2) r regs
      write_back [OF p(2), of capture_names] by (auto simp: capture_names_def h_def v2_def)
  have hp: "w_heap u' = w_heap u" using u'(2) unfolding hv_only_iff by simp
  have "regs (w_hv u') h 0 = regs (w_hv w1) ?h1 0"
    using u'(6) m(5) regs boot boot_regs_restore [of regs0 ep sp] canon_live [OF p(2)] by simp
  then have "arch v2 u' = arch v w1"
    using regions_in_mem [OF u'(4), of "w_heap u"] R2 regions_in_mem [OF p(4,5)] s(3) hp u'(5,7) m(3,4) p(1,6,7)
    by (intro arch_eqI [where C = "region_bytes (w_heap u) s"]) (simp_all add: arch_of_def h_def v2_def)
  then show ?thesis using that u'(1-4) by blast
qed

lemma replay_prepare_ok:
  assumes F: "binary_format F" and ord: "iterates_all P" and prep: "guest_prepared vm gl snap v w1"
    and ser: "ser_archive P F snap es hash hp = Some (Inr bytes, hp')" and inv: "heap_inv hp" and snap: "snap_inv hp snap"
    and rb: "region_bytes hp snap = region_bytes (w_heap w1) snap"
    and es: "length es < 2 ^ 64" "\<forall>e \<in> set es. event_fits (event e)"
    and u: "hm_get (w_files u) trace = Some bytes" "room (w_hv u)" "heap_inv (w_heap u)"
      "unat (gl_image_size gl) + 0x14000 \<le> h_avail (w_heap u)"
  shows "\<exists>s vm2 r u1. replay_prepare P F trace u =
      Some (Inr (s, es, hash, vm2, \<lparr>vc_partition = vp_handle vm2, vc_index = 0\<rparr>, r), u1)
    \<and> replays_on vm2 \<lparr>vc_partition = vp_handle vm2, vc_index = 0\<rparr> r
    \<and> live (w_hv u1) (vp_handle vm2) 0 \<and> heap_inv (w_heap u1) \<and> snap_inv (w_heap u1) s
    \<and> maps_regions (gpas (w_hv u1) (vp_handle vm2)) (snap_regions s)
    \<and> sizes (snap_regions s) = sizes (layout_regions gl)
    \<and> arch \<lparr>vc_partition = vp_handle vm2, vc_index = 0\<rparr> u1 = arch v w1"
proof -
  have rej: "reject long_mode_names (long_mode_values pt_gpa) = None" using prep unfolding guest_prepared_def by blast
  obtain s hp3 where s: "de_archive F bytes (w_heap u) = Some (Inr (s, es, hash), hp3)" "heap_inv hp3" "snap_inv hp3 s"
    "region_bytes hp3 s = content_of (w_heap w1) (layout_regions gl)" "registers s = registers snap"
    and sz: "sizes (snap_regions s) = sizes (layout_regions gl)"
    using archive_loads [OF F ord prep ser inv snap rb es u(3,4)] by blast
  let ?u1 = "u\<lparr>w_heap := hp3, w_out := w_out u @ [ReplayingTrace trace, LoadedSnapshot (length (memory_regions s)) (length es)]\<rparr>"
  obtain vm2 u2 u3 u4 u5 where m: "VmPartition_new P ?u1 = Some (Inr vm2, u2)" "configure_interceptions P vm2 u2 = Some (Inr (), u3)"
    "Vcpu_new P (vp_handle vm2) 0 u3 = Some (Inr \<lparr>vc_partition = vp_handle vm2, vc_index = 0\<rparr>, u4)"
    "setup_long_mode P \<lparr>vc_partition = vp_handle vm2, vc_index = 0\<rparr> pt_gpa u4 = Some (Inr (), u5)"
    "u5 = ?u1\<lparr>w_hv := w_hv u5\<rparr>" "live (w_hv u5) (vp_handle vm2) 0" "gpas (w_hv u5) (vp_handle vm2) = (\<lambda>_. None)"
    "exits (w_hv u5) (vp_handle vm2) = intercept_mask" "rest (w_hv u5) (vp_handle vm2) 0 = rest0"
    "regs (w_hv u5) (vp_handle vm2) 0 = upd_regs regs0 (zip long_mode_names (long_mode_values pt_gpa))"
    using replay_machine [of ?u1] u(2) rej by auto
  let ?h = "vp_handle vm2" and ?v = "\<lparr>vc_partition = vp_handle vm2, vc_index = 0\<rparr>"
  define r where "r = register_vcpu 0 ?v (ReplayEngine_new vm2 0)"
  have r: "replays_on vm2 ?v r" by (simp add: r_def)
  have h5: "w_heap u5 = hp3" by (subst m(5)) simp
  obtain u6 where u6: "restore_snapshot P r s capture_names u5 = Some (Inr (), u6)" "u6 = u5\<lparr>w_hv := w_hv u6\<rparr>"
    "live (w_hv u6) ?h 0" "maps_regions (gpas (w_hv u6) ?h) (snap_regions s)" "arch ?v u6 = arch v w1"
    by (rule restore_fresh [OF ord prep s(2-4) [folded h5] s(5) sz m(6-10) r])
  have h6: "w_heap u6 = hp3" using u6(2) h5 unfolding hv_only_iff by simp
  have "replay_prepare P F trace u = Some (Inr (s, es, hash, vm2, ?v, r),
      u6\<lparr>w_out := w_out u6 @ [SnapshotRestored]\<rparr>)"
    using u(1) s(1) m(1-4) u6(1) unfolding replay_prepare_def Let_def as_raw_def
    by (simp add: thenE_step bindE_step println_def fs_read_def expect_some_def ret_def on_heap_def r_def)
  then show ?thesis
    using r u6(3-5) s(2,3) h6 sz
    by (intro exI [of _ s] exI [of _ vm2] exI [of _ r] exI [of _ "u6\<lparr>w_out := w_out u6 @ [SnapshotRestored]\<rparr>"]) simp
qed

lemma handle_vm_exit_ready:
  "ready v w \<Longrightarrow> \<exists>out. handle_vm_exit P v (Inr ctx) w = Some (Inr (), w\<lparr>w_out := w_out w @ out\<rparr>)"
  using get_registers_ready [of w v "[Rax]" "[0]"]
  by (auto simp: handle_vm_exit_def thenE_def bindE_def println_def attempt_def)

lemma replay_verify_ok:
  assumes "live (w_hv w) (vc_partition v) (vc_index v)" and "heap_inv (w_heap w)" and "snap_inv (w_heap w) s"
    and "hash = state_hash (map (regs (w_hv w) (vc_partition v) (vc_index v)) capture_names) (region_bytes (w_heap w) s)"
  shows "\<exists>s' w'. replay_verify P s hash v w = Some (Inr s', w') \<and> w_heap w' = w_heap w \<and> snap_inv (w_heap w') s'
    \<and> VerificationSuccess \<in> set (w_out w')"
proof -
  let ?s = "s\<lparr>registers := map (regs (w_hv w) (vc_partition v) (vc_index v)) capture_names\<rparr>"
  have "hash_state ?s (w_heap w) = Some (Inr hash, w_heap w)"
    using hash_state_eq [OF assms(2), of ?s] assms(3,4) by simp
  then show ?thesis
    using capture_registers_live [OF assms(1), of capture_names s] assms(3)
    by (simp add: replay_verify_def bindE_step thenE_step println_def assert_that_def ret_def on_heap_def)
qed

lemma replay_finish:
  assumes ord: "iterates_all P" and rec: "abs_record guest reject (overflow_checks P) 0 (arch v w) es ctx a'"
    and r: "replays_on vm v r" and rd: "ready v w" and snap: "snap_inv (w_heap w) s"
    and R: "maps_regions (gpas (w_hv w) (vc_partition v)) (snap_regions s)"
    and C: "mem_matches (a_mem a') C" "\<And>g. map_option length (C g) = sizes (snap_regions s) g"
    and hash: "hash = state_hash (map (a_regs a') capture_names) C"
    and prep: "replay_prepare P F trace u = Some (Inr (s, es, hash, vm, v, r), w)"
  shows "\<exists>u'. cli_replay P F trace u = Some (Inr (), u') \<and> VerificationSuccess \<in> set (w_out u')"
proof -
  let ?w1 = "w\<lparr>w_out := w_out w @ [ReplayingEvents (length es)]\<rparr>"
  obtain w2 where w2: "for_each es (replay_event P r) ?w1 = Some (Inr (), w2)" "frame v ?w1 w2"
    "guest (arch v w2) = Some (Inr ctx, a')"
    using replay_trace [OF rec, of ?w1 v vm r] rd r by auto
  let ?w2 = "w2\<lparr>w_out := w_out w2 @ [TraceReplayFinished]\<rparr>"
  have rd2: "ready v ?w2" using frame_ready [OF w2(2)] by simp
  obtain w3 where w3: "VmRunner_run P (VmRunner_new vm v) ?w2 = Some (Inr ctx, w3)" "frame v ?w2 w3" "arch v w3 = a'"
    using run_ready [OF rd2, of vm ctx a'] w2(3) r by (auto simp: replays_on_def)
  obtain out where w4: "handle_vm_exit P v (Inr ctx) w3 = Some (Inr (), w3\<lparr>w_out := w_out w3 @ out\<rparr>)"
    using handle_vm_exit_ready [OF frame_ready [OF w3(2)]] by blast
  have sh: "same_shape (w_heap w) (w_heap w3)" "gpas (w_hv w3) (vc_partition v) = gpas (w_hv w) (vc_partition v)"
    using w2(2) w3(2) same_shape_trans by (auto simp: keeps_def)
  have s3: "snap_inv (w_heap w3) s" by (rule snap_inv_shape [OF sh(1) snap])
  have R3: "regions_in (w_heap w3) (snap_regions s)" "content_of (w_heap w3) (snap_regions s) = region_bytes (w_heap w3) s"
    using snap_regions_in [OF _ s3] frame_ready [OF w3(2)] by blast+
  have "mem_matches (a_mem a') (region_bytes (w_heap w3) s)"
    using regions_in_mem [OF R R3(1)] R3(2) sh(2) w3(3) by (auto simp: arch_of_def)
  then have "region_bytes (w_heap w3) s = C"
    using regions_in_content [OF R3(1)] C(2) unfolding R3(2) by (intro mem_matches_content [OF _ C(1)]) simp_all
  then have "hash = state_hash (map (regs (w_hv w3) (vc_partition v) (vc_index v)) capture_names) (region_bytes (w_heap w3) s)"
    using hash w3(3) by (auto simp: arch_of_def)
  then obtain s' w5 where w5: "replay_verify P s hash v (w3\<lparr>w_out := w_out w3 @ out\<rparr>) = Some (Inr s', w5)"
    "w_heap w5 = w_heap w3" "snap_inv (w_heap w5) s'" "VerificationSuccess \<in> set (w_out w5)"
    using replay_verify_ok [of "w3\<lparr>w_out := w_out w3 @ out\<rparr>" v s hash] frame_ready [OF w3(2)] s3 by auto
  obtain w6 where w6: "Vcpu_drop P v w5 = Some (Inr (), w6)" "w_heap w6 = w_heap w5" by (simp add: Vcpu_drop_def ignore_hv_def)
  obtain w7 where w7: "VmPartition_drop P vm w6 = Some (Inr (), w7)" "w_heap w7 = w_heap w6"
    by (cases "vp_handle vm = 0") (simp_all add: VmPartition_drop_def ignore_hv_def ret_def)
  obtain w8 where w8: "Snapshot_drop P s' w7 = Some (Inr (), w8)"
    using Snapshot_drop_ok [OF ord, of w7 s'] w5(3) w6(2) w7(2) by auto
  have "w_out w8 = w_out w5"
    using quiet_Snapshot_drop w8 quiet_drops(2,3) w6(1) w7(1) unfolding quiet_def by metis
  moreover have "cli_replay P F trace u = Some (Inr (), w8)"
    using prep for_each_expect [OF w2(1)] w3(1) w4 w5(1) w6(1) w7(1) w8 unfolding cli_replay_def
    by (simp add: bindE_step thenE_step println_def attempt_def)
  ultimately show ?thesis using w5(4) by auto
qed

text \<open>The archive of a returned \<open>record\<close> restores the state the recording started from, and verifies.\<close>

lemma recorded_archive_restores:
  assumes F: "binary_format F" and ord: "iterates_all P"
    and run: "cli_record P goblin F target out w = Some (Inr (), w')" and room: "room (w_hv w)" and inv: "heap_inv (w_heap w)"
    and tgt: "hm_get (w_files w) target = Some data" "goblin data = Inr pe"
    and small: "unat (aligned_size \<lparr>pl_pe = pe, raw_bytes = data\<rparr>) \<le> 0xF0000"
    and few: "\<And>a es ctx a'. boots_as regs0 rest0 \<lparr>pl_pe = pe, raw_bytes = data\<rparr> a \<Longrightarrow>
      abs_record guest reject (overflow_checks P) 0 a es ctx a' \<Longrightarrow> length es < 2 ^ 64"
    and u: "hm_get (w_files u) trace = hm_get (w_files w') out" "room (w_hv u)" "heap_inv (w_heap u)"
      "unat (aligned_size \<lparr>pl_pe = pe, raw_bytes = data\<rparr>) + 0x14000 \<le> h_avail (w_heap u)"
  obtains s es ctx a' C vm v r u1 where
    "replay_prepare P F trace u = Some (Inr (s, es, state_hash (map (a_regs a') capture_names) C, vm, v, r), u1)"
    "replays_on vm v r" "live (w_hv u1) (vc_partition v) (vc_index v)" "heap_inv (w_heap u1)" "snap_inv (w_heap u1) s"
    "maps_regions (gpas (w_hv u1) (vc_partition v)) (snap_regions s)"
    "abs_record guest reject (overflow_checks P) 0 (arch v u1) es ctx a'" "mem_matches (a_mem a') C"
    "\<And>g. map_option length (C g) = sizes (snap_regions s) g"
proof -
  obtain vm gl snap v w1 es ctx a' C bytes hp hp' where
    prep: "guest_prepared vm gl snap v w1" and img: "gl_image_size gl = aligned_size \<lparr>pl_pe = pe, raw_bytes = data\<rparr>" and
    boots: "boots_as regs0 rest0 \<lparr>pl_pe = pe, raw_bytes = data\<rparr> (arch v w1)" and
    rec: "abs_record guest reject (overflow_checks P) 0 (arch v w1) es ctx a'" and
    C: "mem_matches (a_mem a') C" "\<forall>g. map_option length (C g) = sizes (layout_regions gl) g" and
    ser: "ser_archive P F snap es (state_hash (map (a_regs a') capture_names) C) hp = Some (Inr bytes, hp')" and
    hp: "heap_inv hp" "snap_inv hp snap" "region_bytes hp snap = region_bytes (w_heap w1) snap" and
    fl: "hm_get (w_files w') out = Some bytes"
    using cli_record_sound [OF run room inv tgt small] by (elim exE conjE)
  have es: "length es < 2 ^ 64" by (rule few [OF boots rec])
  obtain s vm2 r u1 where p: "replay_prepare P F trace u = Some (Inr (s, es, state_hash (map (a_regs a') capture_names) C,
      vm2, \<lparr>vc_partition = vp_handle vm2, vc_index = 0\<rparr>, r), u1)"
    "replays_on vm2 \<lparr>vc_partition = vp_handle vm2, vc_index = 0\<rparr> r"
    "live (w_hv u1) (vp_handle vm2) 0" "heap_inv (w_heap u1)" "snap_inv (w_heap u1) s"
    "maps_regions (gpas (w_hv u1) (vp_handle vm2)) (snap_regions s)" "sizes (snap_regions s) = sizes (layout_regions gl)"
    "arch \<lparr>vc_partition = vp_handle vm2, vc_index = 0\<rparr> u1 = arch v w1"
    using replay_prepare_ok [OF F ord prep ser hp es abs_record_fits [OF rec], of u trace] u fl img by auto
  show ?thesis
    by (rule that [OF p(1,2) _ p(4,5) _ rec [folded p(8)] C(1)]) (use p C(2) in simp_all)
qed

lemma record_then_replay:
  assumes F: "binary_format F" and ord: "iterates_all P"
    and run: "cli_record P goblin F target out w = Some (Inr (), w')" and room: "room (w_hv w)" and inv: "heap_inv (w_heap w)"
    and tgt: "hm_get (w_files w) target = Some data" "goblin data = Inr pe"
    and small: "unat (aligned_size \<lparr>pl_pe = pe, raw_bytes = data\<rparr>) \<le> 0xF0000"
    and few: "\<And>a es ctx a'. boots_as regs0 rest0 \<lparr>pl_pe = pe, raw_bytes = data\<rparr> a \<Longrightarrow>
      abs_record guest reject (overflow_checks P) 0 a es ctx a' \<Longrightarrow> length es < 2 ^ 64"
    and u: "hm_get (w_files u) trace = hm_get (w_files w') out" "room (w_hv u)" "heap_inv (w_heap u)"
      "unat (aligned_size \<lparr>pl_pe = pe, raw_bytes = data\<rparr>) + 0x14000 \<le> h_avail (w_heap u)"
  obtains u' where "cli_replay P F trace u = Some (Inr (), u')"
proof (rule recorded_archive_restores [OF F ord run room inv tgt small few u])
  fix s es ctx a' C vm v r u1
  assume p: "replay_prepare P F trace u = Some (Inr (s, es, state_hash (map (a_regs a') capture_names) C, vm, v, r), u1)"
    "replays_on vm v r" "live (w_hv u1) (vc_partition v) (vc_index v)" "heap_inv (w_heap u1)" "snap_inv (w_heap u1) s"
    "maps_regions (gpas (w_hv u1) (vc_partition v)) (snap_regions s)"
    "abs_record guest reject (overflow_checks P) 0 (arch v u1) es ctx a'" "mem_matches (a_mem a') C"
    "\<And>g. map_option length (C g) = sizes (snap_regions s) g"
  show thesis using replay_finish [OF ord p(7,2) _ p(5,6,8,9) refl p(1)] p(3,4) that by blast
qed

end

end
