(* ===== verification/Cli_Completes.thy ===== *)
theory Cli_Completes
  imports Cli_Determinism
begin

text \<open>
  That \<open>record\<close> returns: with host memory for the guest and for two copies of it, a writable
  output, and a guest that stops, every stage of the command returns and the archive is written.
  What the stages leave behind is in \<open>Cli_Determinism\<close>; here only the returns and the host memory
  they consume are added.
\<close>

section \<open>Capturing returns\<close>

lemma capture_next_returns:
  assumes inv: "heap_inv hp" and snap: "snap_inv hp snap" and fresh: "gpa \<notin> set (hm_keys (memory_regions snap))"
    and old: "\<And>q. heap_content hp0 q \<noteq> None \<Longrightarrow> h_blocks hp q = h_blocks hp0 q"
    and R: "regions_in hp0 R" "R gpa = Some (p, unat sz)"
    and sz: "sz \<noteq> 0" "unat sz \<le> 0xF0000" "unat sz \<le> h_avail hp"
  shows "\<exists>snap' hp'. capture_region gpa p sz snap hp = Some (Inr snap', hp') \<and> h_avail hp' + unat sz = h_avail hp
    \<and> heap_inv hp' \<and> snap_inv hp' snap' \<and> hm_keys (memory_regions snap') = hm_keys (memory_regions snap) @ [gpa]
    \<and> (\<forall>q. heap_content hp0 q \<noteq> None \<longrightarrow> h_blocks hp' q = h_blocks hp0 q)"
proof -
  obtain bs where bs: "heap_content hp0 p = Some bs" "length bs = unat sz"
    using R unfolding regions_in_def by blast
  then have c: "heap_content hp p = Some bs" "unat sz \<le> length bs"
    using old [of p] by (auto simp: heap_content_def)
  have m: "hm_get (memory_regions snap) gpa = None" using fresh by (simp add: hm_get_keys)
  have "unat sz \<le> 2 ^ 63 - 4096" using sz(2) by simp
  then obtain snap' hp' where r: "capture_region gpa p sz snap hp = Some (Inr snap', hp')"
    "h_avail hp' = h_avail hp - unat sz"
    using capture_region_ok [OF inv snap m c sz(1) _ sz(3)] by blast
  have "h_avail hp' + unat sz = h_avail hp" using r(2) sz(3) by simp
  then show ?thesis
    using r(1) capture_next [OF inv snap fresh old R r(1)] by blast
qed

lemma capture_all_returns:
  assumes "heap_inv hp" and "snap_inv hp snap" and "distinct (hm_keys (memory_regions snap) @ map fst rs)"
    and "\<And>q. heap_content hp0 q \<noteq> None \<Longrightarrow> h_blocks hp q = h_blocks hp0 q"
    and "regions_in hp0 R" and "\<forall>(gpa, p, sz) \<in> set rs. R gpa = Some (p, unat sz) \<and> sz \<noteq> 0 \<and> unat sz \<le> 0xF0000"
    and "(\<Sum>(gpa, p, sz) \<leftarrow> rs. unat sz) \<le> h_avail hp"
  shows "\<exists>snap' hp'. capture_all rs snap hp = Some (Inr snap', hp')
    \<and> h_avail hp' + (\<Sum>(gpa, p, sz) \<leftarrow> rs. unat sz) = h_avail hp"
  using assms
proof (induction rs arbitrary: snap hp)
  case (Cons r rs)
  obtain gpa p sz where r: "r = (gpa, p, sz)" by (cases r) auto
  have g: "R gpa = Some (p, unat sz)" "gpa \<notin> set (hm_keys (memory_regions snap))" "sz \<noteq> 0" "unat sz \<le> 0xF0000"
    "unat sz \<le> h_avail hp"
    using Cons.prems(3,6,7) by (auto simp: r)
  obtain s1 hp1 where c: "capture_region gpa p sz snap hp = Some (Inr s1, hp1)" "h_avail hp1 + unat sz = h_avail hp"
    "heap_inv hp1" "snap_inv hp1 s1" "hm_keys (memory_regions s1) = hm_keys (memory_regions snap) @ [gpa]"
    "\<And>q. heap_content hp0 q \<noteq> None \<Longrightarrow> h_blocks hp1 q = h_blocks hp0 q"
    using capture_next_returns [OF Cons.prems(1,2) g(2) Cons.prems(4,5) g(1,3-5)] by blast
  have "\<exists>snap' hp'. capture_all rs s1 hp1 = Some (Inr snap', hp')
      \<and> h_avail hp' + (\<Sum>(gpa, p, sz) \<leftarrow> rs. unat sz) = h_avail hp1"
    using Cons.prems(3,6,7) c(2,5) by (intro Cons.IH [OF c(3,4) _ c(6) Cons.prems(5)]) (auto simp: r)
  then show ?case
    using c(1,2) by (auto simp: r bindE_step)
qed (auto simp: ret_def)

lemma capture_memory_layout_returns:
  assumes inv: "heap_inv hp" and R: "regions_in hp (layout_regions gl)"
    and d: "distinct [base_gpa, gl_stack_base gl, 0, pt_gpa]"
    and sz: "gl_image_size gl \<noteq> 0" "unat (gl_image_size gl) \<le> 0xF0000" "pt_size (gl_tables gl) = 12288"
    and av: "unat (gl_image_size gl) + 0x14000 \<le> h_avail hp"
  shows "\<exists>snap hp'. capture_memory_layout gl hp = Some (Inr snap, hp')
    \<and> h_avail hp' + unat (gl_image_size gl) + 0x14000 = h_avail hp"
proof -
  note L = layout_list_regions [OF d]
  have fresh: "distinct (hm_keys (memory_regions Snapshot_new) @ map fst (layout_list gl))"
    using L(1) by (simp add: hm_keys_def)
  have z: "\<forall>(gpa, p, sz) \<in> set (layout_list gl). layout_regions gl gpa = Some (p, unat sz) \<and> sz \<noteq> 0 \<and> unat sz \<le> 0xF0000"
    using L(2) sz by (simp add: layout_list_def stack_size_def)
  have s: "(\<Sum>(gpa, p, sz) \<leftarrow> layout_list gl. unat sz) = unat (gl_image_size gl) + 0x14000"
    using sz(3) by (simp add: layout_list_def stack_size_def)
  show ?thesis
    using capture_all_returns [OF inv snap_inv_new(1) fresh refl R z, unfolded s, OF av]
    unfolding capture_memory_layout_all by (simp add: add.assoc)
qed

section \<open>Preparing the guest returns\<close>

lemma entry_gpa_value: "add_u64 c base_gpa (entry_point l) = ret (base_gpa + entry_point l)"
proof -
  have "unat (entry_point l) < 2 ^ 32"
    using unsigned_less [of "pe_entry (pl_pe l)", where ?'a = nat]
    by (simp add: entry_point_def unsigned_ucast_eq take_bit_eq_mod)
  then show ?thesis by (simp add: base_gpa_def)
qed

lemma stack_gpa_value:
  assumes "unat sz \<le> 0xF0000"
  shows "add_u64 c (base_gpa + sz) stack_size = ret (base_gpa + sz + stack_size)"
proof -
  have "unat (base_gpa + sz) = 0x100000 + unat sz"
    using assms by (simp add: base_gpa_def unat_word_ariths)
  then show ?thesis using assms by (simp add: stack_size_def)
qed

text \<open>The register writes of the boot sequence that the processor must accept.\<close>

definition boot_accepted :: "(reg_name list \<Rightarrow> reg_value list \<Rightarrow> u32 option) \<Rightarrow> PeLoader \<Rightarrow> bool" where
  "boot_accepted reject l \<longleftrightarrow> reject long_mode_names (long_mode_values pt_gpa) = None
     \<and> reject [Rip, Rsp] [mk_Reg64 (base_gpa + entry_point l), mk_Reg64 (base_gpa + aligned_size l + stack_size)] = None"

context whp_boot
begin

lemma boot_vcpu_returns:
  assumes idle: "idle (w_hv w) (vp_handle vm)" and acc: "boot_accepted reject l"
    and gl: "gl_stack_base gl = base_gpa + aligned_size l" and sz: "unat (aligned_size l) \<le> 0xF0000"
  shows "\<exists>v w'. boot_vcpu P vm l gl w = Some (Inr v, w')"
proof -
  let ?h = "vp_handle vm" and ?v = "\<lparr>vc_partition = vp_handle vm, vc_index = 0\<rparr>"
  obtain w1 where w1: "Vcpu_new P ?h 0 w = Some (Inr ?v, w1)" "live (w_hv w1) ?h 0"
    using Vcpu_new_idle [OF idle, of 0] by blast
  obtain w2 where w2: "setup_long_mode P ?v pt_gpa w1 = Some (Inr (), w2)"
    using set_registers_run [OF w1(2) length_long_mode [symmetric], of pt_gpa] acc
    by (auto simp: boot_accepted_def setup_long_mode_def)
  have "live (w_hv w2) ?h 0"
    using set_registers_inv [OF w1(2) length_long_mode [symmetric] w2 [unfolded setup_long_mode_def]] by blast
  then obtain w3 where "set_registers P ?v [Rip, Rsp]
      [mk_Reg64 (base_gpa + entry_point l), mk_Reg64 (base_gpa + aligned_size l + stack_size)] w2 = Some (Inr (), w3)"
    using set_registers_run [of w2 ?h 0 "[Rip, Rsp]"
        "[mk_Reg64 (base_gpa + entry_point l), mk_Reg64 (base_gpa + aligned_size l + stack_size)]"] acc
    by (auto simp: boot_accepted_def)
  then show ?thesis
    using w1(1) w2 unfolding boot_vcpu_def as_raw_def entry_gpa_value gl stack_gpa_value [OF sz]
    by (simp add: bindE_step thenE_step ret_def)
qed

text \<open>The image in host memory, and a partition for it.\<close>

lemma record_machine_returns:
  assumes room: "room (w_hv w)" and inv: "heap_inv (w_heap w)" and sz: "aligned_size l \<noteq> 0"
    and ok: "\<forall>s \<in> set (pe_sections (pl_pe l)). section_ok (unat (aligned_size l)) (length (raw_bytes l)) s"
    and av: "unat (aligned_size l) + 0x14000 \<le> h_avail (w_heap w)"
  obtains hp1 vm wp w1 bs where "map_into_memory l (w_heap w) = Some (Inr (h_next (w_heap w), aligned_size l), hp1)"
    "VmPartition_new P (w\<lparr>w_heap := hp1\<rparr>) = Some (Inr vm, wp)" "configure_interceptions P vm wp = Some (Inr (), w1)"
    "idle (w_hv w1) (vp_handle vm)" "gpas (w_hv w1) (vp_handle vm) = (\<lambda>_. None)"
    "heap_inv (w_heap w1)" "heap_content (w_heap w1) (h_next (w_heap w)) = Some bs" "length bs = unat (aligned_size l)"
    "0 < unat (aligned_size l)" "unat (aligned_size l) mod 4096 = 0" "h_avail (w_heap w1) + unat (aligned_size l) = h_avail (w_heap w)"
proof -
  obtain hp1 where m: "map_into_memory l (w_heap w) = Some (Inr (h_next (w_heap w), aligned_size l), hp1)"
    using map_into_memory_ok [OF inv sz] ok av by auto
  note img = map_into_memory_image [OF inv m] and fr1 = map_into_memory_frame [OF inv m]
  obtain vm w1 where vm: "bindE (VmPartition_new P) (\<lambda>p. thenE (configure_interceptions P p) (ret p)) (w\<lparr>w_heap := hp1\<rparr>)
      = Some (Inr vm, w1)" "w1 = w\<lparr>w_heap := hp1, w_hv := w_hv w1\<rparr>" "idle (w_hv w1) (vp_handle vm)"
    "gpas (w_hv w1) (vp_handle vm) = (\<lambda>_. None)"
    using partition_ready [of "w\<lparr>w_heap := hp1\<rparr>"] room by auto
  obtain wp where vp: "VmPartition_new P (w\<lparr>w_heap := hp1\<rparr>) = Some (Inr vm, wp)" "configure_interceptions P vm wp = Some (Inr (), w1)"
    using vm(1) by (elim bindE_SomeD thenE_SomeD) (auto simp: ret_Inr)
  have h1: "w_heap w1 = hp1" by (subst vm(2)) simp
  let ?bs = "map (image_byte (raw_bytes l) (pe_sections (pl_pe l)) 0) [0..<unat (aligned_size l)]"
  have c: "heap_content (w_heap w1) (h_next (w_heap w)) = Some ?bs" "length ?bs = unat (aligned_size l)"
    using img by (simp_all add: h1)
  show ?thesis
    by (rule that [OF m vp vm(3,4) _ c]) (use img fr1 in \<open>simp_all add: h1\<close>)
qed

lemma record_prepare_returns:
  assumes room: "room (w_hv w)" and inv: "heap_inv (w_heap w)"
    and tgt: "hm_get (w_files w) target = Some data" "goblin data = Inr pe"
    and l: "l = \<lparr>pl_pe = pe, raw_bytes = data\<rparr>"
    and sz: "aligned_size l \<noteq> 0" "unat (aligned_size l) \<le> 0xF0000"
    and ok: "\<forall>s \<in> set (pe_sections pe). section_ok (unat (aligned_size l)) (length data) s"
    and acc: "boot_accepted reject l"
    and av: "2 * (unat (aligned_size l) + 0x14000) \<le> h_avail (w_heap w)"
  shows "\<exists>vm gl snap v w'. record_prepare P goblin target w = Some (Inr (vm, gl, snap, v), w')
    \<and> h_avail (w_heap w') + 2 * (unat (aligned_size l) + 0x14000) = h_avail (w_heap w)
    \<and> am_inv (w_heap w') (gl_stack gl) \<and> am_inv (w_heap w') (gl_null gl) \<and> am_ptr (gl_stack gl) \<noteq> am_ptr (gl_null gl)"
proof -
  let ?w0 = "w\<lparr>w_out := w_out w @ [RecordingTarget target]\<rparr>"
  have pre: "room (w_hv ?w0)" "heap_inv (w_heap ?w0)" "\<forall>s \<in> set (pe_sections (pl_pe l)). section_ok (unat (aligned_size l)) (length (raw_bytes l)) s"
    "unat (aligned_size l) + 0x14000 \<le> h_avail (w_heap ?w0)"
    using room inv ok av by (simp_all add: l)
  obtain hp1 vm wp w1 bs where m: "map_into_memory l (w_heap ?w0) = Some (Inr (h_next (w_heap ?w0), aligned_size l), hp1)"
    and vp: "VmPartition_new P (?w0\<lparr>w_heap := hp1\<rparr>) = Some (Inr vm, wp)" "configure_interceptions P vm wp = Some (Inr (), w1)"
    and vm: "idle (w_hv w1) (vp_handle vm)" "gpas (w_hv w1) (vp_handle vm) = (\<lambda>_. None)"
    and c: "heap_inv (w_heap w1)" "heap_content (w_heap w1) (h_next (w_heap ?w0)) = Some bs" "length bs = unat (aligned_size l)"
      "0 < unat (aligned_size l)" "unat (aligned_size l) mod 4096 = 0"
    and h1: "h_avail (w_heap w1) + unat (aligned_size l) = h_avail (w_heap ?w0)"
    by (rule record_machine_returns [OF pre(1,2) sz(1) pre(3,4)])
  have av1: "0x14000 \<le> h_avail (w_heap w1)" using h1 pre(4) by simp
  obtain gl w2 where g: "map_guest_memory P vm (h_next (w_heap ?w0)) (aligned_size l) w1 = Some (Inr gl, w2)"
    "gl_stack_base gl = base_gpa + aligned_size l" "gl_image_size gl = aligned_size l" "pt_size (gl_tables gl) = 12288"
    "regions_in (w_heap w2) (layout_regions gl)" "heap_inv (w_heap w2)" "idle (w_hv w2) (vp_handle vm)"
    "h_avail (w_heap w2) + 0x14000 = h_avail (w_heap w1)" "am_inv (w_heap w2) (gl_stack gl)" "am_inv (w_heap w2) (gl_null gl)"
    "am_ptr (gl_stack gl) \<noteq> am_ptr (gl_null gl)"
    using map_guest_memory_ok [OF vm c(1-4) sz(2) c(5) av1] by blast
  have d: "distinct [base_gpa, gl_stack_base gl, 0, pt_gpa]"
    using layout_regions_ok [of gl] g(2-4) c(4,5) sz(2) by simp
  have av2: "unat (gl_image_size gl) + 0x14000 \<le> h_avail (w_heap w2)"
    using av h1 g(3,8) by simp
  obtain snap0 hp3 where s: "capture_memory_layout gl (w_heap w2) = Some (Inr snap0, hp3)"
    "h_avail hp3 + unat (gl_image_size gl) + 0x14000 = h_avail (w_heap w2)"
    using capture_memory_layout_returns [OF g(6,5) d _ _ g(4) av2] g(3) sz by auto
  have keep: "am_inv hp3 x" if "am_inv (w_heap w2) x" for x
    by (rule am_inv_frame [OF that]) (use capture_memory_layout_sound [OF g(6,5) d s(1)] in blast)
  let ?w3 = "w2\<lparr>w_heap := hp3, w_out := w_out w2 @ [TargetMapped base_gpa (entry_point l)]\<rparr>"
  have i3: "idle (w_hv ?w3) (vp_handle vm)" using g(7) by simp
  obtain v w4 where b: "boot_vcpu P vm l gl ?w3 = Some (Inr v, w4)"
    using boot_vcpu_returns [OF i3 acc g(2) sz(2)] by blast
  have b4: "live (w_hv w4) (vc_partition v) (vc_index v)" "w_heap w4 = hp3"
    using boot_vcpu_sound [OF b i3] unfolding hv_only_iff by auto
  obtain snap where cr: "capture_registers P v capture_names snap0 w4 = Some (Inr snap, w4)"
    using capture_registers_live [OF b4(1)] by blast
  have "record_prepare P goblin target w = Some (Inr (vm, gl, snap, v), w4)"
    using m vp g(1) s(1) b cr tgt l unfolding record_prepare_def
    by (simp add: bindE_step thenE_step println_def fs_read_def expect_some_def expect_right_def PeLoader_parse_def
        on_heap_def ret_def)
  moreover have "h_avail (w_heap w4) + 2 * (unat (aligned_size l) + 0x14000) = h_avail (w_heap w)"
    using s(2) g(3,8) h1 unfolding b4(2) by simp
  ultimately show ?thesis
    using keep g(9-11) b4(2) by auto
qed


text \<open>Writing the archive: the snapshot of the end shares nothing with what existed before.\<close>

lemma record_archive_returns:
  assumes lv: "live (w_hv w) (vc_partition v) (vc_index v)" and inv: "heap_inv (w_heap w)"
    and R: "regions_in (w_heap w) (layout_regions gl)" and d: "distinct [base_gpa, gl_stack_base gl, 0, pt_gpa]"
    and snap: "snap_inv (w_heap w) snap" and ord: "iterates_all P" and fs: "fs_writable P out"
    and sz: "gl_image_size gl \<noteq> 0" "unat (gl_image_size gl) \<le> 0xF0000" "pt_size (gl_tables gl) = 12288"
    and av: "unat (gl_image_size gl) + 0x14000 \<le> h_avail (w_heap w)"
  shows "\<exists>fs w'. record_archive P F out gl snap v eng w = Some (Inr fs, w')
    \<and> snap_inv (w_heap w') fs \<and> snap_ptrs fs \<subseteq> {q. heap_content (w_heap w) q = None}
    \<and> (\<forall>q. heap_content (w_heap w) q \<noteq> None \<longrightarrow> h_blocks (w_heap w') q = h_blocks (w_heap w) q)
    \<and> TraceSaved \<in> set (w_out w')"
proof -
  obtain fs0 hp1 where c1: "capture_memory_layout gl (w_heap w) = Some (Inr fs0, hp1)"
    using capture_memory_layout_returns [OF inv R d sz av] by blast
  have cap: "heap_inv hp1" "snap_inv hp1 fs0" "snap_ptrs fs0 \<subseteq> {q. heap_content (w_heap w) q = None}"
    "\<And>q. heap_content (w_heap w) q \<noteq> None \<Longrightarrow> h_blocks hp1 q = h_blocks (w_heap w) q"
    using capture_memory_layout_sound [OF inv R d c1] by blast+
  let ?w1 = "w\<lparr>w_heap := hp1\<rparr>"
  let ?fs = "fs0\<lparr>registers := map (regs (w_hv w) (vc_partition v) (vc_index v)) capture_names\<rparr>"
  have cr: "capture_registers P v capture_names fs0 ?w1 = Some (Inr ?fs, ?w1)"
    using capture_registers_live [of ?w1 v capture_names fs0] lv by simp
  obtain h where hs: "hash_state ?fs hp1 = Some (Inr h, hp1)"
    using hash_state_eq [of hp1 ?fs] cap(1,2) by auto
  have "h_blocks hp1 q = h_blocks (w_heap w) q" if "q \<in> snap_ptrs snap" for q
    using snap_ptrs_allocated [OF snap that] cap(4) by blast
  then have "snap_inv hp1 snap" using snap_frame [OF snap, of hp1] by blast
  then obtain bytes where ser: "ser_archive P F snap (RecordEngine_finalize eng) h hp1 = Some (Inr bytes, hp1)"
    using ser_archive_ok [OF cap(1) _ ord] by blast
  show ?thesis
    using cr hs ser fs c1 cap(2-4) unfolding record_archive_def Let_def
    by (simp add: bindE_step thenE_step println_def fs_write_def modify_def ret_def on_heap_def)
qed

end

lemma record_drop_returns:
  fixes P :: "'h platform"
  assumes ord: "iterates_all P"
    and s: "snap_inv (w_heap w) fs" "snap_inv (w_heap w) snap" "snap_ptrs fs \<inter> snap_ptrs snap = {}"
    and a: "am_inv (w_heap w) (gl_stack gl)" "am_inv (w_heap w) (gl_null gl)" "am_ptr (gl_stack gl) \<noteq> am_ptr (gl_null gl)"
    and na: "{am_ptr (gl_stack gl), am_ptr (gl_null gl)} \<inter> (snap_ptrs fs \<union> snap_ptrs snap) = {}"
  shows "\<exists>w'. record_drop P vm gl snap v fs w = Some (Inr (), w')"
proof -
  obtain w1 where w1: "Snapshot_drop P fs w = Some (Inr (), w1)"
    "\<And>q. q \<notin> snap_ptrs fs \<Longrightarrow> h_blocks (w_heap w1) q = h_blocks (w_heap w) q"
    using Snapshot_drop_ok [OF ord s(1)] by blast
  obtain w2 where w2: "Vcpu_drop P v w1 = Some (Inr (), w2)" "w_heap w2 = w_heap w1"
    by (simp add: Vcpu_drop_def ignore_hv_def)
  have "snap_inv (w_heap w2) snap"
    using snap_frame(1) [OF s(2), of "w_heap w2"] w1(2) w2(2) s(3) by auto
  then obtain w3 where w3: "Snapshot_drop P snap w2 = Some (Inr (), w3)"
    "\<And>q. q \<notin> snap_ptrs snap \<Longrightarrow> h_blocks (w_heap w3) q = h_blocks (w_heap w2) q"
    using Snapshot_drop_ok [OF ord] by blast
  have am3: "am_inv (w_heap w3) m" if "am_inv (w_heap w) m" "am_ptr m \<notin> snap_ptrs fs \<union> snap_ptrs snap" for m
    using am_inv_mono [OF that(1), of "w_heap w3"] w1(2) w2(2) w3(2) that(2) by simp
  have dr: "\<exists>w'. on_heap (AlignedMemory_drop m) w = Some (Inr (), w')
      \<and> (\<forall>q. q \<noteq> am_ptr m \<longrightarrow> h_blocks (w_heap w') q = h_blocks (w_heap w) q)"
    if "am_inv (w_heap w) m" for m and w :: "'h world"
    using that by (auto simp: am_inv_def AlignedMemory_drop_def dealloc_def)
  obtain w4 where w4: "on_heap (AlignedMemory_drop (gl_null gl)) w3 = Some (Inr (), w4)"
    "\<And>q. q \<noteq> am_ptr (gl_null gl) \<Longrightarrow> h_blocks (w_heap w4) q = h_blocks (w_heap w3) q"
    using dr [of w3 "gl_null gl"] am3 [OF a(2)] na by auto
  have "am_inv (w_heap w4) (gl_stack gl)"
    using am_inv_mono [OF am3 [OF a(1)], of "w_heap w4"] na w4(2) a(3) by auto
  then obtain w5 where w5: "on_heap (AlignedMemory_drop (gl_stack gl)) w4 = Some (Inr (), w5)"
    using dr by blast
  obtain w6 where w6: "VmPartition_drop P vm w5 = Some (Inr (), w6)"
    by (cases "vp_handle vm = 0") (simp_all add: VmPartition_drop_def ignore_hv_def ret_def)
  show ?thesis
    using w1(1) w2(1) w3(1) w4(1) w5 w6 unfolding record_drop_def record_drop_locals_def
    by (simp add: thenE_step del: on_heap_Inr)
qed

context whp_boot
begin

lemma record_run_returns:
  assumes prep: "guest_prepared vm gl snap v w"
    and rec: "abs_record guest reject (overflow_checks P) 0 (arch v w) es ctx a'"
  shows "\<exists>eng w'. with_engine (RecordEngine_run P) (RecordEngine_new vm v) w = Some (Inr eng, w')
    \<and> RecordEngine_finalize eng = es \<and> frame v w w'"
proof -
  have "ready v w" "records_on vm v (RecordEngine_new vm v)"
    using prep by (auto simp: guest_prepared_def)
  then obtain w' eng where "record_loop P 0 (w, RecordEngine_new vm v) = Some (Inr (), (w', eng))"
    "events (re_logger eng) = es" "frame v w w'"
    using record_loop_complete [OF rec, of w v vm "RecordEngine_new vm v"] by auto
  then show ?thesis
    by (auto simp: with_engine_def RecordEngine_run_def RecordEngine_finalize_def)
qed


text \<open>
  The whole command. The host memory needed is that of the guest (the image, \<open>0x14000\<close> bytes of
  stack, null page and page tables) three times: the guest itself and its two captures.
\<close>

lemma cli_record_returns:
  assumes ord: "iterates_all P" and fs: "fs_writable P out"
    and room: "room (w_hv w)" and inv: "heap_inv (w_heap w)"
    and tgt: "hm_get (w_files w) target = Some data" "goblin data = Inr pe"
    and l: "l = \<lparr>pl_pe = pe, raw_bytes = data\<rparr>"
    and sz: "aligned_size l \<noteq> 0" "unat (aligned_size l) \<le> 0xF0000"
    and ok: "\<forall>s \<in> set (pe_sections pe). section_ok (unat (aligned_size l)) (length data) s"
    and acc: "boot_accepted reject l"
    and av: "3 * (unat (aligned_size l) + 0x14000) \<le> h_avail (w_heap w)"
    and stops: "\<And>a. boots_as regs0 rest0 l a \<Longrightarrow> \<exists>es ctx a'. abs_record guest reject (overflow_checks P) 0 a es ctx a'"
  shows "\<exists>w'. cli_record P goblin F target out w = Some (Inr (), w') \<and> TraceSaved \<in> set (w_out w')"
proof -
  have av': "2 * (unat (aligned_size l) + 0x14000) \<le> h_avail (w_heap w)" using av by simp
  obtain vm gl snap v w1 where p: "record_prepare P goblin target w = Some (Inr (vm, gl, snap, v), w1)"
    "h_avail (w_heap w1) + 2 * (unat (aligned_size l) + 0x14000) = h_avail (w_heap w)"
    "am_inv (w_heap w1) (gl_stack gl)" "am_inv (w_heap w1) (gl_null gl)" "am_ptr (gl_stack gl) \<noteq> am_ptr (gl_null gl)"
    using record_prepare_returns [of w target data goblin pe l, OF room inv tgt l sz ok acc av'] by blast
  have g: "guest_prepared vm gl snap v w1" "gl_image_size gl = aligned_size l" "boots_as regs0 rest0 l (arch v w1)"
    using record_prepare_sound [OF p(1) room inv tgt] sz(2) unfolding l by blast+
  let ?w1 = "w1\<lparr>w_out := w_out w1 @ [StartingRecordMode]\<rparr>" and ?R = "layout_regions gl"
  have g1: "guest_prepared vm gl snap v ?w1" using g(1) by (simp add: guest_prepared_out)
  obtain es ctx a' where rec: "abs_record guest reject (overflow_checks P) 0 (arch v ?w1) es ctx a'"
    using stops [OF g(3)] by auto
  obtain eng w2 where r: "with_engine (RecordEngine_run P) (RecordEngine_new vm v) ?w1 = Some (Inr eng, w2)"
    "frame v ?w1 w2"
    using record_run_returns [OF g1 rec] by blast
  have q: "v = \<lparr>vc_partition = vp_handle vm, vc_index = 0\<rparr>" "distinct [base_gpa, gl_stack_base gl, 0, pt_gpa]"
    "maps_regions (gpas (w_hv w1) (vp_handle vm)) ?R" "regions_in (w_heap w1) ?R" "snap_inv (w_heap w1) snap"
    "snap_ptrs snap \<inter> region_ptrs ?R = {}" "pt_size (gl_tables gl) = 12288"
    using g(1) unfolding guest_prepared_def by blast+
  have f: "live (w_hv w2) (vc_partition v) (vc_index v)" "heap_inv (w_heap w2)" "same_shape (w_heap w1) (w_heap w2)"
    using r(2) by (simp_all add: keeps_def)
  have s2: "snap_inv (w_heap w2) snap" by (rule snap_inv_shape [OF f(3) q(5)])
  have a2: "am_inv (w_heap w2) (gl_stack gl)" "am_inv (w_heap w2) (gl_null gl)"
    using am_inv_shape [OF f(3)] p(3,4) by blast+
  have av2: "unat (gl_image_size gl) + 0x14000 \<le> h_avail (w_heap w2)"
    using p(2) av f(3) g(2) by (simp add: same_shape_def)
  obtain fs' w3 where t: "record_archive P F out gl snap v eng w2 = Some (Inr fs', w3)" "snap_inv (w_heap w3) fs'"
    "snap_ptrs fs' \<subseteq> {q. heap_content (w_heap w2) q = None}" "TraceSaved \<in> set (w_out w3)"
    "\<And>q. heap_content (w_heap w2) q \<noteq> None \<Longrightarrow> h_blocks (w_heap w3) q = h_blocks (w_heap w2) q"
    using record_archive_returns [OF f(1,2) regions_in_shape [OF f(3) q(4)] q(2) s2 ord fs sz [folded g(2)] q(7) av2] by blast
  have s3: "snap_inv (w_heap w3) snap"
    by (rule snap_frame(1) [OF s2]) (use snap_ptrs_allocated [OF s2] t(5) in blast)
  have a3: "am_inv (w_heap w3) (gl_stack gl)" "am_inv (w_heap w3) (gl_null gl)"
    using am_inv_frame [OF a2(1) t(5)] am_inv_frame [OF a2(2) t(5)] by blast+
  have "snap_ptrs fs' \<inter> snap_ptrs snap = {}"
    using t(3) snap_ptrs_allocated [OF s2] by blast
  moreover have "{am_ptr (gl_stack gl), am_ptr (gl_null gl)} \<inter> (snap_ptrs fs' \<union> snap_ptrs snap) = {}"
    using t(3) a2 [THEN am_inv_allocated] layout_region_ptrs [OF q(2)] q(6) by auto
  ultimately obtain w4 where "record_drop P vm gl snap v fs' w3 = Some (Inr (), w4)"
    using record_drop_returns [OF ord t(2) s3 _ a3 p(5)] by blast
  moreover from this have "w_out w4 = w_out w3"
    using quiet_drops(1) unfolding quiet_def by blast
  ultimately show ?thesis
    using p(1) r(1) t(1,4) unfolding cli_record_def
    by (simp add: bindE_step thenE_step println_def)
qed

end

end
