(* ===== verification/Reference_Hypervisor.thy ===== *)
theory Reference_Hypervisor
  imports Whp_Boot
begin

text \<open>
  An executable hypervisor that satisfies \<open>whp_contract\<close>: partitions with a register file per
  virtual processor and a list of mapped ranges; the guest is a program that reads the
  architectural state and produces an exit, new registers, stores into guest memory and a new
  private state. Stores go through the mapping into host memory. It is the instance on which
  the contract is shown to be consistent and on which the closed examples of the development
  run; the guest programs of the repository are plugged into it in \<open>Guest_Programs\<close>.
\<close>

section \<open>Partitions\<close>

record 'x ref_part =
  rf_regs :: "u32 \<Rightarrow> (reg_name \<Rightarrow> reg_value) option"
  rf_ranges :: "(u64 \<times> u64 \<times> ptr \<times> u32) list"
  rf_exits :: u64
  rf_rest :: "u32 \<Rightarrow> 'x"
  rf_setup :: bool

record 'x ref_hv =
  hv_parts :: "handle \<Rightarrow> 'x ref_part option"
  hv_next :: handle
  hv_room :: nat

type_synonym 'x prog =
  "'x arch \<Rightarrow> ((u32 + exit_context) \<times> (reg_name \<Rightarrow> reg_value) \<times> (u64 \<times> u8) list \<times> 'x) option"

definition in_range :: "u64 \<Rightarrow> u64 \<times> u64 \<times> ptr \<times> u32 \<Rightarrow> bool" where
  "in_range g r = (case r of (gpa, sz, p, fl) \<Rightarrow> gpa \<le> g \<and> g - gpa < sz)"

definition ref_lookup :: "(u64 \<times> u64 \<times> ptr \<times> u32) list \<Rightarrow> gpa_map" where
  "ref_lookup rs g = (case find (in_range g) rs of
      None \<Rightarrow> None
    | Some (gpa, sz, p, fl) \<Rightarrow> Some (p, unat (g - gpa), fl))"

definition reset_regs :: "reg_name \<Rightarrow> reg_value" where
  "reset_regs n = (if n = Rflags then mk_Reg64 2 else 0)"

definition ref_fail :: u32 where
  "ref_fail = 0x80004005"

section \<open>The calls\<close>

text \<open>A handle is never null.\<close>

definition ref_handle :: "'x ref_hv \<Rightarrow> handle" where
  "ref_handle h = (if hv_next h = 0 then 1 else hv_next h)"

definition ref_create :: "'x \<Rightarrow> 'x ref_hv \<Rightarrow> (u32 + handle) \<times> 'x ref_hv" where
  "ref_create x0 h =
    (if hv_room h = 0 then (Inl ref_fail, h)
     else (Inr (ref_handle h), h\<lparr>hv_parts := (hv_parts h)(ref_handle h \<mapsto>
        \<lparr>rf_regs = (\<lambda>_. None), rf_ranges = [], rf_exits = 0, rf_rest = (\<lambda>_. x0), rf_setup = False\<rparr>),
        hv_next := ref_handle h + 1, hv_room := hv_room h - 1\<rparr>))"

definition ref_update ::
    "handle \<Rightarrow> ('x ref_part \<Rightarrow> 'x ref_part option) \<Rightarrow> 'x ref_hv \<Rightarrow> (u32 + unit) \<times> 'x ref_hv" where
  "ref_update p f h = (case Option.bind (hv_parts h p) f of
      None \<Rightarrow> (Inl ref_fail, h)
    | Some part \<Rightarrow> (Inr (), h\<lparr>hv_parts := (hv_parts h)(p \<mapsto> part)\<rparr>))"

definition ref_set_property :: "handle \<Rightarrow> partition_property \<Rightarrow> 'x ref_hv \<Rightarrow> (u32 + unit) \<times> 'x ref_hv" where
  "ref_set_property p prop = ref_update p (\<lambda>part. case prop of
      ProcessorCount n \<Rightarrow> Some part
    | ExtendedVmExits m \<Rightarrow> Some (part\<lparr>rf_exits := m\<rparr>))"

definition ref_setup :: "handle \<Rightarrow> 'x ref_hv \<Rightarrow> (u32 + unit) \<times> 'x ref_hv" where
  "ref_setup p = ref_update p (\<lambda>part. Some (part\<lparr>rf_setup := True\<rparr>))"

definition ref_delete :: "handle \<Rightarrow> 'x ref_hv \<Rightarrow> (u32 + unit) \<times> 'x ref_hv" where
  "ref_delete p h = (case hv_parts h p of
      None \<Rightarrow> (Inl ref_fail, h)
    | Some part \<Rightarrow> (Inr (), h\<lparr>hv_parts := (hv_parts h)(p := None), hv_room := Suc (hv_room h)\<rparr>))"

text \<open>Ranges are whole pages and do not wrap; a new range hides what it overlaps.\<close>

definition ref_map :: "handle \<Rightarrow> ptr \<Rightarrow> u64 \<Rightarrow> u64 \<Rightarrow> u32 \<Rightarrow> 'x ref_hv \<Rightarrow> (u32 + unit) \<times> 'x ref_hv" where
  "ref_map p q gpa sz fl = ref_update p (\<lambda>part.
     if unat gpa mod 4096 = 0 \<and> unat sz mod 4096 = 0 \<and> unat gpa + unat sz \<le> 2 ^ 64
     then Some (part\<lparr>rf_ranges := (gpa, sz, q, fl) # rf_ranges part\<rparr>) else None)"

definition ref_create_vp :: "'x \<Rightarrow> handle \<Rightarrow> u32 \<Rightarrow> u32 \<Rightarrow> 'x ref_hv \<Rightarrow> (u32 + unit) \<times> 'x ref_hv" where
  "ref_create_vp x0 p i flags = ref_update p (\<lambda>part.
     if rf_setup part \<and> rf_regs part i = None
     then Some (part\<lparr>rf_regs := (rf_regs part)(i \<mapsto> reset_regs), rf_rest := (rf_rest part)(i := x0)\<rparr>)
     else None)"

definition ref_delete_vp :: "handle \<Rightarrow> u32 \<Rightarrow> 'x ref_hv \<Rightarrow> (u32 + unit) \<times> 'x ref_hv" where
  "ref_delete_vp p i = ref_update p (\<lambda>part. Some (part\<lparr>rf_regs := (rf_regs part)(i := None)\<rparr>))"

definition ref_regs :: "'x ref_hv \<Rightarrow> handle \<Rightarrow> u32 \<Rightarrow> reg_name \<Rightarrow> reg_value" where
  "ref_regs h p i n = (case hv_parts h p of
      None \<Rightarrow> 0
    | Some part \<Rightarrow> (case rf_regs part i of None \<Rightarrow> 0 | Some f \<Rightarrow> f n))"

definition ref_gpas :: "'x ref_hv \<Rightarrow> handle \<Rightarrow> gpa_map" where
  "ref_gpas h p = (case hv_parts h p of None \<Rightarrow> (\<lambda>_. None) | Some part \<Rightarrow> ref_lookup (rf_ranges part))"

definition ref_exits :: "'x ref_hv \<Rightarrow> handle \<Rightarrow> u64" where
  "ref_exits h p = (case hv_parts h p of None \<Rightarrow> 0 | Some part \<Rightarrow> rf_exits part)"

definition ref_rest :: "'x \<Rightarrow> 'x ref_hv \<Rightarrow> handle \<Rightarrow> u32 \<Rightarrow> 'x" where
  "ref_rest x0 h p i = (case hv_parts h p of None \<Rightarrow> x0 | Some part \<Rightarrow> rf_rest part i)"

definition ref_has :: "'x ref_hv \<Rightarrow> handle \<Rightarrow> u32 \<Rightarrow> bool" where
  "ref_has h p i \<longleftrightarrow> (case hv_parts h p of
      None \<Rightarrow> False
    | Some part \<Rightarrow> rf_setup part \<and> rf_regs part i \<noteq> None)"

definition ref_get :: "handle \<Rightarrow> u32 \<Rightarrow> reg_name list \<Rightarrow> 'x ref_hv \<Rightarrow> (u32 + reg_value list) \<times> 'x ref_hv" where
  "ref_get p i ns h = (if ref_has h p i then (Inr (map (ref_regs h p i) ns), h) else (Inl ref_fail, h))"

definition ref_set ::
    "handle \<Rightarrow> u32 \<Rightarrow> reg_name list \<Rightarrow> reg_value list \<Rightarrow> 'x ref_hv \<Rightarrow> (u32 + unit) \<times> 'x ref_hv" where
  "ref_set p i ns vs = ref_update p (\<lambda>part. case rf_regs part i of
      None \<Rightarrow> None
    | Some f \<Rightarrow> Some (part\<lparr>rf_regs := (rf_regs part)(i \<mapsto> upd_regs f (zip ns vs))\<rparr>))"

section \<open>Running a program\<close>

text \<open>A store reaches a mapped, writable byte; any other store has no effect.\<close>

definition poke :: "u64 \<times> u8 \<Rightarrow> (u64 \<Rightarrow> (u8 \<times> u32) option) \<Rightarrow> u64 \<Rightarrow> (u8 \<times> u32) option" where
  "poke gb m = (case m (fst gb) of
      None \<Rightarrow> m
    | Some (_, fl) \<Rightarrow> if bit fl 1 then m(fst gb \<mapsto> (snd gb, fl)) else m)"

definition heap_poke :: "gpa_map \<Rightarrow> u64 \<times> u8 \<Rightarrow> heap \<Rightarrow> heap" where
  "heap_poke m gb hp = (case m (fst gb) of
      None \<Rightarrow> hp
    | Some (p, off, fl) \<Rightarrow> (case h_blocks hp p of
        None \<Rightarrow> hp
      | Some b \<Rightarrow> if bit fl 1 \<and> off < length (b_bytes b)
          then hp\<lparr>h_blocks := (h_blocks hp)(p \<mapsto> b\<lparr>b_bytes := (b_bytes b)[off := snd gb]\<rparr>)\<rparr> else hp))"

definition run_prog :: "'x prog \<Rightarrow> 'x arch \<Rightarrow> ((u32 + exit_context) \<times> 'x arch) option" where
  "run_prog prog a = (case prog a of
      None \<Rightarrow> None
    | Some (res, rs, ws, x) \<Rightarrow> Some (res,
        a\<lparr>a_regs := (\<lambda>n. reg_canon n (rs n)), a_mem := fold poke ws (a_mem a), a_rest := x\<rparr>))"

definition ref_run ::
    "'x \<Rightarrow> 'x prog \<Rightarrow> handle \<Rightarrow> u32 \<Rightarrow> heap \<times> 'x ref_hv
      \<Rightarrow> ((u32 + exit_context) \<times> heap \<times> 'x ref_hv) option" where
  "ref_run x0 prog p i s = (case s of (hp, h) \<Rightarrow>
     if ref_has h p i then
       (case prog (arch_of ref_regs ref_gpas ref_exits (ref_rest x0) \<lparr>vc_partition = p, vc_index = i\<rparr> hp h) of
          None \<Rightarrow> None
        | Some (res, rs, ws, x) \<Rightarrow> Some (res, fold (heap_poke (ref_gpas h p)) ws hp,
            snd (ref_update p (\<lambda>part. Some (part\<lparr>rf_regs := (rf_regs part)(i \<mapsto> (\<lambda>n. reg_canon n (rs n))),
              rf_rest := (rf_rest part)(i := x)\<rparr>)) h)))
     else Some (Inl ref_fail, hp, h))"

definition ref_platform ::
    "bool \<Rightarrow> (u64 list \<Rightarrow> u64 list) \<Rightarrow> 'x \<Rightarrow> 'x prog \<Rightarrow> 'x ref_hv platform" where
  "ref_platform checks ord x0 prog =
    \<lparr>WHvCreatePartition = ref_create x0, WHvSetPartitionProperty = ref_set_property,
     WHvSetupPartition = ref_setup, WHvDeletePartition = ref_delete, WHvMapGpaRange = ref_map,
     WHvCreateVirtualProcessor = ref_create_vp x0, WHvDeleteVirtualProcessor = ref_delete_vp,
     WHvGetVirtualProcessorRegisters = ref_get, WHvSetVirtualProcessorRegisters = ref_set,
     WHvRunVirtualProcessor = ref_run x0 prog, overflow_checks = checks, hash_order = ord,
     fs_writable = (\<lambda>_. True)\<rparr>"

text \<open>
  A processor is live when it exists, its registers are in canonical form and no host byte is
  mapped at two addresses.
\<close>

definition inj_map :: "gpa_map \<Rightarrow> bool" where
  "inj_map m \<longleftrightarrow> (\<forall>g g' p off fl fl'. m g = Some (p, off, fl) \<longrightarrow> m g' = Some (p, off, fl') \<longrightarrow> g = g')"

definition ref_live :: "'x ref_hv \<Rightarrow> handle \<Rightarrow> u32 \<Rightarrow> bool" where
  "ref_live h p i \<longleftrightarrow> (case hv_parts h p of
      None \<Rightarrow> False
    | Some part \<Rightarrow> rf_setup part \<and> inj_map (ref_lookup (rf_ranges part)) \<and>
        (case rf_regs part i of None \<Rightarrow> False | Some f \<Rightarrow> \<forall>n. reg_canon n (f n) = f n))"

section \<open>Registers\<close>

lemma reg_canon_idem [simp]: "reg_canon n (reg_canon n v) = reg_canon n v"
  by (simp add: reg_canon_def)

lemma upd_regs_canon:
  "\<forall>n. reg_canon n (f n) = f n \<Longrightarrow> reg_canon n (upd_regs f nvs n) = upd_regs f nvs n"
  unfolding upd_regs_def
proof (induction nvs arbitrary: f)
  case Nil
  then show ?case by simp
next
  case (Cons nv nvs)
  then show ?case by (cases nv) simp
qed

section \<open>Memory\<close>

lemma ref_lookup_Nil [simp]: "ref_lookup [] = (\<lambda>_. None)"
  by (simp add: ref_lookup_def fun_eq_iff)

lemma ref_lookup_Cons [simp]: "ref_lookup ((gpa, sz, p, fl) # rs) = map_range (ref_lookup rs) p gpa sz fl"
  by (simp add: ref_lookup_def map_range_def in_range_def fun_eq_iff)

lemma inj_map_empty [simp]: "inj_map (\<lambda>_. None)" "mapped_ptrs (\<lambda>_. None) = {}"
  by (simp_all add: inj_map_def mapped_ptrs_def)

lemma inj_map_range:
  assumes "inj_map m" and "q \<notin> mapped_ptrs m"
  shows "inj_map (map_range m q gpa sz fl)"
  unfolding inj_map_def
proof (intro allI impI)
  fix g g' p off f f'
  assume l: "map_range m q gpa sz fl g = Some (p, off, f)" "map_range m q gpa sz fl g' = Some (p, off, f')"
  show "g = g'"
  proof (cases "p = q")
    case True
    then have "unat (g - gpa) = off" "unat (g' - gpa) = off"
      using l assms(2) by (auto simp: map_range_def mapped_ptrs_def split: if_splits)
    then have "g - gpa = g' - gpa" by (simp add: word_unat_eq_iff)
    then show ?thesis by simp
  next
    case False
    then have "m g = Some (p, off, f)" "m g' = Some (p, off, f')"
      using l by (auto simp: map_range_def split: if_splits)
    then show ?thesis using assms(1) unfolding inj_map_def by blast
  qed
qed

lemma heap_byte_poke:
  "heap_byte (heap_poke m gb hp) p off =
    (case m (fst gb) of
       Some (q, o', fl) \<Rightarrow>
         if q = p \<and> o' = off \<and> bit fl 1 \<and> heap_byte hp p off \<noteq> None then Some (snd gb)
         else heap_byte hp p off
     | None \<Rightarrow> heap_byte hp p off)"
  by (auto simp: heap_poke_def heap_byte_def heap_content_def split: option.splits)

lemma guest_mem_poke:
  assumes "inj_map m"
  shows "guest_mem (heap_poke m gb hp) m = poke gb (guest_mem hp m)"
proof
  fix g
  show "guest_mem (heap_poke m gb hp) m g = poke gb (guest_mem hp m) g"
  proof (cases "m g")
    case None
    then show ?thesis
      by (cases "g = fst gb") (auto simp: guest_mem_def poke_def split: option.splits)
  next
    case (Some t)
    obtain p off fl where t: "t = (p, off, fl)" by (cases t)
    show ?thesis
    proof (cases "g = fst gb")
      case True
      then show ?thesis
        using Some t by (auto simp: guest_mem_def poke_def heap_byte_poke split: option.splits)
    next
      case False
      then have "\<not> (\<exists>fl'. m (fst gb) = Some (p, off, fl'))"
        using assms Some t unfolding inj_map_def by blast
      then have "heap_byte (heap_poke m gb hp) p off = heap_byte hp p off"
        by (auto simp: heap_byte_poke split: option.splits)
      then show ?thesis
        using Some t False by (auto simp: guest_mem_def poke_def split: option.splits)
    qed
  qed
qed

lemma heap_poke_shape: "same_shape hp (heap_poke m gb hp)"
  by (auto simp: same_shape_def heap_poke_def split: option.splits)

lemma heap_poke_frame: "q \<notin> mapped_ptrs m \<Longrightarrow> h_blocks (heap_poke m gb hp) q = h_blocks hp q"
  by (auto simp: heap_poke_def mapped_ptrs_def split: option.splits)

lemma fold_heap_poke:
  assumes "inj_map m"
  shows "guest_mem (fold (heap_poke m) ws hp) m = fold poke ws (guest_mem hp m)"
    and "same_shape hp (fold (heap_poke m) ws hp)"
    and "q \<notin> mapped_ptrs m \<Longrightarrow> h_blocks (fold (heap_poke m) ws hp) q = h_blocks hp q"
proof (induction ws arbitrary: hp)
  case (Cons gb ws)
  { case 1 show ?case using Cons(1) by (simp add: guest_mem_poke [OF assms]) }
  { case 2 show ?case using Cons(2) heap_poke_shape same_shape_trans by fastforce }
  { case 3 then show ?case using Cons(3) by (simp add: heap_poke_frame) }
qed simp_all

section \<open>The contract holds\<close>

lemma ref_live_part:
  assumes "ref_live h p i"
  obtains part f where "hv_parts h p = Some part" and "rf_regs part i = Some f" and "rf_setup part"
    and "\<forall>n. reg_canon n (f n) = f n" and "inj_map (ref_lookup (rf_ranges part))"
  using assms by (auto simp: ref_live_def split: option.splits)

lemma ref_set_live:
  assumes "hv_parts h p = Some part" and "rf_regs part i = Some f"
  shows "ref_set p i ns vs h = (Inr (), h\<lparr>hv_parts := (hv_parts h)(p \<mapsto>
    part\<lparr>rf_regs := (rf_regs part)(i \<mapsto> upd_regs f (zip ns vs))\<rparr>)\<rparr>)"
  using assms by (simp add: ref_set_def ref_update_def)

lemmas ref_views = ref_regs_def ref_gpas_def ref_exits_def ref_rest_def ref_has_def ref_update_def

definition ref_room :: "'x ref_hv \<Rightarrow> bool" where
  "ref_room h \<longleftrightarrow> 0 < hv_room h"

definition ref_created :: "'x ref_hv \<Rightarrow> handle \<Rightarrow> bool" where
  "ref_created h p \<longleftrightarrow> (case hv_parts h p of
      None \<Rightarrow> False
    | Some part \<Rightarrow> inj_map (ref_lookup (rf_ranges part)) \<and> rf_regs part = (\<lambda>_. None))"

definition ref_idle :: "'x ref_hv \<Rightarrow> handle \<Rightarrow> bool" where
  "ref_idle h p \<longleftrightarrow> ref_created h p \<and> (\<forall>part. hv_parts h p = Some part \<longrightarrow> rf_setup part)"

text \<open>A run that stops leaves the processor, and writes only mapped memory.\<close>

lemma ref_run_live:
  defines "ar \<equiv> \<lambda>x0 p i. arch_of ref_regs ref_gpas ref_exits (ref_rest x0) \<lparr>vc_partition = p, vc_index = i\<rparr>"
  assumes live: "ref_live h p i" and run: "run_prog prog (ar x0 p i hp h) = Some (res, a')"
  shows "\<exists>hp' h'. ref_run x0 prog p i (hp, h) = Some (res, hp', h')
    \<and> ref_live h' p i \<and> ar x0 p i hp' h' = a' \<and> ref_gpas h' p = ref_gpas h p \<and> same_shape hp hp'
    \<and> (\<forall>q. q \<notin> mapped_ptrs (ref_gpas h p) \<longrightarrow> h_blocks hp' q = h_blocks hp q)"
proof -
  obtain part f where pt: "hv_parts h p = Some part" "rf_regs part i = Some f" "rf_setup part"
    "\<forall>n. reg_canon n (f n) = f n" "inj_map (ref_lookup (rf_ranges part))"
    using ref_live_part [OF live] .
  obtain rs ws x where g: "prog (ar x0 p i hp h) = Some (res, rs, ws, x)"
    and a': "a' = (ar x0 p i hp h)\<lparr>a_regs := (\<lambda>n. reg_canon n (rs n)),
      a_mem := fold poke ws (a_mem (ar x0 p i hp h)), a_rest := x\<rparr>"
    using run by (auto simp: run_prog_def split: option.splits)
  let ?hp = "fold (heap_poke (ref_gpas h p)) ws hp"
  let ?h = "h\<lparr>hv_parts := (hv_parts h)(p \<mapsto> part\<lparr>rf_regs := (rf_regs part)(i \<mapsto> (\<lambda>n. reg_canon n (rs n))),
      rf_rest := (rf_rest part)(i := x)\<rparr>)\<rparr>"
  have m: "ref_gpas h p = ref_lookup (rf_ranges part)" "ref_gpas ?h p = ref_lookup (rf_ranges part)"
    using pt by (simp_all add: ref_gpas_def)
  have "ref_run x0 prog p i (hp, h) = Some (res, ?hp, ?h)"
    using g pt by (simp add: ref_run_def ref_has_def ref_update_def ar_def)
  moreover have "ref_live ?h p i"
    using pt by (simp add: ref_live_def)
  moreover have "ref_regs ?h p i = (\<lambda>n. reg_canon n (rs n))" "ref_exits ?h p = ref_exits h p"
    "ref_rest x0 ?h p i = x"
    using pt by (simp_all add: ref_regs_def ref_exits_def ref_rest_def fun_eq_iff)
  then have "ar x0 p i ?hp ?h = a'"
    unfolding a' ar_def arch_of_def m by (simp add: m fold_heap_poke(1) [OF pt(5)])
  ultimately show ?thesis
    using m fold_heap_poke(2,3) [OF pt(5)] by (intro exI [of _ ?hp] exI [of _ ?h]) simp
qed

interpretation ref: whp_contract "ref_platform checks ord x0 prog" ref_live ref_regs ref_gpas ref_exits
    "ref_rest x0" "\<lambda>_ _. None" "run_prog prog"
proof
  fix h :: "'a ref_hv" and p i
  assume live: "ref_live h p i"
  obtain part f where pt: "hv_parts h p = Some part" "rf_regs part i = Some f" "rf_setup part"
    "\<forall>n. reg_canon n (f n) = f n" "inj_map (ref_lookup (rf_ranges part))"
    using ref_live_part [OF live] .
  show "WHvGetVirtualProcessorRegisters (ref_platform checks ord x0 prog) p i ns h =
      (Inr (map (ref_regs h p i) ns), h)" for ns
    using pt by (simp add: ref_platform_def ref_get_def ref_has_def)
  show "reg_canon n (ref_regs h p i n) = ref_regs h p i n" for n
    using pt by (simp add: ref_regs_def)
  show "\<exists>h'. WHvSetVirtualProcessorRegisters (ref_platform checks ord x0 prog) p i ns vs h = (Inr (), h')
      \<and> ref_live h' p i \<and> ref_regs h' p i = upd_regs (ref_regs h p i) (zip ns vs)
      \<and> ref_gpas h' p = ref_gpas h p \<and> ref_exits h' p = ref_exits h p
      \<and> ref_rest x0 h' p i = ref_rest x0 h p i" for ns vs
  proof -
    let ?h = "h\<lparr>hv_parts := (hv_parts h)(p \<mapsto>
        part\<lparr>rf_regs := (rf_regs part)(i \<mapsto> upd_regs f (zip ns vs))\<rparr>)\<rparr>"
    have "ref_regs h p i = f" "ref_regs ?h p i = upd_regs f (zip ns vs)"
      by (simp_all add: fun_eq_iff ref_regs_def pt)
    moreover have "ref_live ?h p i"
      using pt upd_regs_canon [OF pt(4)] by (simp add: ref_live_def)
    moreover have "ref_gpas ?h p = ref_gpas h p" "ref_exits ?h p = ref_exits h p"
      "ref_rest x0 ?h p i = ref_rest x0 h p i"
      using pt by (simp_all add: ref_gpas_def ref_exits_def ref_rest_def)
    ultimately show ?thesis
      using ref_set_live [OF pt(1,2)] by (intro exI [of _ ?h]) (simp add: ref_platform_def)
  qed
  let ?a = "arch_of ref_regs ref_gpas ref_exits (ref_rest x0) \<lparr>vc_partition = p, vc_index = i\<rparr>"
  show "WHvRunVirtualProcessor (ref_platform checks ord x0 prog) p i (hp, h) = None"
    if "run_prog prog (?a hp h) = None" for hp
    using that pt by (auto simp: ref_platform_def ref_run_def run_prog_def ref_has_def split: option.splits)
  show "\<exists>hp' h'. WHvRunVirtualProcessor (ref_platform checks ord x0 prog) p i (hp, h) = Some (res, hp', h')
      \<and> ref_live h' p i \<and> ?a hp' h' = a' \<and> ref_gpas h' p = ref_gpas h p \<and> same_shape hp hp'
      \<and> (\<forall>q. q \<notin> mapped_ptrs (ref_gpas h p) \<longrightarrow> h_blocks hp' q = h_blocks hp q)"
    if "run_prog prog (?a hp h) = Some (res, a')" for hp res a'
    using ref_run_live [OF live that] by (simp add: ref_platform_def)
qed simp

lemma reset_regs_canon: "reg_canon n (reset_regs n) = reset_regs n"
  by (simp add: reg_canon_def reset_regs_def is_segment_def mk_Reg64_def Reg64_def)

lemma ref_map_ok:
  assumes "hv_parts h p = Some part" and "unat gpa mod 4096 = 0" and "unat sz mod 4096 = 0"
    and "unat gpa + unat sz \<le> 2 ^ 64"
  shows "ref_map p q gpa sz fl h = (Inr (), h\<lparr>hv_parts := (hv_parts h)(p \<mapsto>
    part\<lparr>rf_ranges := (gpa, sz, q, fl) # rf_ranges part\<rparr>)\<rparr>)"
  using assms by (simp add: ref_map_def ref_update_def)

interpretation ref_boot: whp_boot "ref_platform checks ord x0 prog" ref_live ref_regs ref_gpas ref_exits
    "ref_rest x0" "\<lambda>_ _. None" "run_prog prog" ref_room ref_created ref_idle reset_regs x0
proof
  fix h :: "'a ref_hv" and p i
  let ?P = "ref_platform checks ord x0 prog"
  show "\<exists>p h'. WHvCreatePartition ?P h = (Inr p, h') \<and> ref_created h' p \<and> ref_gpas h' p = (\<lambda>_. None)"
    if "ref_room h"
    using that by (simp add: ref_platform_def ref_create_def ref_room_def ref_created_def ref_gpas_def)
  show "\<exists>h'. WHvSetPartitionProperty ?P p (ProcessorCount 4) h = (Inr (), h') \<and> ref_created h' p
      \<and> ref_gpas h' p = ref_gpas h p" if "ref_created h p"
    using that
    by (auto simp: ref_platform_def ref_set_property_def ref_update_def ref_created_def ref_gpas_def split: option.splits)
  show "\<exists>h'. WHvSetupPartition ?P p h = (Inr (), h') \<and> ref_idle h' p \<and> ref_gpas h' p = ref_gpas h p"
    if "ref_created h p"
    using that
    by (auto simp: ref_platform_def ref_setup_def ref_update_def ref_created_def ref_idle_def ref_gpas_def split: option.splits)
  show "\<exists>h'. WHvSetPartitionProperty ?P p (ExtendedVmExits x) h = (Inr (), h') \<and> ref_idle h' p
      \<and> ref_gpas h' p = ref_gpas h p \<and> ref_exits h' p = x" if "ref_idle h p" for x
    using that
    by (auto simp: ref_platform_def ref_set_property_def ref_update_def ref_created_def ref_idle_def ref_gpas_def
        ref_exits_def split: option.splits)
  show "\<exists>h'. WHvMapGpaRange ?P p q gpa sz fl h = (Inr (), h') \<and> ref_idle h' p
      \<and> ref_gpas h' p = map_range (ref_gpas h p) q gpa sz fl \<and> ref_exits h' p = ref_exits h p"
    if "ref_idle h p" "sz \<noteq> 0" "unat gpa mod 4096 = 0" "unat sz mod 4096 = 0" "unat gpa + unat sz \<le> 2 ^ 64"
      "q \<notin> mapped_ptrs (ref_gpas h p)" for sz gpa q fl
    using that
    by (auto simp: ref_platform_def ref_map_ok ref_created_def ref_idle_def ref_gpas_def ref_exits_def
        inj_map_range split: option.splits)
  show "\<exists>h'. WHvMapGpaRange ?P p q gpa sz fl h = (Inr (), h') \<and> ref_live h' p i
      \<and> ref_gpas h' p = map_range (ref_gpas h p) q gpa sz fl \<and> ref_exits h' p = ref_exits h p
      \<and> ref_regs h' p i = ref_regs h p i \<and> ref_rest x0 h' p i = ref_rest x0 h p i"
    if "ref_live h p i" "sz \<noteq> 0" "unat gpa mod 4096 = 0" "unat sz mod 4096 = 0" "unat gpa + unat sz \<le> 2 ^ 64"
      "q \<notin> mapped_ptrs (ref_gpas h p)" for sz gpa q fl
    using that
    by (auto simp: ref_platform_def ref_map_ok ref_live_def ref_gpas_def ref_exits_def ref_regs_def ref_rest_def
        inj_map_range fun_eq_iff split: option.splits)
  show "\<exists>h'. WHvCreateVirtualProcessor ?P p i 0 h = (Inr (), h') \<and> ref_live h' p i \<and> ref_gpas h' p = ref_gpas h p
      \<and> ref_exits h' p = ref_exits h p \<and> ref_regs h' p i = reset_regs \<and> ref_rest x0 h' p i = x0"
    if "ref_idle h p"
    using that
    by (auto simp: ref_platform_def ref_create_vp_def ref_update_def ref_created_def ref_idle_def ref_live_def ref_gpas_def
        ref_exits_def ref_regs_def ref_rest_def reset_regs_canon fun_eq_iff split: option.splits)
qed simp

section \<open>A small guest\<close>

text \<open>
  RDTSC (2 bytes) at address 0, CPUID (2 bytes) at 2, a hypercall (3 bytes) at 4, HLT at 7; every
  instruction is intercepted before it takes effect. The guest stores the low byte of RAX at
  address 16 just before the hypercall.
\<close>

definition demo_guest :: "unit prog" where
  "demo_guest a =
    (let rip = Reg64 (a_regs a Rip); low = ucast (Reg64 (a_regs a Rax)) :: u8;
         stop = (\<lambda>reason ws. Some (Inr \<lparr>ExitReason = reason, vp_bitfield = 0xF2, mem_Gpa = 0, mem_Gva = 0\<rparr>,
           a_regs a, ws, ())) in
     if rip = 0 then stop 4099 []
     else if rip = 2 then stop 4097 []
     else if rip = 4 then stop 4 [(16, low)]
     else if rip = 7 then stop 8 []
     else None)"

definition demo_platform :: "unit ref_hv platform" where
  "demo_platform = ref_platform True id () demo_guest"

text \<open>A set-up partition 1 with virtual processor 0 and 32 bytes of memory at address 0.\<close>

definition demo_world :: "unit ref_hv world" where
  "demo_world =
    \<lparr>w_heap = \<lparr>h_blocks = [7 \<mapsto> \<lparr>b_layout = \<lparr>l_size = 32, l_align = 4096\<rparr>, b_bytes = replicate 32 0\<rparr>],
       h_next = 8, h_avail = 65536\<rparr>,
     w_hv = \<lparr>hv_parts = [1 \<mapsto> \<lparr>rf_regs = [0 \<mapsto> reset_regs], rf_ranges = [(0, 32, 7, 7)],
         rf_exits = intercept_mask, rf_rest = (\<lambda>_. ()), rf_setup = True\<rparr>],
       hv_next = 2, hv_room = 1\<rparr>,
     w_out = [], w_files = []\<rparr>"

definition demo_partition :: VmPartition where
  "demo_partition = \<lparr>vp_handle = 1\<rparr>"

definition demo_vcpu :: Vcpu where
  "demo_vcpu = \<lparr>vc_partition = 1, vc_index = 0\<rparr>"

definition demo_events :: "TraceEvent list" where
  "demo_events =
    [\<lparr>instruction_count = 0, event = sim_rdtsc\<rparr>,
     \<lparr>instruction_count = 1, event = sim_cpuid\<rparr>,
     \<lparr>instruction_count = 2, event = ContextSwitch 0xCCCCCCCC\<rparr>]"

lemma demo_ready:
  "ref_live (w_hv demo_world) (vc_partition demo_vcpu) (vc_index demo_vcpu)"
  "heap_inv (w_heap demo_world)" "vp_handle demo_partition = vc_partition demo_vcpu"
  by (simp_all add: demo_world_def demo_vcpu_def demo_partition_def ref_live_def heap_inv_def reset_regs_canon
      inj_map_range)

text \<open>What an exit of the guest and its answer do to the registers the guest looks at.\<close>

definition demo_ctx :: "u32 \<Rightarrow> exit_context" where
  "demo_ctx reason = \<lparr>ExitReason = reason, vp_bitfield = 0xF2, mem_Gpa = 0, mem_Gva = 0\<rparr>"

lemma demo_exit:
  assumes "(Reg64 (a_regs a Rip), reason) \<in> {(0, 4099), (2, 4097), (4, 4), (7, 8)}"
  shows "\<exists>a1. run_prog demo_guest a = Some (Inr (demo_ctx reason), a1)
    \<and> (\<forall>n. Reg64 (a_regs a1 n) = Reg64 (a_regs a n))"
  using assms by (auto simp: run_prog_def demo_guest_def Let_def demo_ctx_def reg_canon_def)

lemma Reg64_upd_regs:
  "Reg64 (upd_regs f nvs n) = Reg64 (case map_of (rev nvs) n of None \<Rightarrow> f n | Some v \<Rightarrow> v)"
  unfolding upd_regs_def
proof (induction nvs arbitrary: f)
  case (Cons nv nvs)
  then show ?case
    by (cases nv) (auto simp: map_add_def reg_canon_def split: option.splits)
qed simp

lemma free_answer:
  assumes "unat (Reg64 (a_regs a Rip)) < 2 ^ 60"
  shows "\<exists>a2. abs_answer (\<lambda>_ _. None) checks ctx ev a = Inr a2
    \<and> Reg64 (a_regs a2 Rip) = Reg64 (a_regs a Rip) + ucast (abs_length ctx)
    \<and> Reg64 (a_regs a2 Rcx) = (case ev of Cpuid _ _ ecx _ \<Rightarrow> ucast ecx | _ \<Rightarrow> Reg64 (a_regs a Rcx))"
proof -
  have l: "unat (ucast (abs_length ctx) :: u64) < 256"
    using unsigned_less [of "abs_length ctx", where ?'a = nat]
    by (simp add: unsigned_ucast_eq take_bit_eq_mod)
  show ?thesis
    using assms l
    by (cases ev) (simp_all add: abs_answer_def abs_inject_def abs_set_def abs_advance_def Let_def Reg64_upd_regs)
qed

lemma demo_abs_record:
  assumes "Reg64 (a_regs a Rip) = 0"
  shows "\<exists>ctx a'. abs_record (run_prog demo_guest) (\<lambda>_ _. None) True 0 a demo_events ctx a'"
proof -
  note answer = free_answer [where checks = True]
  note evs = abs_event_def demo_ctx_def sim_rdtsc_def sim_cpuid_def abs_length_def exit_instruction_length_def
  obtain a1 where a1: "run_prog demo_guest a = Some (Inr (demo_ctx 4099), a1)" "Reg64 (a_regs a1 Rip) = 0"
    using demo_exit [of a 4099] assms by auto
  obtain a2 where a2: "abs_answer (\<lambda>_ _. None) True (demo_ctx 4099) sim_rdtsc a1 = Inr a2"
    "Reg64 (a_regs a2 Rip) = 2"
    using answer [of a1 "demo_ctx 4099" sim_rdtsc] a1(2) by (auto simp: evs)
  obtain a3 where a3: "run_prog demo_guest a2 = Some (Inr (demo_ctx 4097), a3)" "Reg64 (a_regs a3 Rip) = 2"
    using demo_exit [of a2 4097] a2(2) by auto
  obtain a4 where a4: "abs_answer (\<lambda>_ _. None) True (demo_ctx 4097) sim_cpuid a3 = Inr a4"
    "Reg64 (a_regs a4 Rip) = 4" "Reg64 (a_regs a4 Rcx) = 0xCCCCCCCC"
    using answer [of a3 "demo_ctx 4097" sim_cpuid] a3(2) by (auto simp: evs)
  obtain a5 where a5: "run_prog demo_guest a4 = Some (Inr (demo_ctx 4), a5)" "Reg64 (a_regs a5 Rip) = 4"
    "Reg64 (a_regs a5 Rcx) = 0xCCCCCCCC"
    using demo_exit [of a4 4] a4(2,3) by auto
  obtain a6 where a6: "abs_answer (\<lambda>_ _. None) True (demo_ctx 4) (ContextSwitch 0xCCCCCCCC) a5 = Inr a6"
    "Reg64 (a_regs a6 Rip) = 7"
    using answer [of a5 "demo_ctx 4" "ContextSwitch 0xCCCCCCCC"] a5(2) by (auto simp: evs)
  obtain a7 where a7: "run_prog demo_guest a6 = Some (Inr (demo_ctx 8), a7)"
    using demo_exit [of a6 8] a6(2) by auto
  have "abs_record (run_prog demo_guest) (\<lambda>_ _. None) True 3 a6 [] (demo_ctx 8) a7"
    using a7 by (rule abs_record.stop) (simp add: evs)
  then have "abs_record (run_prog demo_guest) (\<lambda>_ _. None) True 2 a4
      [\<lparr>instruction_count = 2, event = ContextSwitch 0xCCCCCCCC\<rparr>] (demo_ctx 8) a7"
    using a5 a6 by (intro abs_record.intercept [where ctx = "demo_ctx 4"]) (simp_all add: evs)
  then have "abs_record (run_prog demo_guest) (\<lambda>_ _. None) True 1 a2
      (tl demo_events) (demo_ctx 8) a7"
    unfolding demo_events_def list.sel using a3 a4
    by (intro abs_record.intercept [where ctx = "demo_ctx 4097"]) (simp_all add: evs)
  then have "abs_record (run_prog demo_guest) (\<lambda>_ _. None) True 0 a demo_events (demo_ctx 8) a7"
    unfolding demo_events_def list.sel using a1 a2
    by (intro abs_record.intercept [where ctx = "demo_ctx 4099"]) (simp_all add: evs)
  then show ?thesis by blast
qed

text \<open>The engine records it.\<close>

interpretation demo: whp_contract demo_platform ref_live ref_regs ref_gpas ref_exits "ref_rest ()"
    "\<lambda>_ _. None" "run_prog demo_guest"
  unfolding demo_platform_def by (rule ref.whp_contract_axioms)

lemma demo_recording:
  "\<exists>w eng. RecordEngine_run demo_platform (demo_world, RecordEngine_new demo_partition demo_vcpu)
      = Some (Inr (), (w, eng)) \<and> RecordEngine_finalize eng = demo_events"
proof -
  have "Reg64 (a_regs (demo.arch demo_vcpu demo_world) Rip) = 0"
    by (simp add: arch_of_def ref_regs_def demo_world_def demo_vcpu_def reset_regs_def)
  then obtain ctx a' where "abs_record (run_prog demo_guest) (\<lambda>_ _. None) (overflow_checks demo_platform) 0
      (demo.arch demo_vcpu demo_world) demo_events ctx a'"
    using demo_abs_record [of "demo.arch demo_vcpu demo_world"]
    by (auto simp: demo_platform_def ref_platform_def)
  from demo.record_loop_complete [OF this, of demo_world demo_vcpu demo_partition
      "RecordEngine_new demo_partition demo_vcpu"]
  show ?thesis
    using demo_ready by (auto simp: RecordEngine_run_def RecordEngine_finalize_def)
qed

end
