(* ===== verification/Guest_Programs.thy ===== *)
theory Guest_Programs
  imports Reference_Hypervisor
begin

text \<open>
  The two bare-metal guests of the repository, \<open>crates/test_target/src/main.rs\<close> and
  \<open>target_app/src/main.rs\<close>, as trees of the instructions the hypervisor intercepts. What lies
  between two intercepted instructions is a function of the values the hypervisor put into the
  registers, so it is the argument of the continuation. The trees are then programs of the
  reference hypervisor: the compiler's choice of addresses is not modelled, the intercepted
  instructions follow each other in memory.
\<close>

section \<open>Code\<close>

text \<open>
  \<open>Use v\<close> is \<open>core::hint::black_box(v)\<close>; \<open>Halt\<close> is \<open>loop { hlt }\<close>, with the value the assembly
  asks for in RAX, if any.
\<close>

datatype guest_code =
    Rdtsc_then "u64 \<Rightarrow> u64 \<Rightarrow> guest_code"
  | Cpuid_then u32 "u32 \<Rightarrow> u32 \<Rightarrow> u32 \<Rightarrow> u32 \<Rightarrow> guest_code"
  | Vmcall_then u64 u64 guest_code
  | Use u64 guest_code
  | Halt "u64 option"

definition sched_yield :: "u64 \<Rightarrow> guest_code \<Rightarrow> guest_code" where
  "sched_yield thread_id rest = Vmcall_then 0x1 thread_id rest"

text \<open>The panic handlers of both guests.\<close>

definition guest_panic :: guest_code where
  "guest_panic = Halt None"

text \<open>
  The functions of \<open>target_app\<close> take the value of \<open>COUNTER\<close> and what runs next with the new
  value; with overflow checks the addition may panic.
\<close>

definition execute_slice :: "bool \<Rightarrow> u64 \<Rightarrow> (u64 \<Rightarrow> guest_code) \<Rightarrow> u64 \<Rightarrow> guest_code" where
  "execute_slice checks thread_id k COUNTER =
    (let temp = COUNTER in
     sched_yield thread_id (if checks \<and> temp = - 1 then guest_panic else k (temp + 1)))"

primrec app_loop :: "bool \<Rightarrow> nat \<Rightarrow> (u64 \<Rightarrow> guest_code) \<Rightarrow> u64 \<Rightarrow> guest_code" where
  "app_loop checks 0 k COUNTER = k COUNTER"
| "app_loop checks (Suc n) k COUNTER =
     execute_slice checks 0 (execute_slice checks 1 (app_loop checks n k)) COUNTER"

definition app_start :: "bool \<Rightarrow> guest_code" where
  "app_start checks = app_loop checks 100 (\<lambda>final_val. Use final_val (Halt (Some final_val))) 0"

definition test_start :: guest_code where
  "test_start =
     Rdtsc_then (\<lambda>rax rdx. Cpuid_then 0 (\<lambda>cpuid_eax ebx ecx edx.
       let result = if cpuid_eax = 0xAAAAAAAA \<and> rax = 0x1000 then 0x42 else 0xDEAD in
       Use result (Halt None)))"

section \<open>What the record engine makes of a guest\<close>

text \<open>The events, the values passed to \<open>black_box\<close>, and the final RAX the code asks for.\<close>

primrec guest_events :: "guest_code \<Rightarrow> EventType list" where
  "guest_events (Rdtsc_then k) = sim_rdtsc # guest_events (k 0x1000 0)"
| "guest_events (Cpuid_then leaf k) =
     sim_cpuid # guest_events (k 0xAAAAAAAA 0xBBBBBBBB 0xCCCCCCCC 0xDDDDDDDD)"
| "guest_events (Vmcall_then rax rcx c) = ContextSwitch (ucast rcx) # guest_events c"
| "guest_events (Use v c) = guest_events c"
| "guest_events (Halt r) = []"

primrec guest_uses :: "guest_code \<Rightarrow> u64 list" where
  "guest_uses (Rdtsc_then k) = guest_uses (k 0x1000 0)"
| "guest_uses (Cpuid_then leaf k) = guest_uses (k 0xAAAAAAAA 0xBBBBBBBB 0xCCCCCCCC 0xDDDDDDDD)"
| "guest_uses (Vmcall_then rax rcx c) = guest_uses c"
| "guest_uses (Use v c) = v # guest_uses c"
| "guest_uses (Halt r) = []"

primrec guest_rax :: "guest_code \<Rightarrow> u64 option" where
  "guest_rax (Rdtsc_then k) = guest_rax (k 0x1000 0)"
| "guest_rax (Cpuid_then leaf k) = guest_rax (k 0xAAAAAAAA 0xBBBBBBBB 0xCCCCCCCC 0xDDDDDDDD)"
| "guest_rax (Vmcall_then rax rcx c) = guest_rax c"
| "guest_rax (Use v c) = guest_rax c"
| "guest_rax (Halt r) = r"

lemma app_loop_unfold:
  assumes "unat c + 2 * n < 2 ^ 64"
  shows "guest_events (app_loop checks n k c) =
      concat (replicate n [ContextSwitch 0, ContextSwitch 1]) @ guest_events (k (c + of_nat (2 * n)))"
    and "guest_uses (app_loop checks n k c) = guest_uses (k (c + of_nat (2 * n)))"
    and "guest_rax (app_loop checks n k c) = guest_rax (k (c + of_nat (2 * n)))"
  using assms
proof (induction n arbitrary: c)
  case 0
  {
    case 1
    then show ?case by simp
  next
    case 2
    then show ?case by simp
  next
    case 3
    then show ?case by simp
  }
next
  case (Suc n)
  have step: "c \<noteq> - 1" "c + 1 \<noteq> - 1" "unat (c + 1 + 1) + 2 * n < 2 ^ 64" "c + 1 + 1 + of_nat (2 * n) = c + of_nat (2 * Suc n)"
    if "unat c + 2 * Suc n < 2 ^ 64" for c :: u64
  proof -
    have u: "unat (c + 1) = unat c + 1" "unat (c + 1 + 1) = unat c + 2" using that by (simp_all add: unat_word_ariths)
    show "c \<noteq> - 1" using u(1) by auto
    show "c + 1 \<noteq> - 1" using u by auto
    show "unat (c + 1 + 1) + 2 * n < 2 ^ 64" using that u by simp
    show "c + 1 + 1 + of_nat (2 * n) = c + of_nat (2 * Suc n)" by simp
  qed
  note unf = execute_slice_def sched_yield_def Let_def
  {
    case 1
    then show ?case using step [OF 1] Suc.IH(1) [of "c + 1 + 1"] by (simp add: unf ac_simps)
  next
    case 2
    then show ?case using step [OF 2] Suc.IH(2) [of "c + 1 + 1"] by (simp add: unf ac_simps)
  next
    case 3
    then show ?case using step [OF 3] Suc.IH(3) [of "c + 1 + 1"] by (simp add: unf ac_simps)
  }
qed

section \<open>Guests on the reference hypervisor\<close>

text \<open>
  The processor remembers the code that starts with the instruction it stopped at, and where it
  stopped. If the instruction pointer has moved, the hypervisor has completed the instruction
  and the results are in the registers; otherwise it is executed again.
\<close>

record guest_state =
  gs_code :: guest_code
  gs_pc :: "u64 option"

definition guest_state0 :: "guest_code \<Rightarrow> guest_state" where
  "guest_state0 c = \<lparr>gs_code = c, gs_pc = None\<rparr>"

primrec after_exit :: "guest_code \<Rightarrow> (reg_name \<Rightarrow> u64) \<Rightarrow> guest_code" where
  "after_exit (Rdtsc_then k) r = k (r Rax) (r Rdx)"
| "after_exit (Cpuid_then leaf k) r = k (ucast (r Rax)) (ucast (r Rbx)) (ucast (r Rcx)) (ucast (r Rdx))"
| "after_exit (Vmcall_then rax rcx c) r = c"
| "after_exit (Use v c) r = c"
| "after_exit (Halt v) r = Halt v"

primrec skip_uses :: "guest_code \<Rightarrow> guest_code" where
  "skip_uses (Rdtsc_then k) = Rdtsc_then k"
| "skip_uses (Cpuid_then leaf k) = Cpuid_then leaf k"
| "skip_uses (Vmcall_then rax rcx c) = Vmcall_then rax rcx c"
| "skip_uses (Use v c) = skip_uses c"
| "skip_uses (Halt v) = Halt v"

definition next_code :: "guest_state arch \<Rightarrow> guest_code" where
  "next_code a =
    (let s = a_rest a in
     skip_uses (if gs_pc s = None \<or> gs_pc s = Some (Reg64 (a_regs a Rip)) then gs_code s
       else after_exit (gs_code s) (\<lambda>n. Reg64 (a_regs a n))))"

text \<open>The exit and the register writes that precede the instruction.\<close>

primrec issue :: "guest_code \<Rightarrow> u32 \<times> u8 \<times> (reg_name \<times> u64) list" where
  "issue (Rdtsc_then k) = (4099, 2, [])"
| "issue (Cpuid_then leaf k) = (4097, 2, [(Rax, ucast leaf)])"
| "issue (Vmcall_then rax rcx c) = (4, 3, [(Rax, rax), (Rcx, rcx)])"
| "issue (Use v c) = issue c"
| "issue (Halt v) = (8, 1, case v of None \<Rightarrow> [] | Some x \<Rightarrow> [(Rax, x)])"

definition guest_exit :: "guest_code \<Rightarrow> exit_context" where
  "guest_exit c = (case issue c of (reason, len, ws) \<Rightarrow>
     \<lparr>ExitReason = reason, vp_bitfield = len, mem_Gpa = 0, mem_Gva = 0\<rparr>)"

definition guest_prog :: "guest_state prog" where
  "guest_prog a =
    (let c = next_code a in
     Some (Inr (guest_exit c),
       upd_regs (a_regs a) (map (\<lambda>(n, x). (n, mk_Reg64 x)) (snd (snd (issue c)))), [],
       \<lparr>gs_code = c, gs_pc = Some (Reg64 (a_regs a Rip))\<rparr>))"

text \<open>What answering an event does to the registers.\<close>

definition event_regs :: "EventType \<Rightarrow> (reg_name \<times> u64) list" where
  "event_regs ev = (case ev of
      Syscall rax ws \<Rightarrow> [(Rax, rax)]
    | Rdtsc rax rdx \<Rightarrow> [(Rax, rax), (Rdx, rdx)]
    | Cpuid eax ebx ecx edx \<Rightarrow> [(Rax, ucast eax), (Rbx, ucast ebx), (Rcx, ucast ecx), (Rdx, ucast edx)]
    | ContextSwitch t \<Rightarrow> [])"

lemma answer_regs:
  assumes "unat (Reg64 (a_regs a Rip)) < 2 ^ 60"
  shows "\<exists>a2. abs_answer (\<lambda>_ _. None) checks ctx ev a = Inr a2 \<and> a_rest a2 = a_rest a
    \<and> (\<forall>n. Reg64 (a_regs a2 n) = (if n = Rip then Reg64 (a_regs a Rip) + ucast (abs_length ctx)
         else case map_of (event_regs ev) n of None \<Rightarrow> Reg64 (a_regs a n) | Some v \<Rightarrow> v))"
proof -
  have l: "unat (ucast (abs_length ctx) :: u64) < 256"
    using unsigned_less [of "abs_length ctx", where ?'a = nat]
    by (simp add: unsigned_ucast_eq take_bit_eq_mod)
  show ?thesis
    using assms l
    by (cases ev) (auto simp: abs_answer_def abs_inject_def abs_set_def abs_advance_def Let_def Reg64_upd_regs event_regs_def)
qed

lemma Reg64_issue:
  "Reg64 (upd_regs f (map (\<lambda>(n, x). (n, mk_Reg64 x)) ws) n) =
     (case map_of (rev ws) n of None \<Rightarrow> Reg64 (f n) | Some x \<Rightarrow> x)"
proof -
  have "map_of (rev (map (\<lambda>(n, x). (n, mk_Reg64 x)) ws)) n = map_option mk_Reg64 (map_of (rev ws) n)"
    unfolding rev_map by (induction "rev ws") (auto simp: rev_map map_of_map)
  then show ?thesis by (simp add: Reg64_upd_regs split: option.splits)
qed

text \<open>The first intercepted instruction of a program, its event, and what runs after the answer.\<close>

primrec guest_next :: "guest_code \<Rightarrow> (EventType \<times> guest_code) option" where
  "guest_next (Rdtsc_then k) = Some (sim_rdtsc, k 0x1000 0)"
| "guest_next (Cpuid_then leaf k) = Some (sim_cpuid, k 0xAAAAAAAA 0xBBBBBBBB 0xCCCCCCCC 0xDDDDDDDD)"
| "guest_next (Vmcall_then rax rcx c) = Some (ContextSwitch (ucast rcx), c)"
| "guest_next (Use v c) = None"
| "guest_next (Halt r) = None"

lemma guest_exit_run:
  assumes "next_code a = c"
  shows "\<exists>a1. run_prog guest_prog a = Some (Inr (guest_exit c), a1)
    \<and> a_rest a1 = \<lparr>gs_code = c, gs_pc = Some (Reg64 (a_regs a Rip))\<rparr>
    \<and> (\<forall>n. Reg64 (a_regs a1 n) = (case map_of (rev (snd (snd (issue c)))) n of
         None \<Rightarrow> Reg64 (a_regs a n) | Some x \<Rightarrow> x))"
  using assms by (simp add: run_prog_def guest_prog_def Let_def reg_canon_def Reg64_issue)

lemma guest_event_step:
  assumes nx: "next_code a = c" and ev: "guest_next c = Some (ev, c')" and rip: "unat (Reg64 (a_regs a Rip)) < 2 ^ 59"
  shows "\<exists>a1 a2. run_prog guest_prog a = Some (Inr (guest_exit c), a1) \<and> abs_event (guest_exit c) a1 = Some ev
    \<and> abs_answer (\<lambda>_ _. None) checks (guest_exit c) ev a1 = Inr a2 \<and> next_code a2 = skip_uses c'
    \<and> unat (Reg64 (a_regs a2 Rip)) \<le> unat (Reg64 (a_regs a Rip)) + 3"
proof -
  obtain a1 where a1: "run_prog guest_prog a = Some (Inr (guest_exit c), a1)"
    "a_rest a1 = \<lparr>gs_code = c, gs_pc = Some (Reg64 (a_regs a Rip))\<rparr>"
    "\<And>n. Reg64 (a_regs a1 n) = (case map_of (rev (snd (snd (issue c)))) n of
       None \<Rightarrow> Reg64 (a_regs a n) | Some x \<Rightarrow> x)"
    using guest_exit_run [OF nx] by blast
  have r1: "Reg64 (a_regs a1 Rip) = Reg64 (a_regs a Rip)"
    using ev a1(3) [of Rip] by (cases c) auto
  have l: "abs_length (guest_exit c) \<in> {2, 3}"
    using ev by (cases c) (auto simp: abs_length_def guest_exit_def exit_instruction_length_def)
  have e: "abs_event (guest_exit c) a1 = Some ev"
    using ev a1(3) [of Rcx] by (cases c) (auto simp: abs_event_def guest_exit_def)
  obtain a2 where a2: "abs_answer (\<lambda>_ _. None) checks (guest_exit c) ev a1 = Inr a2" "a_rest a2 = a_rest a1"
    "\<And>n. Reg64 (a_regs a2 n) = (if n = Rip then Reg64 (a_regs a Rip) + ucast (abs_length (guest_exit c))
         else case map_of (event_regs ev) n of None \<Rightarrow> Reg64 (a_regs a1 n) | Some v \<Rightarrow> v)"
    using answer_regs [of a1 checks "guest_exit c" ev] rip unfolding r1 by auto
  have u: "unat (Reg64 (a_regs a2 Rip)) = unat (Reg64 (a_regs a Rip)) + unat (abs_length (guest_exit c))"
    using a2(3) [of Rip] l rip by (auto simp: unat_word_ariths)
  then have ne: "Reg64 (a_regs a2 Rip) \<noteq> Reg64 (a_regs a Rip)" and le: "unat (Reg64 (a_regs a2 Rip)) \<le> unat (Reg64 (a_regs a Rip)) + 3"
    using l by auto
  have "next_code a2 = skip_uses (after_exit c (\<lambda>n. Reg64 (a_regs a2 n)))"
    using ne a1(2) a2(2) by (simp add: next_code_def)
  moreover have "after_exit c (\<lambda>n. Reg64 (a_regs a2 n)) = c'"
    using ev a2(3) by (cases c) (auto simp: sim_rdtsc_def sim_cpuid_def event_regs_def)
  ultimately show ?thesis
    using a1(1) e a2(1) le by auto
qed

text \<open>Events numbered from a count.\<close>

primrec stamp :: "u64 \<Rightarrow> EventType list \<Rightarrow> TraceEvent list" where
  "stamp n [] = []"
| "stamp n (ev # evs) = \<lparr>instruction_count = n, event = ev\<rparr> # stamp (n + 1) evs"

lemma length_stamp [simp]: "length (stamp n evs) = length evs"
  by (induction evs arbitrary: n) simp_all

lemma events_stamp [simp]: "map event (stamp n evs) = evs"
  by (induction evs arbitrary: n) simp_all

definition recorded_as :: "bool \<Rightarrow> u64 \<Rightarrow> guest_state arch \<Rightarrow> guest_code \<Rightarrow> bool" where
  "recorded_as checks n a c \<longleftrightarrow> (\<exists>ctx a'.
     abs_record (run_prog guest_prog) (\<lambda>_ _. None) checks n a (stamp n (guest_events c)) ctx a'
     \<and> ExitReason ctx = 8 \<and> (\<forall>v. guest_rax c = Some v \<longrightarrow> Reg64 (a_regs a' Rax) = v))"

lemma recorded_step:
  assumes nx: "next_code a = c" and ev: "guest_next c = Some (ev, c')" and rip: "unat (Reg64 (a_regs a Rip)) < 2 ^ 59"
    and n: "checks \<longrightarrow> unat n + 1 < 2 ^ 64"
    and IH: "\<And>a2. next_code a2 = skip_uses c' \<Longrightarrow> unat (Reg64 (a_regs a2 Rip)) \<le> unat (Reg64 (a_regs a Rip)) + 3 \<Longrightarrow>
      recorded_as checks (n + 1) a2 c'"
  shows "recorded_as checks n a c"
proof -
  obtain a1 a2 where a: "run_prog guest_prog a = Some (Inr (guest_exit c), a1)" "abs_event (guest_exit c) a1 = Some ev"
    "abs_answer (\<lambda>_ _. None) checks (guest_exit c) ev a1 = Inr a2" "next_code a2 = skip_uses c'"
    "unat (Reg64 (a_regs a2 Rip)) \<le> unat (Reg64 (a_regs a Rip)) + 3"
    using guest_event_step [OF nx ev rip] by blast
  have g: "guest_events c = ev # guest_events c'" "guest_rax c = guest_rax c'"
    using ev by (cases c; auto)+
  obtain ctx a' where "abs_record (run_prog guest_prog) (\<lambda>_ _. None) checks (n + 1) a2 (stamp (n + 1) (guest_events c')) ctx a'"
    "ExitReason ctx = 8" "\<forall>v. guest_rax c' = Some v \<longrightarrow> Reg64 (a_regs a' Rax) = v"
    using IH [OF a(4,5)] unfolding recorded_as_def by blast
  then show ?thesis
    unfolding recorded_as_def g stamp.simps using abs_record.intercept [where G = "run_prog guest_prog" and reject = "\<lambda>_ _. None", OF a(1-3) n] by blast
qed

lemma guest_records:
  assumes "next_code a = skip_uses c" and "unat (Reg64 (a_regs a Rip)) + 3 * length (guest_events c) < 2 ^ 59"
    and "unat n + length (guest_events c) < 2 ^ 64"
  shows "recorded_as checks n a c"
  using assms
proof (induction c arbitrary: a n)
  case (Rdtsc_then k)
  show ?case
  proof (rule recorded_step [where c' = "k 0x1000 0"])
    fix a2
    assume "next_code a2 = skip_uses (k 0x1000 0)" "unat (Reg64 (a_regs a2 Rip)) \<le> unat (Reg64 (a_regs a Rip)) + 3"
    then show "recorded_as checks (n + 1) a2 (k 0x1000 0)"
      using Rdtsc_then.prems(2,3)
      by (intro Rdtsc_then.IH [of "k 0x1000"]) (simp_all add: unat_word_ariths)
  qed (use Rdtsc_then.prems in simp_all)
next
  case (Cpuid_then leaf k)
  let ?c = "k 0xAAAAAAAA 0xBBBBBBBB 0xCCCCCCCC 0xDDDDDDDD"
  show ?case
  proof (rule recorded_step [where c' = ?c])
    fix a2
    assume "next_code a2 = skip_uses ?c" "unat (Reg64 (a_regs a2 Rip)) \<le> unat (Reg64 (a_regs a Rip)) + 3"
    then show "recorded_as checks (n + 1) a2 ?c"
      using Cpuid_then.prems(2,3)
      by (intro Cpuid_then.IH [of "k 0xAAAAAAAA" "k 0xAAAAAAAA 0xBBBBBBBB" "k 0xAAAAAAAA 0xBBBBBBBB 0xCCCCCCCC"])
        (simp_all add: unat_word_ariths)
  qed (use Cpuid_then.prems in simp_all)
next
  case (Vmcall_then rax rcx c)
  show ?case
  proof (rule recorded_step [where c' = c])
    fix a2
    assume "next_code a2 = skip_uses c" "unat (Reg64 (a_regs a2 Rip)) \<le> unat (Reg64 (a_regs a Rip)) + 3"
    then show "recorded_as checks (n + 1) a2 c"
      using Vmcall_then.prems(2,3) by (intro Vmcall_then.IH) (simp_all add: unat_word_ariths)
  qed (use Vmcall_then.prems in simp_all)
next
  case (Use v c)
  have "recorded_as checks n a c" by (rule Use.IH) (use Use.prems in simp_all)
  then show ?case by (simp add: recorded_as_def)
next
  case (Halt v)
  obtain a1 where a1: "run_prog guest_prog a = Some (Inr (guest_exit (Halt v)), a1)"
    "\<And>n. Reg64 (a_regs a1 n) = (case map_of (rev (snd (snd (issue (Halt v))))) n of
       None \<Rightarrow> Reg64 (a_regs a n) | Some x \<Rightarrow> x)"
    using guest_exit_run [of a "Halt v"] Halt.prems(1) by auto
  have "abs_record (run_prog guest_prog) (\<lambda>_ _. None) checks n a [] (guest_exit (Halt v)) a1"
    using a1(1) by (rule abs_record.stop) (simp add: abs_event_def guest_exit_def)
  then show ?case
    using a1(2) [of Rax] by (auto simp: recorded_as_def guest_exit_def intro!: exI)
qed

end
