(* ===== verification/End_To_End.thy ===== *)
theory End_To_End
  imports Cli_Completes Guest_Programs
begin

text \<open>
  The commands on the reference hypervisor with the repository's own guest \<open>target_app\<close>: the
  instance on which the hypotheses of the end-to-end theorems are met.
\<close>

definition app_platform :: "guest_state ref_hv platform" where
  "app_platform = ref_platform True id (guest_state0 (app_start True)) guest_prog"

text \<open>A parser that reports one section of 16 bytes for every file, and a file for it.\<close>

definition app_pe :: PE where
  "app_pe = \<lparr>pe_entry = 0x1000, pe_size_of_image = Some 0x1800,
     pe_sections = [\<lparr>virtual_address = 0x1000, pointer_to_raw_data = 4, size_of_raw_data = 16\<rparr>]\<rparr>"

definition app_goblin :: "u8 list \<Rightarrow> unit + PE" where
  "app_goblin bytes = Inr app_pe"

definition app_bytes :: "u8 list" where
  "app_bytes = replicate 20 0x90"

definition app_loader :: PeLoader where
  "app_loader = \<lparr>pl_pe = app_pe, raw_bytes = app_bytes\<rparr>"

definition app_world :: "guest_state ref_hv world" where
  "app_world =
    \<lparr>w_heap = \<lparr>h_blocks = Map.empty, h_next = 1, h_avail = 0x1000000\<rparr>,
     w_hv = \<lparr>hv_parts = Map.empty, hv_next = 1, hv_room = 1\<rparr>,
     w_out = [], w_files = [(''target_app.exe'', app_bytes)]\<rparr>"

lemma app_size: "unat (aligned_size app_loader) = 0x2000" "aligned_size app_loader \<noteq> 0"
proof -
  show "unat (aligned_size app_loader) = 0x2000"
    by (simp add: unat_aligned_size app_loader_def app_pe_def)
  then show "aligned_size app_loader \<noteq> 0" by auto
qed

lemma app_world_ok:
  "ref_room (w_hv app_world)" "heap_inv (w_heap app_world)" "h_avail (w_heap app_world) = 0x1000000"
  "hm_get (w_files app_world) ''target_app.exe'' = Some app_bytes" "iterates_all app_platform" "fs_writable app_platform f"
  by (simp_all add: app_world_def ref_room_def heap_inv_def hm_get_def iterates_all_def app_platform_def ref_platform_def)

lemma app_sections: "section_ok 0x2000 (length app_bytes) s" if "s \<in> set (pe_sections app_pe)"
  using that by (simp add: app_pe_def app_bytes_def section_ok_def)

lemma app_events:
  "guest_events (app_start c) = concat (replicate 100 [ContextSwitch 0, ContextSwitch 1])"
  "guest_rax (app_start c) = Some 200" "guest_uses (app_start c) = [200]"
  using app_loop_unfold [of 0 100 c "\<lambda>v. Use v (Halt (Some v))"] by (simp_all add: app_start_def)

lemma app_event_count: "length (guest_events (app_start c)) = 200"
  unfolding app_events(1) by (simp add: length_concat sum_list_replicate)

interpretation app: whp_boot app_platform ref_live ref_regs ref_gpas ref_exits "ref_rest (guest_state0 (app_start True))"
    "\<lambda>_ _. None" "run_prog guest_prog" ref_room ref_created ref_idle reset_regs "guest_state0 (app_start True)"
  unfolding app_platform_def by (rule ref_boot.whp_boot_axioms)

lemma boot_rip:
  assumes "boots_as reset_regs x l a" shows "unat (Reg64 (a_regs a Rip)) < 2 ^ 33"
proof -
  have "Reg64 (a_regs a Rip) = base_gpa + entry_point l"
    using assms by (simp add: boots_as_def boot_regs_def Reg64_upd_regs)
  moreover have "unat (entry_point l) < 2 ^ 32"
    using unsigned_less [of "pe_entry (pl_pe l)", where ?'a = nat]
    by (simp add: entry_point_def unsigned_ucast_eq take_bit_eq_mod)
  ultimately show ?thesis by (simp add: base_gpa_def unat_word_ariths)
qed

lemma app_stops:
  assumes "boots_as reset_regs (guest_state0 (app_start True)) l a"
  shows "\<exists>ctx a'. abs_record (run_prog guest_prog) (\<lambda>_ _. None) c 0 a (stamp 0 (guest_events (app_start True))) ctx a'
    \<and> ExitReason ctx = 8 \<and> Reg64 (a_regs a' Rax) = 200"
proof -
  have "next_code a = skip_uses (app_start True)"
    using assms by (simp add: boots_as_def next_code_def guest_state0_def)
  then have "recorded_as c 0 a (app_start True)"
    using boot_rip [OF assms] by (intro guest_records) (simp_all add: app_event_count)
  then show ?thesis unfolding recorded_as_def app_events(2) by blast
qed

text \<open>The hypotheses of the end-to-end theorems, for this guest.\<close>

lemma app_input:
  "app_goblin app_bytes = Inr app_pe" "app_loader = \<lparr>pl_pe = app_pe, raw_bytes = app_bytes\<rparr>"
  "unat (aligned_size app_loader) \<le> 0xF0000" "boot_accepted (\<lambda>_ _. None) app_loader"
  "3 * (unat (aligned_size app_loader) + 0x14000) \<le> h_avail (w_heap app_world)"
  "\<forall>s \<in> set (pe_sections app_pe). section_ok (unat (aligned_size app_loader)) (length app_bytes) s"
  using app_sections
  by (simp_all add: app_goblin_def app_loader_def app_size [unfolded app_loader_def] app_world_ok(3) boot_accepted_def)

lemma app_guest_stops:
  assumes "boots_as reset_regs (guest_state0 (app_start True)) app_loader a"
  shows "\<exists>es ctx a'. abs_record (run_prog guest_prog) (\<lambda>_ _. None) c 0 a es ctx a' \<and> length es < 2 ^ 64"
proof -
  obtain ctx a' where "abs_record (run_prog guest_prog) (\<lambda>_ _. None) c 0 a (stamp 0 (guest_events (app_start True))) ctx a'"
    using app_stops [OF assms] by blast
  moreover have "length (stamp 0 (guest_events (app_start True))) < 2 ^ 64" by (simp add: app_event_count)
  ultimately show ?thesis by blast
qed

lemma app_few:
  assumes "boots_as reset_regs (guest_state0 (app_start True)) app_loader a"
    and "abs_record (run_prog guest_prog) (\<lambda>_ _. None) c 0 a es ctx a'"
  shows "length es < 2 ^ 64"
  using app_guest_stops [OF assms(1), of c] abs_record_unique [OF assms(2)] by blast

lemma app_records:
  obtains w' where "cli_record app_platform app_goblin bincode_ref ''target_app.exe'' ''trace.bin'' app_world = Some (Inr (), w')"
  using app.cli_record_returns [where goblin = app_goblin and F = bincode_ref and out = "''trace.bin''" and w = app_world,
      OF app_world_ok(5,6,1,2,4) app_input(1,2) app_size(2) app_input(3,6,4,5)] app_guest_stops by blast

section \<open>A processor stopped at an instruction of the small guest\<close>

definition demo_regs :: "u64 \<Rightarrow> reg_name \<Rightarrow> reg_value" where
  "demo_regs rip = reset_regs(Rip := mk_Reg64 rip)"

definition demo_at :: "u64 \<Rightarrow> unit ref_hv world" where
  "demo_at rip = demo_world\<lparr>w_hv := (w_hv demo_world)\<lparr>hv_parts :=
     [1 \<mapsto> \<lparr>rf_regs = [0 \<mapsto> demo_regs rip], rf_ranges = [(0, 32, 7, 7)],
        rf_exits = intercept_mask, rf_rest = (\<lambda>_. ()), rf_setup = True\<rparr>]\<rparr>\<rparr>"

abbreviation demo_arch :: "unit ref_hv world \<Rightarrow> unit arch" where
  "demo_arch w \<equiv> arch_of ref_regs ref_gpas ref_exits (ref_rest ()) demo_vcpu (w_heap w) (w_hv w)"

lemma demo_regs_canon [simp]: "reg_canon n (demo_regs rip n) = demo_regs rip n"
proof (cases "n = Rip")
  case True
  then show ?thesis by (simp add: demo_regs_def reg_canon_def is_segment_def)
qed (simp add: demo_regs_def reset_regs_canon)

lemma demo_at_ready:
  "ref_live (w_hv (demo_at rip)) (vc_partition demo_vcpu) (vc_index demo_vcpu)" "heap_inv (w_heap (demo_at rip))"
  by (simp_all add: demo_at_def demo_world_def demo_vcpu_def ref_live_def heap_inv_def inj_map_range)

lemma demo_at_regs: "a_regs (demo_arch (demo_at rip)) = demo_regs rip"
  by (simp add: arch_of_def ref_regs_def demo_at_def demo_vcpu_def fun_eq_iff)

lemma demo_at_exit:
  assumes "(rip, reason) \<in> {(0, 4099), (2, 4097), (7, 8)}"
  shows "run_prog demo_guest (demo_arch (demo_at rip)) = Some (Inr (demo_ctx reason), demo_arch (demo_at rip))"
proof -
  have "(\<lambda>n. reg_canon n (a_regs (demo_arch (demo_at rip)) n)) = a_regs (demo_arch (demo_at rip))"
    unfolding demo_at_regs demo_regs_canon by blast
  then show ?thesis
    using assms by (auto simp: run_prog_def demo_guest_def Let_def demo_at_regs demo_ctx_def demo_regs_def)
qed

lemma demo_replays: "replays_on demo_partition demo_vcpu (register_vcpu 0 demo_vcpu (ReplayEngine_new demo_partition 0))"
  using demo_ready(3) by simp

end
