(* ===== verification/Record_Failure.thy ===== *)
theory Record_Failure
  imports Record_Correct
begin

text \<open>
  How \<open>RecordEngine::run\<close> fails. The abstract recorder of \<open>Record_Correct\<close> derives the recordings that
  end; here the ones that fail are derived, with the failure and the events logged up to it: the
  hypervisor reports an error instead of an exit, refuses the registers of an answer or the new
  instruction pointer, or a counter overflows where overflow is checked. The loop fails exactly so,
  and whatever is neither an end nor a failure runs forever.
\<close>

definition abs_refusal ::
    "(reg_name list \<Rightarrow> reg_value list \<Rightarrow> u32 option) \<Rightarrow> bool \<Rightarrow> u64 \<Rightarrow> exit_context \<Rightarrow> EventType \<Rightarrow> 'x arch
      \<Rightarrow> (TraceEvent list \<times> failure) option" where
  "abs_refusal reject checks n ctx ev a = (case abs_inject reject ev a of
      Inl f \<Rightarrow> Some ([], f)
    | Inr b \<Rightarrow>
        if checks \<and> 2 ^ 64 \<le> unat n + 1 then Some ([\<lparr>instruction_count = n, event = ev\<rparr>], Panic ArithOverflow)
        else (case abs_advance reject checks (abs_length ctx) b of
            Inl f \<Rightarrow> Some ([\<lparr>instruction_count = n, event = ev\<rparr>], f)
          | Inr a2 \<Rightarrow> None))"

inductive abs_record_fails ::
    "('x arch \<Rightarrow> ((u32 + exit_context) \<times> 'x arch) option)
      \<Rightarrow> (reg_name list \<Rightarrow> reg_value list \<Rightarrow> u32 option) \<Rightarrow> bool
      \<Rightarrow> u64 \<Rightarrow> 'x arch \<Rightarrow> TraceEvent list \<Rightarrow> failure \<Rightarrow> bool"
  for G reject checks where
  no_exit: "G a = Some (Inl e, a') \<Longrightarrow> abs_record_fails G reject checks n a [] (WinErr e)"
| refused: "G a = Some (Inr ctx, a1) \<Longrightarrow> abs_event ctx a1 = Some ev \<Longrightarrow>
    abs_refusal reject checks n ctx ev a1 = Some (es, f) \<Longrightarrow> abs_record_fails G reject checks n a es f"
| later: "G a = Some (Inr ctx, a1) \<Longrightarrow> abs_event ctx a1 = Some ev \<Longrightarrow>
    abs_answer reject checks ctx ev a1 = Inr a2 \<Longrightarrow> (checks \<longrightarrow> unat n + 1 < 2 ^ 64) \<Longrightarrow>
    abs_record_fails G reject checks (n + 1) a2 es f \<Longrightarrow>
    abs_record_fails G reject checks n a (\<lparr>instruction_count = n, event = ev\<rparr> # es) f"

lemma abs_refusal_iff:
  "abs_refusal reject checks n ctx ev a = None \<longleftrightarrow>
     (\<exists>a2. abs_answer reject checks ctx ev a = Inr a2) \<and> (checks \<longrightarrow> unat n + 1 < 2 ^ 64)"
  by (auto simp: abs_refusal_def abs_answer_def split: sum.splits)

lemma no_outcome:
  fixes r :: "((failure + unit) \<times> 's \<times> 't) option"
  shows "r = None \<longleftrightarrow> (\<nexists>s. r = Some (Inr (), s)) \<and> (\<nexists>f s t. r = Some (Inl f, (s, t)))"
proof (cases r)
  case (Some x)
  then show ?thesis by (cases x; cases "fst x") auto
qed simp

context whp_contract
begin

lemma record_step_error:
  assumes rd: "ready v w" and eng: "records_on p v eng" and g: "guest (arch v w) = Some (Inl e, a')"
  shows "\<exists>w'. record_step P n (w, eng) = Some (Inl (WinErr e), (w', eng))"
proof -
  obtain w' where "VmRunner_run P (VmRunner_new p v) w = Some (Inl (WinErr e), w')"
    using run_error [OF rd _ g] eng unfolding records_on_def by blast
  then show ?thesis using eng by (simp add: record_step_def records_on_def bindE_def on_fst_def Let_def)
qed

lemma record_step_silent:
  assumes rd: "ready v w" and eng: "records_on p v eng" and g: "guest (arch v w) = None"
  shows "record_step P n (w, eng) = None"
proof -
  have "VmRunner_run P (VmRunner_new p v) w = None"
    using run_silent [OF rd _ g, of p] eng unfolding records_on_def by blast
  then show ?thesis using eng by (simp add: record_step_def records_on_def bindE_def on_fst_def Let_def)
qed

lemma record_tail_fails:
  assumes rd: "ready v w" and eng: "abs_inject reject e a = Inr (arch v w)"
    and r: "abs_refusal reject (overflow_checks P) n ctx e a = Some (es, f)"
  shows "\<exists>eng'. thenE (record_log \<lparr>instruction_count = n, event = e\<rparr>) (bindE (add_u64 (overflow_checks P) n 1) (\<lambda>cnt'.
      thenE (on_fst (record_advance_rip P v (abs_length ctx))) (ret (Some cnt')))) (w, eng) = Some (Inl f, (w, eng'))
    \<and> events (re_logger eng') = events (re_logger eng) @ es"
proof (cases "overflow_checks P \<and> 2 ^ 64 \<le> unat n + 1")
  case True
  then show ?thesis using r eng by (auto simp: abs_refusal_def thenE_def bindE_def add_u64_def raise_def log_event_def)
next
  case False
  then have "abs_advance reject (overflow_checks P) (abs_length ctx) (arch v w) = Inl f" "es = [\<lparr>instruction_count = n, event = e\<rparr>]"
    using r eng by (auto simp: abs_refusal_def split: sum.splits if_splits)
  moreover have "add_u64 (overflow_checks P) n 1 = (ret (n + 1) :: ('h world \<times> RecordEngine, u64) cmd)"
    using False by (auto simp: add_u64_def)
  ultimately show ?thesis
    using record_advance_rip_refused [OF rd] by (auto simp: thenE_def bindE_def on_fst_def ret_def log_event_def)
qed

lemma record_step_fails:
  assumes rd: "ready v w" and eng: "records_on p v eng"
    and g: "guest (arch v w) = Some (Inr ctx, a1)" and ev: "abs_event ctx a1 = Some ev"
    and r: "abs_refusal reject (overflow_checks P) n ctx ev a1 = Some (es, f)"
  shows "\<exists>w' eng'. record_step P n (w, eng) = Some (Inl f, (w', eng')) \<and> events (re_logger eng') = events (re_logger eng) @ es"
proof -
  obtain w1 where w1: "VmRunner_run P (VmRunner_new p v) w = Some (Inr ctx, w1)" "frame v w w1" "arch v w1 = a1"
    using run_ready [OF rd _ g, of p] eng by (auto simp: records_on_def)
  note inject = record_step_inject [OF frame_ready [OF w1(2)] eng w1(1), of ev]
  show ?thesis
  proof (cases "abs_inject reject ev a1")
    case (Inl e)
    then have "es = []" "f = e" using r by (simp_all add: abs_refusal_def)
    then show ?thesis using inject(2) ev Inl w1(3) by simp
  next
    case (Inr b)
    obtain w2 where w2: "frame v w1 w2" "arch v w2 = b"
      and step: "record_step P n (w, eng) = thenE (record_log \<lparr>instruction_count = n, event = ev\<rparr>)
          (bindE (add_u64 (overflow_checks P) n 1) (\<lambda>cnt'.
           thenE (on_fst (record_advance_rip P v (abs_length ctx))) (ret (Some cnt')))) (w2, eng)"
      using inject(1) ev Inr w1(3) by blast
    show ?thesis
      using record_tail_fails [OF frame_ready [OF w2(1)] _ r, of eng] Inr w2(2) unfolding step by auto
  qed
qed

lemma record_loop_fails:
  assumes "abs_record_fails guest reject (overflow_checks P) n a es f"
    and "ready v w" and "arch v w = a" and "records_on p v eng"
  shows "\<exists>w' eng'. record_loop P n (w, eng) = Some (Inl f, (w', eng')) \<and> events (re_logger eng') = events (re_logger eng) @ es"
  using assms
proof (induction arbitrary: w eng rule: abs_record_fails.induct)
  case (no_exit a e a' n)
  then obtain w' where "record_step P n (w, eng) = Some (Inl (WinErr e), (w', eng))"
    using record_step_error [OF no_exit.prems(1,3)] by blast
  then show ?case by (subst record_loop.simps) simp
next
  case (refused a ctx a1 ev n es f)
  then obtain w' eng' where "record_step P n (w, eng) = Some (Inl f, (w', eng'))" "events (re_logger eng') = events (re_logger eng) @ es"
    using record_step_fails [OF refused.prems(1,3)] by blast
  then show ?case by (subst record_loop.simps) simp
next
  case (later a ctx a1 ev a2 n es f)
  let ?eng = "eng\<lparr>re_logger := log_event \<lparr>instruction_count = n, event = ev\<rparr> (re_logger eng)\<rparr>"
  obtain w1 where w1: "record_step P n (w, eng) = Some (Inr (Some (n + 1)), (w1, ?eng))" "frame v w w1" "arch v w1 = a2"
    using record_step_event [OF later.prems(1,3)] later.hyps(1-4) later.prems(2) by blast
  obtain w' eng' where "record_loop P (n + 1) (w1, ?eng) = Some (Inl f, (w', eng'))"
    "events (re_logger eng') = events (re_logger ?eng) @ es"
    using later.IH [OF frame_ready [OF w1(2)] w1(3), of ?eng] later.prems(3) by auto
  then show ?case using w1(1) by (subst record_loop.simps) (auto simp: log_event_def)
qed

lemma record_step_failure:
  assumes rd: "ready v w" and eng: "records_on p v eng" and step: "record_step P n (w, eng) = Some (Inl f, (w', eng'))"
  shows "\<exists>es. abs_record_fails guest reject (overflow_checks P) n (arch v w) es f \<and> events (re_logger eng') = events (re_logger eng) @ es"
proof (cases "guest (arch v w)")
  case None
  then show ?thesis using record_step_silent [OF rd eng None, of n] step by simp
next
  case (Some r)
  show ?thesis
  proof (cases r)
    case (Pair res a1)
    show ?thesis
    proof (cases res)
      case (Inl e)
      then show ?thesis
        using record_step_error [OF rd eng, of e a1 n] step Some Pair by (auto intro!: exI [of _ "[]"] abs_record_fails.no_exit)
    next
      case (Inr ctx)
      note g = Some [unfolded Pair Inr]
      obtain ev where ev: "abs_event ctx a1 = Some ev"
        using record_step_stop [OF rd eng g, of n] step by fastforce
      obtain es f' where rf: "abs_refusal reject (overflow_checks P) n ctx ev a1 = Some (es, f')"
        using record_step_event [OF rd eng g ev, of _ n] abs_refusal_iff [of reject "overflow_checks P" n ctx ev a1] step
        by fastforce
      show ?thesis
        using record_step_fails [OF rd eng g ev rf] step abs_record_fails.refused [of guest, OF g ev rf] by auto
    qed
  qed
qed

lemma record_loop_failure:
  assumes "record_loop P n (w, eng) = Some (Inl f, (w', eng'))" and "ready v w" and "records_on p v eng"
  shows "\<exists>es. abs_record_fails guest reject (overflow_checks P) n (arch v w) es f \<and> events (re_logger eng') = events (re_logger eng) @ es"
proof -
  have "record_runs P n (w, eng) (Inl f, (w', eng'))" using assms(1) by (simp add: record_loop_iff)
  then show ?thesis
    using assms(2,3)
  proof (induction n "(w, eng)" "(Inl f :: failure + unit, (w', eng'))" arbitrary: w eng rule: record_runs.induct)
    case (failed n)
    then show ?case by (rule record_step_failure [rotated 2])
  next
    case (continue n m t)
    obtain w1 eng1 where t: "t = (w1, eng1)" by (cases t)
    obtain ctx a1 ev where g: "guest (arch v w) = Some (Inr ctx, a1)" and fr: "frame v w w1"
      and ev: "m = n + 1" "abs_event ctx a1 = Some ev" "abs_answer reject (overflow_checks P) ctx ev a1 = Inr (arch v w1)"
        "overflow_checks P \<longrightarrow> unat n + 1 < 2 ^ 64"
      and eng1: "eng1 = eng\<lparr>re_logger := log_event \<lparr>instruction_count = n, event = ev\<rparr> (re_logger eng)\<rparr>"
      using record_step_outcome [OF continue.prems continue.hyps(1) [unfolded t]] by auto
    obtain es where "abs_record_fails guest reject (overflow_checks P) m (arch v w1) es f"
      "events (re_logger eng') = events (re_logger eng1) @ es"
      using continue.hyps(3) [OF t] frame_ready [OF fr] continue.prems(2) eng1 by auto
    then show ?case
      using abs_record_fails.later [of guest, OF g ev(2-4), of es f] ev(1) eng1
      by (intro exI [of _ "\<lparr>instruction_count = n, event = ev\<rparr> # es"]) (simp add: log_event_def)
  qed
qed

lemma record_returns_iff:
  assumes "ready v w" and "vp_handle p = vc_partition v"
  shows "(\<exists>s. record_loop P 0 (w, RecordEngine_new p v) = Some (Inr (), s)) \<longleftrightarrow>
    (\<exists>es ctx a'. abs_record guest reject (overflow_checks P) 0 (arch v w) es ctx a')" (is "?L \<longleftrightarrow> ?R")
proof
  assume ?L
  then obtain w' eng where r: "record_loop P 0 (w, RecordEngine_new p v) = Some (Inr (), (w', eng))" by auto
  show ?R using record_loop_sound [OF r assms(1) records_on_new [OF assms(2)]] by blast
next
  assume ?R
  then obtain es ctx a' where r: "abs_record guest reject (overflow_checks P) 0 (arch v w) es ctx a'" by blast
  show ?L using record_loop_complete [OF r assms(1) refl records_on_new [OF assms(2)]] by blast
qed

lemma record_failed_iff:
  assumes "ready v w" and "vp_handle p = vc_partition v"
  shows "(\<exists>w' eng. record_loop P 0 (w, RecordEngine_new p v) = Some (Inl f, (w', eng)) \<and> events (re_logger eng) = es) \<longleftrightarrow>
    abs_record_fails guest reject (overflow_checks P) 0 (arch v w) es f" (is "?L \<longleftrightarrow> ?R")
proof
  assume ?L
  then obtain w' eng where r: "record_loop P 0 (w, RecordEngine_new p v) = Some (Inl f, (w', eng))" "events (re_logger eng) = es" by auto
  show ?R using record_loop_failure [OF r(1) assms(1) records_on_new [OF assms(2)]] r(2) by auto
next
  assume r: ?R
  show ?L using record_loop_fails [OF r assms(1) refl records_on_new [OF assms(2)]] by auto
qed

end

end
