(* ===== verification/Engine_Properties.thy ===== *)
theory Engine_Properties
  imports End_To_End Record_Failure
begin

text \<open>
  What the two engines promise on a hypervisor that keeps \<open>whp_contract\<close>: the record engine
  refines the abstract recorder, its trace replays to the recorded state, and every way a step
  can fail. The witnesses run on the reference hypervisor with a four-instruction guest.
\<close>

section \<open>Recording\<close>

text \<open>
  C2. The record engine refines the abstract recorder: on a live processor,
  \<open>RecordEngine::run\<close> returns with the trace \<open>es\<close> and leaves the
  architectural state \<open>a'\<close> exactly when the abstract recorder, which knows only the
  guest's exits and the answers to them, derives \<open>es\<close> and \<open>a'\<close> from the
  state at the start. So the loop returns precisely when the guest reaches an exit that is not
  intercepted.
\<close>

theorem record_engine_refines:
  assumes whp: "whp_contract P live regs gpas exits rest reject guest"
    and p: "vp_handle p = vc_partition v"
    and rd: "live (w_hv w) (vc_partition v) (vc_index v)" "heap_inv (w_heap w)"
  shows "(\<exists>w' eng. RecordEngine_run P (w, RecordEngine_new p v) = Some (Inr (), (w', eng))
        \<and> RecordEngine_finalize eng = es \<and> arch_of regs gpas exits rest v (w_heap w') (w_hv w') = a')
    \<longleftrightarrow> (\<exists>ctx. abs_record guest reject (overflow_checks P) 0 (arch_of regs gpas exits rest v (w_heap w) (w_hv w)) es ctx a')"
    (is "?L \<longleftrightarrow> ?R")
proof
  assume ?L
  then obtain w' eng where r: "record_loop P 0 (w, RecordEngine_new p v) = Some (Inr (), (w', eng))"
    "events (re_logger eng) = es" "arch_of regs gpas exits rest v (w_heap w') (w_hv w') = a'"
    by (auto simp: RecordEngine_run_def RecordEngine_finalize_def)
  show ?R
    using whp_contract.record_loop_sound [OF whp r(1), of v p] p rd r(2,3) by auto
next
  assume ?R
  then obtain ctx where "abs_record guest reject (overflow_checks P) 0 (arch_of regs gpas exits rest v (w_heap w) (w_hv w)) es ctx a'"
    by blast
  from whp_contract.record_loop_complete [OF whp this, of w v p "RecordEngine_new p v"] show ?L
    using p rd by (auto simp: RecordEngine_run_def RecordEngine_finalize_def)
qed

theorem record_engine_refines_witness:
  "(\<exists>w' eng a'. RecordEngine_run demo_platform (demo_world, RecordEngine_new demo_partition demo_vcpu) = Some (Inr (), (w', eng))
      \<and> RecordEngine_finalize eng = demo_events \<and> demo_arch w' = a')"
proof -
  have "Reg64 (a_regs (demo_arch demo_world) Rip) = 0"
    by (simp add: arch_of_def ref_regs_def demo_world_def demo_vcpu_def reset_regs_def)
  then obtain ctx a' where "abs_record (run_prog demo_guest) (\<lambda>_ _. None) (overflow_checks demo_platform) 0
      (demo_arch demo_world) demo_events ctx a'"
    using demo_abs_record [of "demo_arch demo_world"] by (auto simp: demo_platform_def ref_platform_def)
  then show ?thesis
    using record_engine_refines [OF demo.whp_contract_axioms demo_ready(3,1,2), of demo_events a'] by blast
qed

text \<open>
  C4. A recorded execution replays deterministically. If the record engine returns from recording
  a guest, then on any partition whose virtual CPU starts from the same architectural state,
  replaying the recorded events in order and running the guest once more returns, and leaves the
  guest in the architectural state (registers, memory, interception mask, processor state) in
  which the recording ended.
\<close>

theorem replay_reproduces_recording:
  assumes whp: "whp_contract P live regs gpas exits rest reject guest"
    and "vp_handle p = vc_partition v"
    and "live (w_hv w) (vc_partition v) (vc_index v)" and "heap_inv (w_heap w)"
    and rec: "RecordEngine_run P (w, RecordEngine_new p v) = Some (Inr (), (w', eng))"
    and "vp_handle p2 = vc_partition v2"
    and "live (w_hv u) (vc_partition v2) (vc_index v2)" and "heap_inv (w_heap u)"
    and same: "arch_of regs gpas exits rest v2 (w_heap u) (w_hv u) = arch_of regs gpas exits rest v (w_heap w) (w_hv w)"
  shows "\<exists>ctx u'. thenE (for_each (RecordEngine_finalize eng)
        (replay_event P (register_vcpu i v2 (ReplayEngine_new p2 i))))
      (VmRunner_run P (VmRunner_new p2 v2)) u = Some (Inr ctx, u')
    \<and> arch_of regs gpas exits rest v2 (w_heap u') (w_hv u') =
      arch_of regs gpas exits rest v (w_heap w') (w_hv w')"
proof -
  obtain es ctx where es: "abs_record guest reject (overflow_checks P) 0
      (arch_of regs gpas exits rest v2 (w_heap u) (w_hv u)) es ctx (arch_of regs gpas exits rest v (w_heap w') (w_hv w'))"
    "events (re_logger eng) = es"
    using whp_contract.record_loop_sound [OF whp rec [unfolded RecordEngine_run_def], of v p]
      assms(2-4) same by auto
  obtain u1 where u1: "for_each es (replay_event P (register_vcpu i v2 (ReplayEngine_new p2 i))) u = Some (Inr (), u1)"
    "keeps live gpas v2 u u1"
    "guest (arch_of regs gpas exits rest v2 (w_heap u1) (w_hv u1)) =
      Some (Inr ctx, arch_of regs gpas exits rest v (w_heap w') (w_hv w'))"
    using whp_contract.replay_trace [OF whp es(1), of u v2 p2 "register_vcpu i v2 (ReplayEngine_new p2 i)"]
      assms(6-8) by auto
  show ?thesis
    using whp_contract.run_ready [OF whp whp_contract.frame_ready [OF whp u1(2)] assms(6) u1(3)] es(2) u1(1)
    by (auto simp: RecordEngine_finalize_def thenE_step)
qed

theorem replay_reproduces_recording_witness:
  "\<exists>w' eng ctx u'.
     RecordEngine_run demo_platform (demo_world, RecordEngine_new demo_partition demo_vcpu) = Some (Inr (), (w', eng))
   \<and> RecordEngine_finalize eng = demo_events
   \<and> thenE (for_each demo_events (replay_event demo_platform (register_vcpu 0 demo_vcpu (ReplayEngine_new demo_partition 0))))
       (VmRunner_run demo_platform (VmRunner_new demo_partition demo_vcpu)) demo_world = Some (Inr ctx, u')
   \<and> arch_of ref_regs ref_gpas ref_exits (ref_rest ()) demo_vcpu (w_heap u') (w_hv u') =
     arch_of ref_regs ref_gpas ref_exits (ref_rest ()) demo_vcpu (w_heap w') (w_hv w')"
proof -
  obtain w' eng where r: "RecordEngine_run demo_platform (demo_world, RecordEngine_new demo_partition demo_vcpu)
      = Some (Inr (), (w', eng))" "RecordEngine_finalize eng = demo_events"
    using demo_recording by blast
  show ?thesis
    using replay_reproduces_recording [OF demo.whp_contract_axioms demo_ready(3,1,2) r(1) demo_ready(3,1,2) refl, of 0]
      r by auto
qed

text \<open>
  C12. Recording is deterministic across hypervisors: two recordings, on two hypervisors that run
  guests the same way, that start from the same architectural state and return, have the same
  trace and end in the same architectural state.
\<close>

theorem recording_deterministic:
  assumes whp: "whp_contract P live regs gpas exits rest reject guest"
    and whp2: "whp_contract Q live2 regs2 gpas2 exits2 rest2 reject guest"
    and chk: "overflow_checks Q = overflow_checks P"
    and p: "vp_handle p = vc_partition v" "vp_handle p2 = vc_partition v2"
    and rd: "live (w_hv w) (vc_partition v) (vc_index v)" "heap_inv (w_heap w)"
    and rd2: "live2 (w_hv u) (vc_partition v2) (vc_index v2)" "heap_inv (w_heap u)"
    and same: "arch_of regs2 gpas2 exits2 rest2 v2 (w_heap u) (w_hv u) = arch_of regs gpas exits rest v (w_heap w) (w_hv w)"
    and r: "RecordEngine_run P (w, RecordEngine_new p v) = Some (Inr (), (w', eng))"
    and r2: "RecordEngine_run Q (u, RecordEngine_new p2 v2) = Some (Inr (), (u', eng2))"
  shows "RecordEngine_finalize eng2 = RecordEngine_finalize eng
    \<and> arch_of regs2 gpas2 exits2 rest2 v2 (w_heap u') (w_hv u') = arch_of regs gpas exits rest v (w_heap w') (w_hv w')"
proof -
  obtain ctx where 1: "abs_record guest reject (overflow_checks P) 0 (arch_of regs gpas exits rest v (w_heap w) (w_hv w))
      (RecordEngine_finalize eng) ctx (arch_of regs gpas exits rest v (w_heap w') (w_hv w'))"
    using whp_contract.record_loop_sound [OF whp r [unfolded RecordEngine_run_def], of v p] p(1) rd
    by (auto simp: RecordEngine_finalize_def)
  obtain ctx2 where 2: "abs_record guest reject (overflow_checks Q) 0 (arch_of regs2 gpas2 exits2 rest2 v2 (w_heap u) (w_hv u))
      (RecordEngine_finalize eng2) ctx2 (arch_of regs2 gpas2 exits2 rest2 v2 (w_heap u') (w_hv u'))"
    using whp_contract.record_loop_sound [OF whp2 r2 [unfolded RecordEngine_run_def], of v2 p2] p(2) rd2
    by (auto simp: RecordEngine_finalize_def)
  show ?thesis
    using abs_record_unique [OF 1] 2 unfolding chk same by metis
qed

theorem recording_deterministic_witness:
  "\<exists>w' eng u' eng2. RecordEngine_run demo_platform (demo_world, RecordEngine_new demo_partition demo_vcpu) = Some (Inr (), (w', eng))
    \<and> RecordEngine_run demo_platform (demo_world\<lparr>w_out := [TraceSaved]\<rparr>, RecordEngine_new demo_partition demo_vcpu) = Some (Inr (), (u', eng2))
    \<and> RecordEngine_finalize eng2 = RecordEngine_finalize eng"
proof -
  let ?u = "demo_world\<lparr>w_out := [TraceSaved]\<rparr>"
  obtain w' eng where r: "RecordEngine_run demo_platform (demo_world, RecordEngine_new demo_partition demo_vcpu)
      = Some (Inr (), (w', eng))"
    using demo_recording by blast
  have u: "ref_live (w_hv ?u) (vc_partition demo_vcpu) (vc_index demo_vcpu)" "heap_inv (w_heap ?u)" "demo_arch ?u = demo_arch demo_world"
    using demo_ready(1,2) by simp_all
  obtain ctx a' where a: "abs_record (run_prog demo_guest) (\<lambda>_ _. None) (overflow_checks demo_platform) 0
      (demo_arch ?u) demo_events ctx a'"
    using demo_abs_record [of "demo_arch demo_world"]
    by (auto simp: demo_platform_def ref_platform_def arch_of_def ref_regs_def demo_world_def demo_vcpu_def reset_regs_def)
  obtain u' eng2 where r2: "RecordEngine_run demo_platform (?u, RecordEngine_new demo_partition demo_vcpu) = Some (Inr (), (u', eng2))"
    using demo.record_loop_complete [OF a conjI [OF u(1,2)] refl, of demo_partition "RecordEngine_new demo_partition demo_vcpu"]
      demo_ready(3) by (auto simp: RecordEngine_run_def)
  show ?thesis
    using recording_deterministic [OF demo.whp_contract_axioms demo.whp_contract_axioms refl demo_ready(3,3,1,2) u r r2] r r2 by blast
qed

text \<open>
  C19. The recorded events are numbered 0, 1, 2, ... in their order, whatever the guest executed
  between them, and each of them is the fixed CPUID answer, the fixed RDTSC answer or a context
  switch; the record engine never logs a system call.
\<close>

theorem recorded_events_numbered:
  assumes "whp_contract P live regs gpas exits rest reject guest"
    and "vp_handle p = vc_partition v"
    and "live (w_hv w) (vc_partition v) (vc_index v)" "heap_inv (w_heap w)"
    and run: "RecordEngine_run P (w, RecordEngine_new p v) = Some (Inr (), (w', eng))"
    and i: "i < length (RecordEngine_finalize eng)"
  shows "instruction_count (RecordEngine_finalize eng ! i) = of_nat i
    \<and> (event (RecordEngine_finalize eng ! i) \<in> {sim_cpuid, sim_rdtsc}
       \<or> (\<exists>t. event (RecordEngine_finalize eng ! i) = ContextSwitch t))"
proof -
  obtain ctx where r: "abs_record guest reject (overflow_checks P) 0 (arch_of regs gpas exits rest v (w_heap w) (w_hv w))
      (RecordEngine_finalize eng) ctx (arch_of regs gpas exits rest v (w_heap w') (w_hv w'))"
    using whp_contract.record_loop_sound [OF assms(1) run [unfolded RecordEngine_run_def], of v p] assms(2-4)
    by (auto simp: RecordEngine_finalize_def)
  show ?thesis
    using abs_record_numbered [OF r] abs_record_kinds [OF r] i by (simp add: numbered_from_def)
qed

theorem recorded_events_numbered_witness:
  "\<exists>w' eng. RecordEngine_run demo_platform (demo_world, RecordEngine_new demo_partition demo_vcpu) = Some (Inr (), (w', eng))
    \<and> instruction_count (RecordEngine_finalize eng ! 2) = 2
    \<and> (event (RecordEngine_finalize eng ! 2) \<in> {sim_cpuid, sim_rdtsc} \<or> (\<exists>t. event (RecordEngine_finalize eng ! 2) = ContextSwitch t))"
proof -
  obtain w' eng where r: "RecordEngine_run demo_platform (demo_world, RecordEngine_new demo_partition demo_vcpu)
      = Some (Inr (), (w', eng))" "RecordEngine_finalize eng = demo_events"
    using demo_recording by blast
  have "2 < length (RecordEngine_finalize eng)" by (simp add: r(2) demo_events_def)
  from recorded_events_numbered [OF demo.whp_contract_axioms demo_ready(3,1,2) r(1) this] r(1) show ?thesis by auto
qed

text \<open>
  C20. Recording cannot damage the host: when it returns, the host heap is still well formed with
  every allocation of the same size, the files and the guest mapping are unchanged, and every
  allocation that is not mapped into the guest has kept its contents.
\<close>

theorem record_isolates_host:
  assumes whp: "whp_contract P live regs gpas exits rest reject guest"
    and p: "vp_handle p = vc_partition v"
    and rd: "live (w_hv w) (vc_partition v) (vc_index v)" "heap_inv (w_heap w)"
    and r: "RecordEngine_run P (w, RecordEngine_new p v) = Some (Inr (), (w', eng))"
  shows "heap_inv (w_heap w') \<and> live (w_hv w') (vc_partition v) (vc_index v)
    \<and> w_files w' = w_files w \<and> gpas (w_hv w') (vc_partition v) = gpas (w_hv w) (vc_partition v)
    \<and> same_shape (w_heap w) (w_heap w')
    \<and> (\<forall>q. h_blocks (w_heap w') q = h_blocks (w_heap w) q \<or> q \<in> mapped_ptrs (gpas (w_hv w) (vc_partition v)))"
proof -
  have "keeps live gpas v w w'"
    using whp_contract.record_loop_sound [OF whp r [unfolded RecordEngine_run_def], of v p] p rd by auto
  then show ?thesis unfolding keeps_def by blast
qed

theorem record_isolates_host_witness:
  "\<exists>w' eng. RecordEngine_run demo_platform (demo_world, RecordEngine_new demo_partition demo_vcpu) = Some (Inr (), (w', eng))
    \<and> heap_inv (w_heap w') \<and> w_files w' = w_files demo_world
    \<and> (\<forall>q. h_blocks (w_heap w') q = h_blocks (w_heap demo_world) q
        \<or> q \<in> mapped_ptrs (ref_gpas (w_hv demo_world) (vc_partition demo_vcpu)))"
proof -
  obtain w' eng where r: "RecordEngine_run demo_platform (demo_world, RecordEngine_new demo_partition demo_vcpu)
      = Some (Inr (), (w', eng))"
    using demo_recording by blast
  show ?thesis
    using record_isolates_host [OF demo.whp_contract_axioms demo_ready(3,1,2) r] r by blast
qed

text \<open>
  C3. \<open>RecordEngine::run\<close> fails exactly when the abstract recorder derives the failure: with the same
  error or panic and the same events logged up to it. The failures are an error of the hypervisor
  instead of an exit, an answer whose registers the hypervisor refuses, an event counter or an
  instruction pointer that overflows where overflow is checked, and an instruction pointer that is
  refused; the events logged before are kept by the engine. The loop runs forever exactly when the
  abstract recorder derives neither an end nor a failure.
\<close>

theorem record_engine_failures:
  assumes whp: "whp_contract P live regs gpas exits rest reject guest"
    and p: "vp_handle p = vc_partition v"
    and rd: "live (w_hv w) (vc_partition v) (vc_index v)" "heap_inv (w_heap w)"
    and a: "a = arch_of regs gpas exits rest v (w_heap w) (w_hv w)"
  shows "((\<exists>w' eng. RecordEngine_run P (w, RecordEngine_new p v) = Some (Inl f, (w', eng)) \<and> RecordEngine_finalize eng = es)
      \<longleftrightarrow> abs_record_fails guest reject (overflow_checks P) 0 a es f)
    \<and> (RecordEngine_run P (w, RecordEngine_new p v) = None
      \<longleftrightarrow> (\<nexists>es ctx a'. abs_record guest reject (overflow_checks P) 0 a es ctx a')
        \<and> (\<nexists>es f. abs_record_fails guest reject (overflow_checks P) 0 a es f))"
proof -
  let ?run = "record_loop P 0 (w, RecordEngine_new p v)"
  note ok = whp_contract.record_returns_iff [OF whp conjI [OF rd] p, folded a]
  note bad = whp_contract.record_failed_iff [OF whp conjI [OF rd] p, folded a]
  have "?run = None \<longleftrightarrow> (\<nexists>s. ?run = Some (Inr (), s)) \<and> (\<nexists>f w' eng. ?run = Some (Inl f, (w', eng)))"
    by (rule no_outcome)
  also have "\<dots> \<longleftrightarrow> (\<nexists>es ctx a'. abs_record guest reject (overflow_checks P) 0 a es ctx a')
      \<and> (\<nexists>es f. abs_record_fails guest reject (overflow_checks P) 0 a es f)"
    unfolding ok bad [symmetric] by simp
  finally show ?thesis using bad [of f es] by (simp add: RecordEngine_run_def RecordEngine_finalize_def)
qed

theorem record_engine_failures_witness:
  "(\<exists>w' eng. RecordEngine_run (ref_platform True id () (\<lambda>a. Some (Inl 5, a_regs a, [], ())))
      (demo_world, RecordEngine_new demo_partition demo_vcpu) = Some (Inl (WinErr 5), (w', eng)) \<and> RecordEngine_finalize eng = [])
   \<and> RecordEngine_run (ref_platform True id () (\<lambda>a. None)) (demo_world, RecordEngine_new demo_partition demo_vcpu) = None"
proof
  have "abs_record_fails (run_prog (\<lambda>a. Some (Inl 5, a_regs a, [], ()))) (\<lambda>_ _. None) c 0 a [] (WinErr 5)" for c a
    by (rule abs_record_fails.no_exit) (simp add: run_prog_def)
  then show "\<exists>w' eng. RecordEngine_run (ref_platform True id () (\<lambda>a. Some (Inl 5, a_regs a, [], ())))
      (demo_world, RecordEngine_new demo_partition demo_vcpu) = Some (Inl (WinErr 5), (w', eng)) \<and> RecordEngine_finalize eng = []"
    using record_engine_failures [OF ref.whp_contract_axioms [of True id "()" "\<lambda>a. Some (Inl 5, a_regs a, [], ())"]
        demo_ready(3,1,2) refl, of "WinErr 5" "[]"] by (metis (no_types, lifting))
  have "\<not> abs_record (run_prog (\<lambda>a. None)) (\<lambda>_ _. None) c 0 a es ctx a'"
    "\<not> abs_record_fails (run_prog (\<lambda>a. None)) (\<lambda>_ _. None) c 0 a es f" for c es f ctx and a a' :: "unit arch"
    by (auto simp: run_prog_def elim: abs_record.cases abs_record_fails.cases)
  then show "RecordEngine_run (ref_platform True id () (\<lambda>a. None)) (demo_world, RecordEngine_new demo_partition demo_vcpu) = None"
    using record_engine_failures [OF ref.whp_contract_axioms [of True id "()" "\<lambda>a. None"] demo_ready(3,1,2) refl] by simp
qed

text \<open>
  C30. Advancing RIP by an instruction length: with overflow checks a sum of \<open>2^64\<close> or
  more panics and changes nothing; otherwise RIP is the sum modulo \<open>2^64\<close>, its upper
  half cleared, and nothing else of the architectural state changes.
\<close>

theorem advance_rip_outcome:
  assumes whp: "whp_contract P live regs gpas exits rest reject guest"
    and rd: "live (w_hv w) (vc_partition v) (vc_index v)" "heap_inv (w_heap w)"
    and acc: "\<forall>x. reject [Rip] [x] = None"
    and a: "a = arch_of regs gpas exits rest v (w_heap w) (w_hv w)"
  shows "if overflow_checks P \<and> 2 ^ 64 \<le> unat (Reg64 (a_regs a Rip)) + unat len
    then record_advance_rip P v len w = Some (Inl (Panic ArithOverflow), w)
    else \<exists>w'. record_advance_rip P v len w = Some (Inr (), w')
      \<and> arch_of regs gpas exits rest v (w_heap w') (w_hv w') =
         a\<lparr>a_regs := (a_regs a)(Rip := mk_Reg64 (Reg64 (a_regs a Rip) + ucast len))\<rparr>"
proof -
  have u: "unat (ucast len :: u64) = unat len"
    using unsigned_less [of len, where ?'a = nat] by (simp add: unsigned_ucast_eq take_bit_eq_mod)
  let ?x = "set_Reg64 (Reg64 (a_regs a Rip) + ucast len) (a_regs a Rip)"
  have "upd_regs (a_regs a) [(Rip, ?x)] = (a_regs a)(Rip := mk_Reg64 (Reg64 (a_regs a Rip) + ucast len))"
    by (simp add: upd_regs_def reg_canon_def is_segment_def)
  then have "abs_advance reject (overflow_checks P) len a =
      (if overflow_checks P \<and> 2 ^ 64 \<le> unat (Reg64 (a_regs a Rip)) + unat len then Inl (Panic ArithOverflow)
       else Inr (a\<lparr>a_regs := (a_regs a)(Rip := mk_Reg64 (Reg64 (a_regs a Rip) + ucast len))\<rparr>))"
    using acc by (simp add: abs_advance_def Let_def u abs_set_def)
  then show ?thesis
    using whp_contract.record_advance_rip_ready [OF whp, of w v len] whp_contract.record_advance_rip_refused [OF whp, of w v len]
      rd a by auto
qed

theorem advance_rip_outcome_witness:
  "record_advance_rip demo_platform demo_vcpu 3 (demo_at 0xFFFFFFFFFFFFFFFE) = Some (Inl (Panic ArithOverflow), demo_at 0xFFFFFFFFFFFFFFFE)"
  using advance_rip_outcome [where len = 3, OF demo.whp_contract_axioms demo_at_ready [of "0xFFFFFFFFFFFFFFFE"] _ refl]
  by (simp add: demo_at_regs demo_regs_def demo_platform_def ref_platform_def)

section \<open>Replaying\<close>

text \<open>
  C26. \<open>inject_event\<close> puts the recorded values into the registers the instruction
  defines (RAX for a system call, RAX and RDX for RDTSC, RAX to RDX for CPUID, none for a context
  switch), zero-extended to 64 bits, and changes nothing else of the architectural state.
\<close>

theorem inject_sets_registers:
  assumes whp: "whp_contract P live regs gpas exits rest reject guest"
    and r: "replays_on p v r"
    and rd: "live (w_hv w) (vc_partition v) (vc_index v)" "heap_inv (w_heap w)"
    and acc: "\<forall>ns vs. reject ns vs = None"
    and a: "a = arch_of regs gpas exits rest v (w_heap w) (w_hv w)"
  shows "\<exists>w'. inject_event P r e w = Some (Inr (), w')
    \<and> arch_of regs gpas exits rest v (w_heap w') (w_hv w') = a\<lparr>a_regs := (case event e of
        Syscall rax ws \<Rightarrow> (a_regs a)(Rax := mk_Reg64 rax)
      | Rdtsc rax rdx \<Rightarrow> (a_regs a)(Rax := mk_Reg64 rax, Rdx := mk_Reg64 rdx)
      | Cpuid eax ebx ecx edx \<Rightarrow> (a_regs a)(Rax := mk_Reg64 (ucast eax), Rbx := mk_Reg64 (ucast ebx),
          Rcx := mk_Reg64 (ucast ecx), Rdx := mk_Reg64 (ucast edx))
      | ContextSwitch t \<Rightarrow> a_regs a)\<rparr>"
proof -
  have "abs_inject reject (event e) a = Inr (a\<lparr>a_regs := (case event e of
        Syscall rax ws \<Rightarrow> (a_regs a)(Rax := mk_Reg64 rax)
      | Rdtsc rax rdx \<Rightarrow> (a_regs a)(Rax := mk_Reg64 rax, Rdx := mk_Reg64 rdx)
      | Cpuid eax ebx ecx edx \<Rightarrow> (a_regs a)(Rax := mk_Reg64 (ucast eax), Rbx := mk_Reg64 (ucast ebx),
          Rcx := mk_Reg64 (ucast ecx), Rdx := mk_Reg64 (ucast edx))
      | ContextSwitch t \<Rightarrow> a_regs a)\<rparr>)"
    using acc by (cases "event e") (simp_all add: abs_inject_def abs_set_def upd_regs_def reg_canon_def is_segment_def)
  then show ?thesis
    using whp_contract.inject_event_ready [OF whp conjI [OF rd] r, of e] unfolding a by blast
qed

theorem inject_sets_registers_witness:
  "\<exists>w'. inject_event demo_platform (register_vcpu 0 demo_vcpu (ReplayEngine_new demo_partition 0))
      \<lparr>instruction_count = 0, event = sim_cpuid\<rparr> (demo_at 2) = Some (Inr (), w')
    \<and> Reg64 (a_regs (demo_arch w') Rdx) = 0xDDDDDDDD \<and> Reg64 (a_regs (demo_arch w') Rip) = 2"
proof -
  let ?e = "\<lparr>instruction_count = 0, event = sim_cpuid\<rparr> :: TraceEvent"
  obtain w' where w': "inject_event demo_platform (register_vcpu 0 demo_vcpu (ReplayEngine_new demo_partition 0)) ?e (demo_at 2) = Some (Inr (), w')"
    "a_regs (demo_arch w') = (demo_regs 2)(Rax := mk_Reg64 (ucast (0xAAAAAAAA :: u32)), Rbx := mk_Reg64 (ucast (0xBBBBBBBB :: u32)),
       Rcx := mk_Reg64 (ucast (0xCCCCCCCC :: u32)), Rdx := mk_Reg64 (ucast (0xDDDDDDDD :: u32)))"
    using inject_sets_registers [OF demo.whp_contract_axioms demo_replays demo_at_ready [of 2] _ refl, of ?e]
    by (auto simp: sim_cpuid_def demo_at_regs)
  show ?thesis
    by (rule exI [of _ w']) (simp add: w' demo_regs_def)
qed

text \<open>
  C31. A trace that does not match the guest is not always detected: when the guest stops at a
  CPUID (or RDTSC) instruction and the next event is of another kind, \<open>replay_event\<close>
  neither reports the mismatch nor moves past the instruction; the same exit comes back forever
  and the call never returns.
\<close>

theorem replay_mismatch_never_returns:
  assumes whp: "whp_contract P live regs gpas exits rest reject guest"
    and r: "replays_on p v r"
    and rd: "live (w_hv w) (vc_partition v) (vc_index v)" "heap_inv (w_heap w)"
    and g: "guest (arch_of regs gpas exits rest v (w_heap w) (w_hv w)) = Some (Inr ctx, arch_of regs gpas exits rest v (w_heap w) (w_hv w))"
    and ne: "ExitReason ctx = 4097 \<and> \<not> is_Cpuid (event ev) \<or> ExitReason ctx = 4099 \<and> \<not> is_Rdtsc (event ev)"
  shows "replay_event P r ev w = None"
  using whp_contract.replay_event_stuck [OF whp _ r refl g ne] rd by blast

theorem replay_mismatch_never_returns_witness:
  "replay_event demo_platform (register_vcpu 0 demo_vcpu (ReplayEngine_new demo_partition 0))
     \<lparr>instruction_count = 0, event = ContextSwitch 1\<rparr> (demo_at 0) = None"
  using replay_mismatch_never_returns [OF demo.whp_contract_axioms demo_replays demo_at_ready demo_at_exit [of 0 4099],
      of "\<lparr>instruction_count = 0, event = ContextSwitch 1\<rparr>"]
  by (simp add: demo_ctx_def)



lemma replay_without_vcpu:
  assumes "hm_get (rp_vcpus r) (active_vcpu_id r) = None"
  shows "replay_event P r ev w = Some (Inl (Panic (Expect ''Active vCPU not found'')), w)"
proof -
  have "replay_step P r ev w = Some (Inl (Panic (Expect ''Active vCPU not found'')), w)"
    using assms by (simp add: replay_step_def active_vcpu_def expect_some_def bindE_def raise_def)
  then show ?thesis by (simp add: replay_event.simps)
qed

end
