(* ===== verification/Boot_Properties.thy ===== *)
theory Boot_Properties
  imports End_To_End
begin

text \<open>
  What the record command builds before the guest runs, and what replay rebuilds: page tables,
  long mode, the address ranges of the guest, snapshots and the archive, and the life cycle of a
  partition.
\<close>

text \<open>The ranges of guest addresses that the record command maps.\<close>

definition layout_ranges :: "guest_layout \<Rightarrow> (nat \<times> nat) list" where
  "layout_ranges gl = [(unat base_gpa, unat (gl_image_size gl)), (unat (gl_stack_base gl), unat stack_size),
     (0, 0x1000), (unat pt_gpa, unat (pt_size (gl_tables gl)))]"

definition apart :: "nat \<times> nat \<Rightarrow> nat \<times> nat \<Rightarrow> bool" where
  "apart r s \<longleftrightarrow> fst r + snd r \<le> fst s \<or> fst s + snd s \<le> fst r"

section \<open>Guest memory\<close>

text \<open>
  C10. Before the guest runs, the record command has built the machine it describes: registers in
  long mode with the page tables in CR3, RIP at the entry point of the image and RSP at the top of
  the stack; guest memory holding the image at \<open>0x100000\<close> as the PE sections lay it
  out, a zero stack behind it, a zero page at 0 and the page tables at \<open>0x200000\<close>,
  and nothing else; and a snapshot with exactly these bytes and registers.
\<close>

theorem record_prepares_guest:
  assumes whp: "whp_boot P live regs gpas exits rest reject guest room created idle regs0 rest0"
    and w: "room (w_hv w)" "heap_inv (w_heap w)"
    and tgt: "hm_get (w_files w) target = Some data" "goblin data = Inr pe"
    and l: "l = \<lparr>pl_pe = pe, raw_bytes = data\<rparr>"
    and sz: "aligned_size l \<noteq> 0" "unat (aligned_size l) \<le> 0xF0000"
    and ok: "\<forall>s \<in> set (pe_sections pe). section_ok (unat (aligned_size l)) (length data) s"
    and acc: "boot_accepted reject l"
    and av: "2 * (unat (aligned_size l) + 0x14000) \<le> h_avail (w_heap w)"
  shows "\<exists>vm gl snap v w'. record_prepare P goblin target w = Some (Inr (vm, gl, snap, v), w')
    \<and> boots_as regs0 rest0 l (arch_of regs gpas exits rest v (w_heap w') (w_hv w'))
    \<and> mem_matches (a_mem (arch_of regs gpas exits rest v (w_heap w') (w_hv w'))) (region_bytes (w_heap w') snap)
    \<and> registers snap = map (a_regs (arch_of regs gpas exits rest v (w_heap w') (w_hv w'))) capture_names"
proof -
  obtain vm gl snap v w' where p: "record_prepare P goblin target w = Some (Inr (vm, gl, snap, v), w')"
    using whp_boot.record_prepare_returns [OF whp, of w target data goblin pe l, OF w tgt l sz ok acc av] by blast
  have g: "whp_boot.guest_prepared live regs gpas exits rest reject regs0 rest0 vm gl snap v w'"
    "boots_as regs0 rest0 l (arch_of regs gpas exits rest v (w_heap w') (w_hv w'))"
    using whp_boot.record_prepare_sound [OF whp p w tgt] sz(2) unfolding l by blast+
  note gp = g(1) [unfolded whp_boot.guest_prepared_def [OF whp]]
  have "mem_matches (guest_mem (w_heap w') (gpas (w_hv w') (vp_handle vm))) (region_bytes (w_heap w') snap)"
    using gp regions_in_mem [of "gpas (w_hv w') (vp_handle vm)" "layout_regions gl" "w_heap w'"] by simp
  then show ?thesis
    using p g(2) gp by (intro exI [of _ vm] exI [of _ gl] exI [of _ snap] exI [of _ v] exI [of _ w']) (simp add: arch_of_def)
qed

theorem record_prepares_guest_witness:
  "\<exists>vm gl snap v w'. record_prepare app_platform app_goblin ''target_app.exe'' app_world = Some (Inr (vm, gl, snap, v), w')
    \<and> Reg64 (registers snap ! 0) = 0x101000 \<and> Reg64 (registers snap ! 1) = 0x112000"
proof -
  let ?l = "\<lparr>pl_pe = app_pe, raw_bytes = app_bytes\<rparr>"
  have l: "unat (aligned_size ?l) = 0x2000" "aligned_size ?l \<noteq> 0" using app_size by (simp_all add: app_loader_def)
  then have a: "aligned_size ?l = 0x2000" by (simp add: word_unat_eq_iff)
  have g: "app_goblin app_bytes = Inr app_pe" by (simp add: app_goblin_def)
  have s: "\<forall>s \<in> set (pe_sections app_pe). section_ok (unat (aligned_size ?l)) (length app_bytes) s"
    using app_sections l(1) by simp
  have z: "unat (aligned_size ?l) \<le> 0xF0000" "2 * (unat (aligned_size ?l) + 0x14000) \<le> h_avail (w_heap app_world)"
    using l(1) app_world_ok(3) by simp_all
  have acc: "boot_accepted (\<lambda>_ _. None) ?l" by (simp add: boot_accepted_def)
  obtain vm gl snap v w' where p: "record_prepare app_platform app_goblin ''target_app.exe'' app_world = Some (Inr (vm, gl, snap, v), w')"
    and b: "boots_as reset_regs (guest_state0 (app_start True)) ?l (app.arch v w')"
    and r: "registers snap = map (a_regs (app.arch v w')) capture_names"
    using record_prepares_guest [where goblin = app_goblin, OF app.whp_boot_axioms app_world_ok(1,2,4) g refl l(2) z(1) s acc z(2)] by blast
  have e: "entry_point ?l = 0x1000" by (simp add: entry_point_def app_pe_def)
  have "Reg64 (a_regs (app.arch v w') Rip) = 0x101000" "Reg64 (a_regs (app.arch v w') Rsp) = 0x112000"
    using b by (simp_all add: boots_as_def boot_regs_def Reg64_upd_regs a e base_gpa_def stack_size_def)
  then show ?thesis
    using p r by (auto simp: capture_names_def)
qed

lemma map_guest_memory_layout:
  assumes "map_guest_memory P vm q sz w = Some (Inr gl, w')" and "unat sz mod 4096 = 0" and "unat sz \<le> 2 ^ 32"
  shows "gl_image_size gl = sz" and "gl_stack_base gl = base_gpa + sz" and "pt_size (gl_tables gl) = 12288"
proof -
  have up: "(sz + 0xFFF) AND NOT 0xFFF = sz"
  proof -
    have "unat (sz + 0xFFF) = unat sz + 4095" using assms(3) by (simp add: unat_word_ariths)
    moreover have "(unat sz + 4095) div 4096 * 4096 = unat sz"
      using assms(2) by (auto elim!: dvdE simp: dvd_eq_mod_eq_0 [symmetric])
    ultimately have "unat ((sz + 0xFFF) AND - 4096) = unat sz" by (simp add: and_not_4095)
    then show ?thesis by (simp add: word_unat_eq_iff)
  qed
  have "gl_image_size gl = sz \<and> gl_stack_base gl = base_gpa + ((sz + 0xFFF) AND NOT 0xFFF)
      \<and> (\<exists>u u'. create_identity_mapping P pt_gpa u = Some (Inr (gl_tables gl), u'))"
    using assms(1) unfolding map_guest_memory_def Let_def
    by (elim bindE_SomeD thenE_SomeD) (auto simp: add_u64_Inr ret_Inr)
  moreover have "pt_size t = 12288" if "create_identity_mapping P pt_gpa u = Some (Inr t, u')" for t u u'
    using that unfolding create_identity_mapping_def
    by (elim bindE_SomeD thenE_SomeD) (auto simp: ret_Inr)
  ultimately show "gl_image_size gl = sz" "gl_stack_base gl = base_gpa + sz" "pt_size (gl_tables gl) = 12288"
    unfolding up by blast+
qed

lemma host_buffer:
  fixes sz :: usize
  assumes "sz \<noteq> 0" and "unat sz \<le> 0x2000"
  shows "\<exists>hp q. heap_inv hp \<and> heap_content hp q = Some (replicate (unat sz) 0) \<and> 0x2A000 \<le> h_avail hp"
proof -
  obtain hp where "heap_inv hp" "h_avail hp = h_avail (w_heap app_world) - unat sz"
    "h_blocks hp = (h_blocks (w_heap app_world))(h_next (w_heap app_world) \<mapsto>
       \<lparr>b_layout = \<lparr>l_size = sz, l_align = 4096\<rparr>, b_bytes = replicate (unat sz) 0\<rparr>)"
    using AlignedMemory_new_ok [OF app_world_ok(2), of sz] assms app_world_ok(3) by auto
  then show ?thesis
    using assms(2) app_world_ok(3) by (intro exI [of _ hp] exI [of _ "h_next (w_heap app_world)"]) (simp add: heap_content_def)
qed

lemma idle_partition:
  "\<exists>(p :: VmPartition) (w :: guest_state ref_hv world). w_heap w = hp \<and> ref_idle (w_hv w) (vp_handle p) \<and> ref_gpas (w_hv w) (vp_handle p) = (\<lambda>_. None)"
  using app.partition_ready [of "app_world\<lparr>w_heap := hp\<rparr>"] app_world_ok(1) unfolding hv_only_iff by auto



text \<open>
  C11. The page tables of \<open>create_identity_mapping\<close> are right: a long-mode processor
  that walks them translates every address of the first gigabyte to itself and faults on every
  other address of the lower canonical half.
\<close>

theorem identity_mapping_translates:
  assumes inv: "heap_inv (w_heap w)" and av: "12288 \<le> h_avail (w_heap w)"
    and base: "unat base mod 4096 = 0" "unat base + 12288 < 2 ^ 52"
  shows "\<exists>t w' bs. create_identity_mapping P base w = Some (Inr t, w') \<and> pml4_gpa t = base \<and> pt_size t = 12288
    \<and> heap_content (w_heap w') (pt_host_ptr t) = Some bs
    \<and> (\<forall>va. unat va < 2 ^ 48 \<longrightarrow> page_walk (table_at base bs) base va = (if unat va < 2 ^ 30 then Some va else None))"
proof -
  have b: "unat base + 12288 < 2 ^ 64" "take_bit 12 base = 0"
    using base by (simp_all add: page_aligned_iff dvd_eq_mod_eq_0)
  obtain w' q bs where c: "create_identity_mapping P base w = Some (Inr \<lparr>pml4_gpa = base, pt_host_ptr = q, pt_size = 4096 * 3\<rparr>, w')"
    "heap_content (w_heap w') = (heap_content (w_heap w))(q \<mapsto> bs)"
    "length bs = 12288" "\<forall>k < 1536. entry bs k = identity_entry base k"
    using create_identity_mapping_ok [OF inv av b(1), of P] by blast
  have t: "identity_table base bs" using c(3,4) b(2) base(2) by (simp add: identity_table_def)
  have "page_walk (table_at base bs) base va = (if unat va < 2 ^ 30 then Some va else None)" if "unat va < 2 ^ 48" for va
    using identity_walk [OF t, of va] identity_walk_unmapped [OF t _ that] by simp
  then show ?thesis
    using c by (intro exI [of _ "\<lparr>pml4_gpa = base, pt_host_ptr = q, pt_size = 4096 * 3\<rparr>"] exI [of _ w'] exI [of _ bs]) simp
qed

theorem identity_mapping_translates_witness:
  "\<exists>t w' bs. create_identity_mapping app_platform pt_gpa app_world = Some (Inr t, w')
    \<and> heap_content (w_heap w') (pt_host_ptr t) = Some bs \<and> page_walk (table_at pt_gpa bs) pt_gpa 0x101234 = Some 0x101234"
proof -
  have "12288 \<le> h_avail (w_heap app_world)" "unat pt_gpa mod 4096 = 0" "unat pt_gpa + 12288 < 2 ^ 52"
    by (simp_all add: app_world_ok(3) pt_gpa_def)
  from identity_mapping_translates [OF app_world_ok(2) this, of app_platform]
  obtain t w' bs where t: "create_identity_mapping app_platform pt_gpa app_world = Some (Inr t, w')"
    "heap_content (w_heap w') (pt_host_ptr t) = Some bs"
    "\<forall>va. unat va < 2 ^ 48 \<longrightarrow> page_walk (table_at pt_gpa bs) pt_gpa va = (if unat va < 2 ^ 30 then Some va else None)"
    by blast
  have "page_walk (table_at pt_gpa bs) pt_gpa 0x101234 = Some 0x101234" using t(3) by simp
  then show ?thesis using t(1,2) by blast
qed

lemma page_tables_without_memory:
  assumes "h_avail (w_heap w) < 12288"
  shows "create_identity_mapping P base w = Some (Inl (Undefined NullPointer), w)"
  by (rule create_identity_mapping_oom [OF assms])



section \<open>Snapshots\<close>

lemma one_page_snapshot:
  "\<exists>hp s. heap_inv hp \<and> snap_inv hp s \<and> region_bytes hp s = [0x1000 \<mapsto> replicate 4096 0] \<and> registers s = [mk_Reg64 0x1000]"
proof -
  have n: "unat (4096 :: u64) = 4096" by simp
  obtain hp1 q where q: "heap_inv hp1" "heap_content hp1 q = Some (replicate 4096 0)" "0x2A000 \<le> h_avail hp1"
    using host_buffer [of 4096] by (auto simp: n)
  obtain hp s where s: "heap_inv hp" "snap_inv hp s" "region_bytes hp s = [0x1000 \<mapsto> take (unat (4096 :: u64)) (replicate 4096 0)]"
    using capture_region_ok [OF q(1) snap_inv_new(1) _ q(2), of "0x1000" 4096] q(3) by (auto simp: hm.get_empty)
  show ?thesis
    by (intro exI [of _ hp] exI [of _ "s\<lparr>registers := [mk_Reg64 0x1000]\<rparr>"]) (use s in simp)
qed

text \<open>
  C27. Every snapshot the record command captures is well formed, however the guest has changed its
  memory: it has the four regions of the layout, each in a buffer of its own outside the guest's
  memory, with exactly the bytes the guest has there; no allocation that existed changes.
\<close>

theorem captured_layout_well_formed:
  assumes "heap_inv hp" and "regions_in hp (layout_regions gl)" and "distinct [base_gpa, gl_stack_base gl, 0, pt_gpa]"
    and "gl_image_size gl \<noteq> 0" and "unat (gl_image_size gl) \<le> 0xF0000" and "pt_size (gl_tables gl) = 12288"
    and "unat (gl_image_size gl) + 0x14000 \<le> h_avail hp"
  shows "\<exists>snap hp'. capture_memory_layout gl hp = Some (Inr snap, hp') \<and> heap_inv hp' \<and> snap_inv hp' snap
    \<and> length (memory_regions snap) = 4 \<and> region_bytes hp' snap = content_of hp (layout_regions gl)
    \<and> snap_ptrs snap \<inter> region_ptrs (layout_regions gl) = {}
    \<and> (\<forall>q. heap_content hp q = None \<or> heap_content hp' q = heap_content hp q)"
proof -
  obtain snap hp' where c: "capture_memory_layout gl hp = Some (Inr snap, hp')"
    using capture_memory_layout_returns [OF assms] by blast
  have s: "heap_inv hp'" "snap_inv hp' snap" "length (memory_regions snap) = 4"
    "region_bytes hp' snap = content_of hp (layout_regions gl)" "snap_ptrs snap \<subseteq> {q. heap_content hp q = None}"
    "\<forall>q. heap_content hp q \<noteq> None \<longrightarrow> h_blocks hp' q = h_blocks hp q"
    using capture_memory_layout_sound [OF assms(1-3) c] by blast+
  have "snap_ptrs snap \<inter> region_ptrs (layout_regions gl) = {}"
    using s(5) fresh_not_region [OF assms(2)] by blast
  moreover have "heap_content hp q = None \<or> heap_content hp' q = heap_content hp q" for q
    using s(6) by (auto simp: heap_content_def)
  ultimately show ?thesis using c s(1-4) by blast
qed

theorem captured_layout_well_formed_witness:
  "\<exists>gl hp snap hp'. capture_memory_layout gl hp = Some (Inr snap, hp') \<and> snap_inv hp' snap
    \<and> region_bytes hp' snap 0 = Some (replicate 4096 0)"
proof -
  have n: "unat (0x2000 :: u64) = 0x2000" by simp
  obtain hp q where q: "heap_inv hp" "heap_content hp q = Some (replicate 0x2000 0)" "0x2A000 \<le> h_avail hp"
    using host_buffer [of "0x2000"] by (auto simp: n)
  obtain p :: VmPartition and w :: "guest_state ref_hv world" where p: "w_heap w = hp" "ref_idle (w_hv w) (vp_handle p)"
      "ref_gpas (w_hv w) (vp_handle p) = (\<lambda>_. None)"
    using idle_partition by blast
  obtain gl :: guest_layout and w' :: "guest_state ref_hv world" where g: "gl_stack_base gl = base_gpa + 0x2000" "gl_image_size gl = 0x2000" "pt_size (gl_tables gl) = 12288"
    "regions_in (w_heap w') (layout_regions gl)" "heap_inv (w_heap w')" "h_avail (w_heap w') + 0x14000 = h_avail hp"
    "content_of (w_heap w') (layout_regions gl) = [base_gpa \<mapsto> replicate 0x2000 0, base_gpa + 0x2000 \<mapsto> replicate 0x10000 0,
       0 \<mapsto> replicate 4096 0, pt_gpa \<mapsto> table_bytes pt_gpa]"
    using app.map_guest_memory_ok [OF p(2,3), of q "replicate 0x2000 0" "0x2000"] q p(1) by auto
  have d: "distinct [base_gpa, gl_stack_base gl, 0, pt_gpa]" "content_of (w_heap w') (layout_regions gl) 0 = Some (replicate 4096 0)"
    unfolding g(7) by (simp_all add: g(1) base_gpa_def pt_gpa_def)
  obtain snap hp' where "capture_memory_layout gl (w_heap w') = Some (Inr snap, hp')" "snap_inv hp' snap"
    "region_bytes hp' snap 0 = Some (replicate 4096 0)"
    using captured_layout_well_formed [OF g(5,4) d(1)] g(2,3,6) q(3) d(2) by auto
  then show ?thesis by blast
qed

text \<open>
  C16. \<open>restore_snapshot\<close> on a fresh partition rebuilds the captured machine: guest
  memory is exactly the bytes of the snapshot's regions at their addresses, the named registers
  have the captured values, the rest of the processor is unchanged, and no host memory is written.
\<close>

theorem restore_rebuilds_snapshot:
  assumes whp: "whp_boot P live regs gpas exits rest reject guest room created idle regs0 rest0"
    and ord: "iterates_all P" and r: "replays_on p v r"
    and rd: "live (w_hv w) (vc_partition v) (vc_index v)" "heap_inv (w_heap w)"
    and s: "snap_inv (w_heap w) s" "layout_ok (map_option length \<circ> region_bytes (w_heap w) s)"
    and new: "gpas (w_hv w) (vc_partition v) = (\<lambda>_. None)"
    and rg: "length names = length (registers s)" "registers s \<noteq> []" "reject names (registers s) = None"
    and a: "a = arch_of regs gpas exits rest v (w_heap w) (w_hv w)"
  shows "\<exists>w' a'. restore_snapshot P r s names w = Some (Inr (), w') \<and> w_heap w' = w_heap w
    \<and> arch_of regs gpas exits rest v (w_heap w') (w_hv w') = a'
    \<and> mem_matches (a_mem a') (region_bytes (w_heap w) s)
    \<and> a_regs a' = upd_regs (a_regs a) (zip names (registers s)) \<and> a_exits a' = a_exits a \<and> a_rest a' = a_rest a"
proof -
  have v: "replays_on p \<lparr>vc_partition = vc_partition v, vc_index = vc_index v\<rparr> r"
    using r by (cases v) simp
  have R: "regions_in (w_heap w) (snap_regions s)" "content_of (w_heap w) (snap_regions s) = region_bytes (w_heap w) s"
    using snap_regions_in [OF rd(2) s(1)] by blast+
  have "sizes (snap_regions s) = map_option length \<circ> region_bytes (w_heap w) s"
    using regions_in_content [OF R(1)] unfolding R(2) by (simp add: fun_eq_iff)
  then have lo: "layout_ok (sizes (snap_regions s))" using s(2) by simp
  obtain w' where w': "restore_snapshot P r s names w = Some (Inr (), w')" "w' = w\<lparr>w_hv := w_hv w'\<rparr>"
    "maps_regions (gpas (w_hv w') (vc_partition v)) (snap_regions s)"
    "exits (w_hv w') (vc_partition v) = exits (w_hv w) (vc_partition v)"
    "regs (w_hv w') (vc_partition v) (vc_index v) = upd_regs (regs (w_hv w) (vc_partition v) (vc_index v)) (zip names (registers s))"
    "rest (w_hv w') (vc_partition v) (vc_index v) = rest (w_hv w) (vc_partition v) (vc_index v)"
    using whp_boot.restore_snapshot_ok [OF whp ord s(1) rd(2) lo rd(1) new rg v] by blast
  have hp: "w_heap w' = w_heap w" by (subst w'(2)) simp
  have "mem_matches (guest_mem (w_heap w') (gpas (w_hv w') (vc_partition v))) (region_bytes (w_heap w) s)"
    using regions_in_mem [OF w'(3) R(1)] R(2) hp by simp
  then show ?thesis
    using w' hp a by (intro exI [of _ w'] exI [of _ "arch_of regs gpas exits rest v (w_heap w') (w_hv w')"]) (simp add: arch_of_def)
qed

theorem restore_rebuilds_snapshot_witness:
  "\<exists>(v :: Vcpu) r s w w'. restore_snapshot app_platform r s [Rip] w = Some (Inr (), w')
    \<and> Reg64 (ref_regs (w_hv w') (vc_partition v) (vc_index v) Rip) = 0x1000
    \<and> guest_mem (w_heap w') (ref_gpas (w_hv w') (vc_partition v)) 0x1004 = Some (0, 7)"
proof -
  obtain hp s where s: "heap_inv hp" "snap_inv hp s" "region_bytes hp s = [0x1000 \<mapsto> replicate 4096 0]"
      "registers s = [mk_Reg64 0x1000]"
    using one_page_snapshot by blast
  obtain p :: VmPartition and w1 :: "guest_state ref_hv world" where p: "w_heap w1 = hp" "ref_idle (w_hv w1) (vp_handle p)" "ref_gpas (w_hv w1) (vp_handle p) = (\<lambda>_. None)"
    using idle_partition by blast
  let ?v = "\<lparr>vc_partition = vp_handle p, vc_index = 0\<rparr>"
  obtain w :: "guest_state ref_hv world" where w: "w_heap w = w_heap w1" "ref_live (w_hv w) (vp_handle p) 0" "ref_gpas (w_hv w) (vp_handle p) = (\<lambda>_. None)"
    using app.Vcpu_new_idle [OF p(2), of 0] p(3) unfolding hv_only_iff by auto
  have hp: "w_heap w = hp" using w(1) p(1) by simp
  let ?r = "register_vcpu 0 ?v (ReplayEngine_new p 0)"
  have r: "replays_on p ?v ?r" by simp
  have lo: "layout_ok (map_option length \<circ> region_bytes (w_heap w) s)"
    unfolding hp s(3) layout_ok_def by (auto split: if_splits)
  obtain w' a' where w': "restore_snapshot app_platform ?r s [Rip] w = Some (Inr (), w')"
    "app.arch ?v w' = a'" "mem_matches (a_mem a') (region_bytes (w_heap w) s)"
    "a_regs a' = upd_regs (a_regs (app.arch ?v w)) (zip [Rip] (registers s))"
    using restore_rebuilds_snapshot [OF app.whp_boot_axioms app_world_ok(5) r _ _ _ lo, of "[Rip]"] w(2,3) s hp by auto
  have "a_mem a' (0x1000 + of_nat 4) = Some (replicate 4096 0 ! 4, 7)"
    using mem_matchesD [OF w'(3), of "0x1000" "replicate 4096 0" 4] hp s(3) by simp
  moreover have "Reg64 (a_regs a' Rip) = 0x1000"
    using w'(4) s(4) by (simp add: Reg64_upd_regs)
  ultimately show ?thesis
    using w'(1) w'(2) [symmetric]
    by (intro exI [of _ ?v] exI [of _ ?r] exI [of _ s] exI [of _ w] exI [of _ w']) (simp add: arch_of_def)
qed

text \<open>
  C17. The archive round trip: serialising a snapshot, a trace and a hash always succeeds, and
  deserialising the bytes on any host with enough memory gives the same trace, the same hash and a
  well-formed snapshot with the same registers and the same bytes at the same addresses.
\<close>

theorem archive_round_trip:
  assumes F: "binary_format F" and ord: "iterates_all P"
    and s: "heap_inv hp" "snap_inv hp s" "archive_fits hp s es"
    and hp2: "heap_inv hp2" "snap_total hp s \<le> h_avail hp2"
  shows "\<exists>bytes s2 hp3. ser_archive P F s es h hp = Some (Inr bytes, hp)
    \<and> de_archive F bytes hp2 = Some (Inr (s2, es, h), hp3)
    \<and> heap_inv hp3 \<and> snap_inv hp3 s2 \<and> registers s2 = registers s \<and> region_bytes hp3 s2 = region_bytes hp s"
proof -
  obtain bytes where b: "ser_archive P F s es h hp = Some (Inr bytes, hp)"
    using ser_archive_ok [OF s(1,2) ord] by blast
  show ?thesis
    using binary_format.de_archive_ser [OF F s(1,2) ord s(3) b hp2, of "[]"] b by auto
qed

theorem archive_round_trip_witness:
  "\<exists>bytes s2 hp3. ser_archive app_platform bincode_ref (pair_snap 1 2 False) [sample_event] 5 (pair_heap 1 2) = Some (Inr bytes, pair_heap 1 2)
    \<and> de_archive bincode_ref bytes tiny_heap = Some (Inr (s2, [sample_event], 5), hp3)
    \<and> region_bytes hp3 s2 = [1 \<mapsto> [7], 2 \<mapsto> [9]]"
proof -
  have p: "heap_inv (pair_heap 1 2)" "snap_inv (pair_heap 1 2) (pair_snap 1 2 False)"
    "region_bytes (pair_heap 1 2) (pair_snap 1 2 False) = [1 \<mapsto> [7], 2 \<mapsto> [9]]"
    by (simp_all add: pair_snap_inv)
  have "archive_fits (pair_heap 1 2) (pair_snap 1 2 False) [sample_event]"
    unfolding archive_fits_def p(3)
    by (auto simp: sample_event_def event_fits_def pair_snap_def Let_def split: if_splits)
  moreover have "snap_total (pair_heap 1 2) (pair_snap 1 2 False) \<le> h_avail tiny_heap"
    unfolding snap_total_def p(3) by (simp add: pair_snap_def Let_def hm_keys_def tiny_heap_def)
  ultimately show ?thesis
    using archive_round_trip [OF bincode_ref.binary_format_axioms app_world_ok(5) p(1,2) _ tiny_heap_inv, of "[sample_event]" 5] p(3)
    by auto
qed

section \<open>Partitions\<close>

text \<open>
  C38. When setting the processor count or setting up a new partition fails,
  \<open>VmPartition::new\<close> returns the error in the hypervisor state the failed call left:
  the partition it created is not deleted.
\<close>

theorem failed_partition_not_deleted:
  assumes "WHvCreatePartition P (w_hv w) = (Inr p, h1)"
    and "WHvSetPartitionProperty P p (ProcessorCount 4) h1 = (Inl e, h2)
      \<or> WHvSetPartitionProperty P p (ProcessorCount 4) h1 = (Inr (), h3) \<and> WHvSetupPartition P p h3 = (Inl e, h2)"
  shows "VmPartition_new P w = Some (Inl (WinErr e), w\<lparr>w_hv := h2\<rparr>)"
  using assms by (auto simp: VmPartition_new_def cmd_simps)

theorem failed_partition_not_deleted_witness:
  "\<exists>w'. VmPartition_new (app_platform\<lparr>WHvSetupPartition := (\<lambda>p h. (Inl 5, h))\<rparr>) app_world = Some (Inl (WinErr 5), w')
    \<and> hv_parts (w_hv w') 1 \<noteq> None"
proof -
  let ?P = "app_platform\<lparr>WHvSetupPartition := (\<lambda>p h. (Inl 5, h))\<rparr>"
  let ?h1 = "snd (WHvCreatePartition ?P (w_hv app_world))"
  have 1: "WHvCreatePartition ?P (w_hv app_world) = (Inr 1, ?h1)"
    by (simp add: app_platform_def ref_platform_def ref_create_def ref_handle_def app_world_def)
  have 2: "WHvSetPartitionProperty ?P 1 (ProcessorCount 4) ?h1 = (Inr (), ?h1)" "hv_parts ?h1 1 \<noteq> None"
    by (auto simp: app_platform_def ref_platform_def ref_create_def ref_handle_def app_world_def ref_set_property_def ref_update_def)
  have 3: "WHvSetPartitionProperty ?P 1 (ProcessorCount 4) ?h1 = (Inl 5, ?h1)
      \<or> WHvSetPartitionProperty ?P 1 (ProcessorCount 4) ?h1 = (Inr (), ?h1) \<and> WHvSetupPartition ?P 1 ?h1 = (Inl 5, ?h1)"
    using 2(1) by simp
  show ?thesis
    using failed_partition_not_deleted [OF 1 3] 2(2) by simp
qed

end
