(* ===== verification/Cli_Output.thy ===== *)
theory Cli_Output
  imports Cli_Determinism
begin

text \<open>
  What \<open>replay\<close> does to files and to the console, whatever the archive says and however the
  hypervisor behaves: it writes no file, it only adds lines, and it returns only after the recorded
  hash and the hash of the replayed state have been found equal.
\<close>

definition reports :: "('h world, 'a) cmd \<Rightarrow> bool" where
  "reports m \<longleftrightarrow> (\<forall>w r w'. m w = Some (r, w') \<longrightarrow> w_files w' = w_files w \<and> (\<exists>out. w_out w' = w_out w @ out))"

lemma reportsI:
  "(\<And>w r w'. m w = Some (r, w') \<Longrightarrow> w_files w' = w_files w \<and> (\<exists>out. w_out w' = w_out w @ out)) \<Longrightarrow> reports m"
  unfolding reports_def by blast

lemma reportsD:
  assumes "reports m" and "m w = Some (r, w')"
  obtains out where "w_files w' = w_files w" and "w_out w' = w_out w @ out"
  using assms unfolding reports_def by blast

lemma quiet_reports: "quiet m \<Longrightarrow> reports m"
  by (auto simp: quiet_def reports_def)

lemma reports_basic: "reports (ret x)" "reports (raise e)" "reports (println msg)" "reports (add_u64 c a b)"
  "reports (call_hv f)" "reports (call_run g)" "reports (assert_that cond)" "reports (expect_some s opt)" "reports (on_heap m)"
  by (auto simp: reports_def ret_def raise_def println_def add_u64_def call_hv_def call_run_def assert_that_def
      expect_some_def on_heap_def split: prod.splits sum.splits option.splits if_splits)

lemma reports_bindE: "reports m \<Longrightarrow> (\<And>x. reports (f x)) \<Longrightarrow> reports (bindE m f)"
  by (fastforce simp: reports_def bindE_def split: option.splits sum.splits)

lemma reports_thenE: "reports m \<Longrightarrow> reports n \<Longrightarrow> reports (thenE m n)"
  unfolding thenE_def by (rule reports_bindE)

lemma reports_expect_ok: "reports m \<Longrightarrow> reports (expect_ok msg m)"
  by (auto simp: reports_def expect_ok_def split: option.splits sum.splits failure.splits)

lemma reports_attempt: "reports m \<Longrightarrow> reports (attempt m)"
  by (auto simp: reports_def attempt_def split: option.splits sum.splits failure.splits)

lemma reports_for_each: "(\<And>x. reports (f x)) \<Longrightarrow> reports (for_each xs f)"
  by (induction xs) (simp_all add: reports_basic reports_thenE)

lemmas reports_intros = reports_bindE reports_thenE reports_expect_ok reports_attempt reports_for_each reports_basic

lemma reports_registers: "reports (get_registers P v ns vs)" "reports (set_registers P v ns vs)"
  "reports (capture_registers P v ns s)"
  unfolding get_registers_def set_registers_def capture_registers_def by (auto intro!: reports_intros)

lemma reports_active: "reports (active_vcpu r)"
  unfolding active_vcpu_def by (rule reports_basic)

lemma reports_run: "reports (VmRunner_run P x)"
  unfolding VmRunner_run_def by (auto intro!: reports_intros)

lemma reports_inject: "reports (inject_event P r ev)"
  unfolding inject_event_def write_guest_memory_def
  by (auto intro!: reports_intros reports_registers reports_active split: EventType.splits)

lemma reports_advance: "reports (replay_advance_rip P r len)"
  unfolding replay_advance_rip_def by (intro reports_intros reports_registers reports_active)

lemma reports_replay_step: "reports (replay_step P r ev)"
  unfolding replay_step_def Let_def
  by (auto intro!: reports_intros reports_registers reports_active reports_run reports_inject reports_advance split: EventType.splits)

lemma reports_replay_event: "reports (replay_event P r ev)"
proof (rule reportsI)
  fix w res w'
  assume "replay_event P r ev w = Some (res, w')"
  then have "replay_runs P r ev w (res, w')" by (simp add: replay_event_iff)
  then show "w_files w' = w_files w \<and> (\<exists>out. w_out w' = w_out w @ out)"
  proof (induction w "(res, w')" rule: replay_runs.induct)
    case (again w w1)
    show ?case
      by (rule reportsD [OF reports_replay_step again.hyps(1)]) (use again.hyps(3) in auto)
  qed (metis reportsD [OF reports_replay_step])+
qed

lemma reports_restore: "reports (restore_snapshot P r s ns)"
  unfolding restore_snapshot_def Let_def map_gpa_range_def
  by (auto intro!: reports_intros reports_registers reports_active split: option.splits)

lemma reports_exit: "reports (handle_vm_exit P v res)"
  unfolding handle_vm_exit_def by (auto intro!: reports_intros reports_registers split: sum.splits)

lemma reports_replay_prepare: "reports (replay_prepare P F trace)"
proof -
  have "reports (fs_read msg path)" for msg path
    by (rule reportsI) (auto simp: fs_read_def expect_some_def ret_def raise_def split: option.splits)
  moreover have "reports (VmPartition_new P)" "reports (configure_interceptions P vm)" "reports (Vcpu_new P h i)"
    "reports (setup_long_mode P v g)" for vm h i v g
    unfolding VmPartition_new_def configure_interceptions_def Vcpu_new_def setup_long_mode_def
    by (auto intro!: reports_intros reports_registers)
  ultimately show ?thesis
    unfolding replay_prepare_def Let_def by (auto intro!: reports_intros reports_restore)
qed

lemma reports_verify: "reports (replay_verify P s h v)"
  unfolding replay_verify_def by (auto intro!: reports_intros reports_registers)

lemma reports_cli_replay: "reports (cli_replay P F trace)"
  unfolding cli_replay_def
  by (auto intro!: reports_intros reports_replay_prepare reports_replay_event reports_run reports_exit reports_verify
      quiet_drops [THEN quiet_reports] quiet_Snapshot_drop [THEN quiet_reports])

text \<open>The last lines of a replay that returns.\<close>

lemma replay_verify_output:
  "replay_verify P s h v w = Some (Inr s', w') \<Longrightarrow> \<exists>out. w_out w' = w_out w @ out @ [ExpectedHash h, ReplayHash h, VerificationSuccess]"
  unfolding replay_verify_def
  by (elim bindE_SomeD thenE_SomeD)
    (auto simp: println_def assert_that_def ret_def raise_def on_heap_def elim!: bindE_SomeD thenE_SomeD
      reportsD [OF reports_registers(3)] split: if_splits option.splits)

lemma replay_prepare_archive:
  "replay_prepare P F trace u = Some (Inr (s, es, h, vm, v, r), w) \<Longrightarrow>
     \<exists>data hp. hm_get (w_files u) trace = Some data \<and> de_archive F data (w_heap u) = Some (Inr (s, es, h), hp)"
  unfolding replay_prepare_def Let_def
  by (elim bindE_SomeD thenE_SomeD)
    (auto simp: println_def fs_read_def expect_some_def raise_def ret_Inr split: option.splits prod.splits elim!: bindE_SomeD thenE_SomeD)

text \<open>The stages of a replay that returns.\<close>

lemma cli_replay_stages:
  assumes run: "cli_replay P F trace u = Some (Inr (), u')"
  obtains s es h vm v r w1 w2 res w3 w4 s' w5 w6 w7 where
    "replay_prepare P F trace u = Some (Inr (s, es, h, vm, v, r), w1)"
    "for_each es (\<lambda>event. expect_ok ''Failed to replay event'' (replay_event P r event))
       (w1\<lparr>w_out := w_out w1 @ [ReplayingEvents (length es)]\<rparr>) = Some (Inr (), w2)"
    "attempt (VmRunner_run P (VmRunner_new vm v)) (w2\<lparr>w_out := w_out w2 @ [TraceReplayFinished]\<rparr>) = Some (Inr res, w3)"
    "handle_vm_exit P v res w3 = Some (Inr (), w4)" "replay_verify P s h v w4 = Some (Inr s', w5)"
    "Vcpu_drop P v w5 = Some (Inr (), w6)" "VmPartition_drop P vm w6 = Some (Inr (), w7)" "Snapshot_drop P s' w7 = Some (Inr (), u')"
  using run unfolding cli_replay_def by (auto simp: println_def elim!: bindE_SomeD thenE_SomeD)

lemma cli_replay_output:
  assumes run: "cli_replay P F trace u = Some (Inr (), u')"
  shows "\<exists>data s es h hp out. hm_get (w_files u) trace = Some data \<and> de_archive F data (w_heap u) = Some (Inr (s, es, h), hp)
    \<and> w_out u' = w_out u @ out @ [ExpectedHash h, ReplayHash h, VerificationSuccess]"
proof -
  obtain s es h vm v r w1 w2 res w3 w4 s' w5 w6 w7 where
    c: "replay_prepare P F trace u = Some (Inr (s, es, h, vm, v, r), w1)"
      "for_each es (\<lambda>event. expect_ok ''Failed to replay event'' (replay_event P r event))
         (w1\<lparr>w_out := w_out w1 @ [ReplayingEvents (length es)]\<rparr>) = Some (Inr (), w2)"
      "attempt (VmRunner_run P (VmRunner_new vm v)) (w2\<lparr>w_out := w_out w2 @ [TraceReplayFinished]\<rparr>) = Some (Inr res, w3)"
      "handle_vm_exit P v res w3 = Some (Inr (), w4)" "replay_verify P s h v w4 = Some (Inr s', w5)"
      "Vcpu_drop P v w5 = Some (Inr (), w6)" "VmPartition_drop P vm w6 = Some (Inr (), w7)" "Snapshot_drop P s' w7 = Some (Inr (), u')"
    by (rule cli_replay_stages [OF run])
  have "\<exists>out. w_out w4 = w_out u @ out"
    using c(1-4)
    by (elim reportsD [OF reports_replay_prepare] reportsD [OF reports_exit] reportsD [OF reports_attempt [OF reports_run]]
        reportsD [OF reports_for_each [OF reports_expect_ok [OF reports_replay_event]]]) simp
  then obtain out where "w_out w4 = w_out u @ out" by blast
  moreover obtain out' where "w_out w5 = w_out w4 @ out' @ [ExpectedHash h, ReplayHash h, VerificationSuccess]"
    using replay_verify_output [OF c(5)] by blast
  moreover have "w_out u' = w_out w5"
    using c(6-8) quiet_drops(2,3) quiet_Snapshot_drop unfolding quiet_def by metis
  ultimately have "w_out u' = w_out u @ (out @ out') @ [ExpectedHash h, ReplayHash h, VerificationSuccess]" by simp
  then show ?thesis using replay_prepare_archive [OF c(1)] by blast
qed

end
