(* ===== verification/Heap_Ownership.thy ===== *)
theory Heap_Ownership
  imports Cli_Layout
begin

text \<open>
  Who owns which host memory. \<open>grown hp N hp'\<close> says that \<open>hp'\<close> is \<open>hp\<close> and the allocations \<open>N\<close>:
  every other allocation is untouched, byte for byte, and the allocator has handed out exactly the
  bytes of \<open>N\<close>. Each operation that allocates, stores or releases moves along this relation; it is
  the accounting with which the commands are shown to release what they took.
\<close>

section \<open>Growing\<close>

definition block_size :: "heap \<Rightarrow> ptr \<Rightarrow> nat" where
  "block_size hp p = (case h_blocks hp p of None \<Rightarrow> 0 | Some b \<Rightarrow> unat (l_size (b_layout b)))"

definition grown :: "heap \<Rightarrow> ptr set \<Rightarrow> heap \<Rightarrow> bool" where
  "grown hp N hp' \<longleftrightarrow> heap_inv hp' \<and> finite N \<and> N \<subseteq> dom (h_blocks hp')
     \<and> h_blocks hp' |` (- N) = h_blocks hp \<and> h_avail hp' + sum (block_size hp') N = h_avail hp"

lemma grown_inv: "grown hp N hp' \<Longrightarrow> heap_inv hp'"
  by (simp add: grown_def)

lemma grown_avail: "grown hp N hp' \<Longrightarrow> h_avail hp' + sum (block_size hp') N = h_avail hp"
  by (simp add: grown_def)

lemma grown_blocks: "grown hp N hp' \<Longrightarrow> h_blocks hp = h_blocks hp' |` (- N)"
  by (simp add: grown_def)

lemma grown_new: "grown hp N hp' \<Longrightarrow> q \<in> N \<Longrightarrow> heap_content hp q = None"
  using restrict_out [of q "- N" "h_blocks hp'"] by (simp add: grown_def heap_content_def)

lemma grown_old:
  assumes "grown hp N hp'" and "heap_content hp q \<noteq> None"
  shows "h_blocks hp' q = h_blocks hp q"
proof -
  have "q \<notin> N" using grown_new [OF assms(1)] assms(2) by metis
  then have "(h_blocks hp' |` (- N)) q = h_blocks hp' q" by simp
  then show ?thesis using assms(1) by (simp add: grown_def)
qed

lemma grown_released:
  assumes "grown hp N hp'" and "heap_content hp q = None" and "q \<notin> N"
  shows "h_blocks hp' q = None"
proof -
  have "(h_blocks hp' |` (- N)) q = None" using assms(1,2) by (simp add: grown_def heap_content_def)
  then show ?thesis using assms(3) by simp
qed

lemma grown_refl [intro]: "heap_inv hp \<Longrightarrow> grown hp {} hp"
  by (simp add: grown_def restrict_map_def)

lemma grown_nothing: "grown hp {} hp' \<Longrightarrow> h_blocks hp' = h_blocks hp \<and> h_avail hp' = h_avail hp"
  by (simp add: grown_def restrict_map_def)

lemma grown_trans:
  assumes g: "grown hp N hp1" and g1: "grown hp1 M hp2"
  shows "grown hp (N \<union> M) hp2 \<and> N \<inter> M = {}"
proof -
  have r: "h_blocks hp2 |` (- M) = h_blocks hp1" using g1 by (simp add: grown_def)
  have old: "q \<notin> M \<and> h_blocks hp2 q = h_blocks hp1 q" if "q \<in> N" for q
  proof -
    have "h_blocks hp1 q \<noteq> None" using g that by (auto simp: grown_def)
    then show ?thesis using grown_new [OF g1, of q] grown_old [OF g1, of q] by (auto simp: heap_content_def)
  qed
  have "h_blocks hp2 |` (- (N \<union> M)) = h_blocks hp"
    using g unfolding grown_def r [symmetric] by (auto simp: restrict_restrict Int_commute)
  moreover have d: "N \<inter> M = {}" using old by blast
  moreover have "N \<union> M \<subseteq> dom (h_blocks hp2)"
    using g g1 old by (auto simp: grown_def)
  moreover have "sum (block_size hp2) N = sum (block_size hp1) N"
    using old by (intro sum.cong) (auto simp: block_size_def)
  ultimately show ?thesis
    using g g1 by (simp add: grown_def sum.union_disjoint)
qed

lemma grown_size: "grown hp N hp' \<Longrightarrow> heap_content hp q \<noteq> None \<Longrightarrow> block_size hp' q = block_size hp q"
  using grown_old [of hp N hp' q] by (simp add: block_size_def)

lemma grown_alloc:
  assumes g: "grown hp N hp1" and run: "alloc_zeroed l hp1 = Some (Inr p, hp2)" and "p \<noteq> 0"
  shows "grown hp (insert p N) hp2 \<and> p \<notin> N \<and> block_size hp2 p = unat (l_size l)"
proof -
  have inv: "heap_inv hp1" using g by (rule grown_inv)
  have hp2: "p = h_next hp1" "unat (l_size l) \<le> h_avail hp1" "h_avail hp2 = h_avail hp1 - unat (l_size l)"
    "h_next hp2 = Suc (h_next hp1)"
    "h_blocks hp2 = (h_blocks hp1)(h_next hp1 \<mapsto> \<lparr>b_layout = l, b_bytes = replicate (unat (l_size l)) 0\<rparr>)"
    using run assms(3) by (auto simp: alloc_zeroed_def split: if_splits)
  have fresh: "h_blocks hp1 p = None"
    using heap_content_fresh [OF inv] hp2(1) by (simp add: heap_content_def)
  then have pN: "p \<notin> N" using g by (auto simp: grown_def)
  then have "sum (block_size hp2) N = sum (block_size hp1) N"
    using hp2(1,5) by (intro sum.cong) (auto simp: block_size_def)
  moreover have "block_size hp2 p = unat (l_size l)"
    using hp2(1,5) by (simp add: block_size_def)
  moreover have "h_blocks hp2 |` (- insert p N) = h_blocks hp1 |` (- N)"
    using hp2(1,5) fresh by (auto simp: restrict_map_def fun_eq_iff)
  moreover have "heap_inv hp2"
    using inv hp2(4,5) by (auto simp: heap_inv_def less_Suc_eq)
  ultimately show ?thesis
    using g hp2 pN by (auto simp: grown_def)
qed

lemma grown_free:
  assumes g: "grown hp N hp1" and run: "dealloc p l hp1 = Some (Inr (), hp2)" and p: "p \<in> N"
  shows "grown hp (N - {p}) hp2"
proof -
  have hp2: "block_size hp1 p = unat (l_size l)" "h_blocks hp2 = (h_blocks hp1)(p := None)"
    "h_avail hp2 = h_avail hp1 + unat (l_size l)" "h_next hp2 = h_next hp1"
    using run by (auto simp: dealloc_def block_size_def split: option.splits if_splits)
  have "sum (block_size hp2) (N - {p}) = sum (block_size hp1) (N - {p})"
    using hp2(2) by (intro sum.cong) (auto simp: block_size_def)
  moreover have "sum (block_size hp1) N = block_size hp1 p + sum (block_size hp1) (N - {p})"
    using g p by (simp add: grown_def sum.remove)
  moreover have "h_blocks hp2 |` (- (N - {p})) = h_blocks hp1 |` (- N)"
    using hp2(2) p by (auto simp: restrict_map_def fun_eq_iff)
  moreover have "heap_inv hp2"
    using grown_inv [OF g] hp2(2,4) by (auto simp: heap_inv_def)
  moreover have "N - {p} \<subseteq> dom (h_blocks hp2)" using g hp2(2) by (auto simp: grown_def)
  ultimately show ?thesis
    using g hp2(1,3) unfolding grown_def by simp
qed

lemma block_layout_shape:
  "same_shape hp hp' \<Longrightarrow> map_option b_layout (h_blocks hp' p) = map_option b_layout (h_blocks hp p)"
proof -
  assume "same_shape hp hp'"
  then have "map_option fst (map_option (\<lambda>b. (b_layout b, length (b_bytes b))) (h_blocks hp' p)) =
      map_option fst (map_option (\<lambda>b. (b_layout b, length (b_bytes b))) (h_blocks hp p))"
    by (simp add: same_shape_def)
  then show ?thesis by (simp add: option.map_comp comp_def)
qed

lemma block_size_shape: "same_shape hp hp' \<Longrightarrow> block_size hp' p = block_size hp p"
  using block_layout_shape [of hp hp' p]
  by (cases "h_blocks hp p"; cases "h_blocks hp' p") (auto simp: block_size_def)

lemma same_shape_dom: "same_shape hp hp' \<Longrightarrow> dom (h_blocks hp') = dom (h_blocks hp)"
  unfolding same_shape_def dom_def by (metis (no_types, lifting) map_option_is_None)

text \<open>Stores into owned memory: by the host, or by a guest whose memory is owned.\<close>

lemma grown_store:
  assumes g: "grown hp N hp1" and sh: "same_shape hp1 hp2" and "\<And>q. q \<notin> N \<Longrightarrow> h_blocks hp2 q = h_blocks hp1 q"
  shows "grown hp N hp2"
proof -
  have "h_blocks hp2 |` (- N) = h_blocks hp1 |` (- N)"
    using assms(3) by (auto simp: restrict_map_def fun_eq_iff)
  moreover have "h_avail hp2 = h_avail hp1" using sh by (simp add: same_shape_def)
  ultimately show ?thesis
    using g same_shape_inv [OF sh] block_size_shape [OF sh] same_shape_dom [OF sh] by (simp add: grown_def)
qed

section \<open>Buffers\<close>

lemma grown_AlignedMemory_new:
  assumes g: "grown hp N hp1" and run: "AlignedMemory_new sz hp1 = Some (Inr m, hp2)"
  shows "grown hp (insert (am_ptr m) N) hp2 \<and> am_ptr m \<notin> N \<and> block_size hp2 (am_ptr m) = unat sz
    \<and> am_inv hp2 m \<and> am_size m = sz"
proof -
  obtain p where a: "alloc_zeroed \<lparr>l_size = sz, l_align = 4096\<rparr> hp1 = Some (Inr p, hp2)" "p \<noteq> 0"
    and m: "m = \<lparr>am_ptr = p, am_size = sz, am_layout = \<lparr>l_size = sz, l_align = 4096\<rparr>\<rparr>"
    using run AlignedMemory_new_inv [OF run] Layout_4096 [of sz] unfolding AlignedMemory_new_def
    by (auto elim!: bindE_SomeD thenE_SomeD simp: expect_some_def ret_Inr assert_that_def raise_def split: if_splits)
  have "am_inv hp2 m"
    using a by (auto simp: am_inv_def m alloc_zeroed_def split: if_splits)
  then show ?thesis using grown_alloc [OF g a] by (simp add: m)
qed

lemma AlignedMemory_new_others:
  "AlignedMemory_new sz hp = Some (Inr m, hp') \<Longrightarrow> q \<noteq> am_ptr m \<Longrightarrow> h_blocks hp' q = h_blocks hp q"
  by (auto simp: AlignedMemory_new_def alloc_zeroed_def cmd_simps split: if_splits option.splits)

lemma grown_write:
  assumes "grown hp N hp1" and "heap_write p off xs hp1 = Some (Inr (), hp2)" and "p \<in> N"
  shows "grown hp N hp2"
  by (rule grown_store [OF assms(1) heap_write_shape(1) [OF assms(2)]])
    (use heap_write_shape(2) [OF assms(2)] assms(3) in metis)

lemma grown_copy:
  assumes "grown hp N hp1" and "copy_nonoverlapping src p n hp1 = Some (Inr (), hp2)" and "p \<in> N"
  shows "grown hp N hp2 \<and> same_shape hp1 hp2"
proof -
  obtain bs where "heap_write p 0 bs hp1 = Some (Inr (), hp2)"
    using assms(2) by (auto simp: copy_nonoverlapping_def raise_def heap_read_def
        elim!: bindE_SomeD split: if_splits option.splits)
  then show ?thesis using grown_write [OF assms(1) _ assms(3)] heap_write_shape(1) by blast
qed

lemma grown_copy_slice:
  assumes "grown hp N hp1" and "copy_from_slice src p off n hp1 = Some (Inr (), hp2)" and "p \<in> N"
  shows "grown hp N hp2 \<and> same_shape hp1 hp2"
  using assms grown_write [OF assms(1) _ assms(3)] heap_write_shape(1)
  by (auto simp: copy_from_slice_def raise_def split: if_splits)

lemma grown_drop:
  assumes "grown hp N hp1" and "AlignedMemory_drop m hp1 = Some (Inr (), hp2)" and "am_ptr m \<in> N"
  shows "grown hp (N - {am_ptr m}) hp2"
  using grown_free [OF assms(1) _ assms(3)] assms(2) by (simp add: AlignedMemory_drop_def)

section \<open>The guest's memory\<close>

lemma grown_map_into_memory:
  assumes inv: "heap_inv hp" and run: "map_into_memory l hp = Some (Inr (q, sz), hp')"
  shows "grown hp {q} hp' \<and> block_size hp' q = unat (aligned_size l)"
proof -
  obtain hp1 where a: "alloc_zeroed \<lparr>l_size = aligned_size l, l_align = 4096\<rparr> hp = Some (Inr q, hp1)" "q \<noteq> 0"
    and st: "same_shape hp1 hp'" "\<And>p. p \<noteq> q \<Longrightarrow> h_blocks hp' p = h_blocks hp1 p"
    using map_into_memory_steps [OF run] by blast
  note g = grown_alloc [OF grown_refl [OF inv] a]
  have "grown hp {q} hp'" by (rule grown_store [OF _ st(1)]) (use g st(2) in auto)
  then show ?thesis using g block_size_shape [OF st(1), of q] by simp
qed

lemma grown_create_identity_mapping:
  assumes inv: "heap_inv (w_heap w)" and run: "create_identity_mapping P base w = Some (Inr t, w')"
  shows "grown (w_heap w) {pt_host_ptr t} (w_heap w') \<and> block_size (w_heap w') (pt_host_ptr t) = 12288"
proof -
  have av: "12288 \<le> h_avail (w_heap w)"
    using run create_identity_mapping_oom [of w P base] by (cases "h_avail (w_heap w) < 12288") auto
  obtain hp1 where a: "alloc_zeroed \<lparr>l_size = 12288, l_align = 4096\<rparr> (w_heap w) = Some (Inr (pt_host_ptr t), hp1)"
      "pt_host_ptr t \<noteq> 0"
    and st: "same_shape hp1 (w_heap w')" "\<And>q. q \<noteq> pt_host_ptr t \<Longrightarrow> h_blocks (w_heap w') q = h_blocks hp1 q"
    using create_identity_mapping_steps [OF run av inv] by blast
  note g = grown_alloc [OF grown_refl [OF inv] a]
  have "grown (w_heap w) {pt_host_ptr t} (w_heap w')" by (rule grown_store [OF _ st(1)]) (use g st(2) in auto)
  then show ?thesis using g block_size_shape [OF st(1), of "pt_host_ptr t"] by simp
qed

lemma grown_map_guest_memory:
  assumes inv: "heap_inv (w_heap w)" and run: "map_guest_memory P vm q sz w = Some (Inr gl, w')"
  shows "grown (w_heap w) {am_ptr (gl_stack gl), am_ptr (gl_null gl), pt_host_ptr (gl_tables gl)} (w_heap w')
    \<and> distinct [am_ptr (gl_stack gl), am_ptr (gl_null gl), pt_host_ptr (gl_tables gl)]
    \<and> block_size (w_heap w') (pt_host_ptr (gl_tables gl)) = 12288 \<and> gl_image gl = q"
proof -
  obtain hp1 hp2 w4 w5 where c: "AlignedMemory_new stack_size (w_heap w) = Some (Inr (gl_stack gl), hp1)"
    "AlignedMemory_new 0x1000 hp1 = Some (Inr (gl_null gl), hp2)"
    "create_identity_mapping P pt_gpa w4 = Some (Inr (gl_tables gl), w5)" "w_heap w4 = hp2" "w_heap w' = w_heap w5"
    "gl_image gl = q"
    using run unfolding map_guest_memory_def Let_def
    by (elim bindE_SomeD thenE_SomeD) (auto simp: add_u64_Inr ret_Inr dest!: map_gpa_range_hv)
  note g1 = grown_AlignedMemory_new [OF grown_refl [OF inv] c(1)]
  note g2 = grown_AlignedMemory_new [OF _ c(2), of "w_heap w" "{am_ptr (gl_stack gl)}"]
  have g2: "grown (w_heap w) {am_ptr (gl_null gl), am_ptr (gl_stack gl)} hp2" "am_ptr (gl_null gl) \<noteq> am_ptr (gl_stack gl)"
    using g1 g2 by auto
  note g3 = grown_create_identity_mapping [OF _ c(3)]
  have "grown hp2 {pt_host_ptr (gl_tables gl)} (w_heap w')" "block_size (w_heap w') (pt_host_ptr (gl_tables gl)) = 12288"
    using g3 grown_inv [OF g2(1)] c(4,5) by auto
  then show ?thesis
    using grown_trans [OF g2(1)] g2(2) c(6) by (auto simp: insert_commute)
qed

section \<open>Snapshots\<close>

text \<open>
  Putting a new buffer under a key releases the buffer it replaces: a snapshot owns what it holds,
  and nothing else is left over.
\<close>

lemma snap_ptrs_get: "hm_get (memory_regions s) g = Some x \<Longrightarrow> am_ptr x \<in> snap_ptrs s"
  by (auto simp: snap_ptrs_def)

lemma snap_ptrs_put:
  assumes snap: "snap_inv hp s" and new: "am_ptr m \<notin> snap_ptrs s"
  shows "snap_ptrs (s\<lparr>memory_regions := hm_insert gpa m (memory_regions s)\<rparr>) =
    insert (am_ptr m) (snap_ptrs s) - (case hm_get (memory_regions s) gpa of None \<Rightarrow> {} | Some old \<Rightarrow> {am_ptr old})"
proof -
  let ?get = "hm_get (memory_regions s)"
  have get: "hm_get (hm_insert gpa m (memory_regions s)) = ?get(gpa \<mapsto> m)" by (rule hm.get_insert)
  have other: "am_ptr x \<noteq> am_ptr old" if "?get g = Some x" "?get gpa = Some old" "g \<noteq> gpa" for g x old
    using snap that unfolding snap_inv_def by blast
  define A where "A = (case ?get gpa of None \<Rightarrow> {} | Some old \<Rightarrow> {am_ptr old})"
  have 1: "q \<in> snap_ptrs (s\<lparr>memory_regions := hm_insert gpa m (memory_regions s)\<rparr>) \<longleftrightarrow>
      q = am_ptr m \<or> (\<exists>g x. g \<noteq> gpa \<and> ?get g = Some x \<and> q = am_ptr x)" for q
    by (auto simp: snap_ptrs_def get)
  have 2: "(\<exists>g x. g \<noteq> gpa \<and> ?get g = Some x \<and> q = am_ptr x) \<longleftrightarrow>
      q \<in> snap_ptrs s - A" for q
  proof (cases "?get gpa")
    case None
    then show ?thesis by (auto simp: A_def snap_ptrs_def) (metis option.distinct(1))
  next
    case (Some old)
    then show ?thesis using other by (auto simp: A_def snap_ptrs_def) (metis option.inject)
  qed
  have 3: "am_ptr m \<notin> A"
    unfolding A_def using new snap_ptrs_get [of s gpa] by (auto split: option.splits)
  show ?thesis
    unfolding A_def [symmetric] by (rule set_eqI) (use 3 in \<open>simp only: 1 2, auto\<close>)
qed

lemma snap_invD:
  assumes "snap_inv hp s"
  shows "hm_inv (memory_regions s)"
    and "\<And>k k' m m'. hm_get (memory_regions s) k = Some m \<Longrightarrow> hm_get (memory_regions s) k' = Some m' \<Longrightarrow>
      am_ptr m = am_ptr m' \<Longrightarrow> k = k'"
  using assms unfolding snap_inv_def by blast+

lemma snap_put:
  assumes g: "grown hp (snap_ptrs s) hp1" and snap: "snap_inv hp1 s"
    and new: "AlignedMemory_new sz hp1 = Some (Inr m, hp2)"
    and st: "grown hp (insert (am_ptr m) (snap_ptrs s)) hp3" "same_shape hp2 hp3"
    and drp: "(case hm_get (memory_regions s) gpa of None \<Rightarrow> ret () | Some old \<Rightarrow> AlignedMemory_drop old) hp3 = Some (Inr (), hp4)"
    and s': "s' = s\<lparr>memory_regions := hm_insert gpa m (memory_regions s)\<rparr>"
  shows "grown hp (snap_ptrs s') hp4 \<and> snap_inv hp4 s'"
proof -
  let ?old = "hm_get (memory_regions s) gpa"
  have m: "am_ptr m \<notin> snap_ptrs s" "am_inv hp2 m"
    using grown_AlignedMemory_new [OF g new] by blast+
  have same: "am_inv hp3 x" if "am_inv hp2 x" for x
    using that block_layout_shape [OF st(2)] by (intro am_inv_mono [OF that])
  have kept: "am_inv hp3 x" if "hm_get (memory_regions s) k = Some x" for k x
  proof -
    have x: "am_inv hp1 x" using snap that unfolding snap_inv_def by blast
    have "am_ptr x \<noteq> am_ptr m" using m(1) snap_ptrs_get [OF that] by metis
    then have "h_blocks hp2 (am_ptr x) = h_blocks hp1 (am_ptr x)"
      using AlignedMemory_new_others [OF new] by blast
    then show ?thesis using same am_inv_mono [OF x] by metis
  qed
  have free: "am_inv hp4 x" if "am_inv hp3 x" "\<And>old. ?old = Some old \<Longrightarrow> am_ptr x \<noteq> am_ptr old" for x
    using that drp by (auto simp: am_inv_def ret_def AlignedMemory_drop_def dealloc_def split: option.splits if_splits)
  have "grown hp (snap_ptrs s') hp4"
  proof (cases ?old)
    case None
    then show ?thesis using st(1) drp snap_ptrs_put [OF snap m(1), of gpa] by (simp add: s' ret_def)
  next
    case (Some old)
    then have "am_ptr old \<in> insert (am_ptr m) (snap_ptrs s)" by (simp add: snap_ptrs_get)
    then show ?thesis using Some grown_drop [OF st(1)] drp snap_ptrs_put [OF snap m(1), of gpa] by (simp add: s')
  qed
  moreover have "snap_inv hp4 s'"
    unfolding s'
  proof (rule snap_inv_insert [OF snap])
    show "am_inv hp4 m" using free [OF same [OF m(2)]] m(1) by (auto simp: snap_ptrs_def)
    show "am_inv hp4 x" if "hm_get (memory_regions s) k = Some x" "k \<noteq> gpa" for k x
      using free [OF kept [OF that(1)]] that snap_invD(2) [OF snap] by metis
    show "am_ptr x \<noteq> am_ptr m" if "hm_get (memory_regions s) k = Some x" for k x
      using m(1) snap_ptrs_get [OF that] by metis
  qed
  ultimately show ?thesis ..
qed

lemma grown_capture_region:
  assumes g: "grown hp (snap_ptrs s) hp1" and snap: "snap_inv hp1 s"
    and run: "capture_region gpa p sz s hp1 = Some (Inr s', hp2)"
  shows "grown hp (snap_ptrs s') hp2 \<and> snap_inv hp2 s'"
proof -
  obtain m hpa hpb where c: "AlignedMemory_new sz hp1 = Some (Inr m, hpa)"
    "copy_nonoverlapping p (am_ptr m) (unat sz) hpa = Some (Inr (), hpb)"
    "(case hm_get (memory_regions s) gpa of None \<Rightarrow> ret () | Some old \<Rightarrow> AlignedMemory_drop old) hpb = Some (Inr (), hp2)"
    "s' = s\<lparr>memory_regions := hm_insert gpa m (memory_regions s)\<rparr>"
    using run unfolding capture_region_def by (elim bindE_SomeD thenE_SomeD) (auto simp: ret_Inr)
  show ?thesis
    using snap_put [OF g snap c(1) _ _ c(3,4)] grown_AlignedMemory_new [OF g c(1)]
      grown_copy [of hp "insert (am_ptr m) (snap_ptrs s)" hpa p "am_ptr m" "unat sz" hpb] c(2) by blast
qed

lemma grown_capture_all:
  "grown hp (snap_ptrs s) hp1 \<Longrightarrow> snap_inv hp1 s \<Longrightarrow> capture_all rs s hp1 = Some (Inr s', hp2) \<Longrightarrow>
     grown hp (snap_ptrs s') hp2 \<and> snap_inv hp2 s'"
proof (induction rs arbitrary: s hp1)
  case (Cons r rs)
  obtain gpa p sz where r: "r = (gpa, p, sz)" by (cases r) auto
  obtain s1 hpa where c: "capture_region gpa p sz s hp1 = Some (Inr s1, hpa)" "capture_all rs s1 hpa = Some (Inr s', hp2)"
    using Cons.prems(3) by (auto simp: r elim!: bindE_SomeD)
  then show ?case using Cons.IH grown_capture_region [OF Cons.prems(1,2) c(1)] by blast
qed (simp add: ret_def)

lemma snap_ptrs_new [simp]: "snap_ptrs Snapshot_new = {}"
  by (simp add: snap_ptrs_def hm.get_empty)

lemma grown_capture_memory_layout:
  assumes "heap_inv hp" and "capture_memory_layout gl hp = Some (Inr s, hp')"
  shows "grown hp (snap_ptrs s) hp' \<and> snap_inv hp' s"
  using grown_capture_all [of hp Snapshot_new hp] assms by (auto simp: capture_memory_layout_all)

section \<open>Dropping a snapshot\<close>

lemma grown_Snapshot_drop:
  assumes ord: "iterates_all P" and inv: "hm_inv (memory_regions s)"
    and inj: "\<And>k k' m m'. hm_get (memory_regions s) k = Some m \<Longrightarrow> hm_get (memory_regions s) k' = Some m' \<Longrightarrow>
      am_ptr m = am_ptr m' \<Longrightarrow> k = k'"
    and g: "grown hp N (w_heap w)" and own: "snap_ptrs s \<subseteq> N"
    and run: "Snapshot_drop P s w = Some (Inr (), w')"
  shows "grown hp (N - snap_ptrs s) (w_heap w')"
proof -
  let ?get = "hm_get (memory_regions s)" and ?ks = "hash_order P (hm_keys (memory_regions s))"
  let ?held = "\<lambda>ks. {am_ptr m | k m. k \<in> set ks \<and> ?get k = Some m}"
  have step: "grown hp (M - ?held ks) (w_heap w')"
    if "distinct ks" "grown hp M (w_heap w)" "?held ks \<subseteq> M"
      "for_each ks (\<lambda>gpa. case ?get gpa of None \<Rightarrow> ret () | Some m \<Rightarrow> on_heap (AlignedMemory_drop m)) w = Some (Inr (), w')"
    for ks M w w'
    using that
  proof (induction ks arbitrary: M w)
    case Nil
    then show ?case by (simp add: ret_def)
  next
    case (Cons k ks)
    show ?case
    proof (cases "?get k")
      case None
      then have "?held (k # ks) = ?held ks" by auto
      then show ?thesis using Cons.IH [of M w] Cons.prems None by (auto simp: thenE_def)
    next
      case (Some m)
      then obtain w1 where w1: "on_heap (AlignedMemory_drop m) w = Some (Inr (), w1)"
        "for_each ks (\<lambda>gpa. case ?get gpa of None \<Rightarrow> ret () | Some m \<Rightarrow> on_heap (AlignedMemory_drop m)) w1 = Some (Inr (), w')"
        using Cons.prems(4) by (auto elim!: thenE_SomeD)
      have held: "?held (k # ks) = insert (am_ptr m) (?held ks)" using Some by auto
      have "am_ptr m \<in> M" using Cons.prems(3) held by blast
      then have gr: "grown hp (M - {am_ptr m}) (w_heap w1)"
        using grown_drop [OF Cons.prems(2)] w1(1) by auto
      have "am_ptr m \<notin> ?held ks" using inj [OF Some] Cons.prems(1) by auto
      then have sub: "?held ks \<subseteq> M - {am_ptr m}" using Cons.prems(3) unfolding held by blast
      have "grown hp (M - {am_ptr m} - ?held ks) (w_heap w')"
        by (rule Cons.IH [OF _ gr sub w1(2)]) (use Cons.prems(1) in simp)
      then show ?thesis by (subst held, subst Diff_insert2)
    qed
  qed
  have ks: "distinct ?ks" "set ?ks = set (hm_keys (memory_regions s))"
    using ord hm.distinct_keys [OF inv] by (auto simp: iterates_all_def)
  have held: "?held ?ks = snap_ptrs s"
    unfolding ks(2) by (auto simp: snap_ptrs_def hm.set_keys)
  have "?held ?ks \<subseteq> N" using own by (simp only: held)
  from step [OF ks(1) g this run [unfolded Snapshot_drop_def]] show ?thesis by (simp only: held)
qed

section \<open>Reading an archive\<close>

text \<open>Everything but the buffers is read without touching host memory.\<close>

definition heap_free :: "'a reader \<Rightarrow> bool" where
  "heap_free m \<longleftrightarrow> (\<forall>s r s'. m s = Some (r, s') \<longrightarrow> fst s' = fst s)"

lemma heap_freeD: "heap_free m \<Longrightarrow> m (hp, bs) = Some (r, (hp', bs')) \<Longrightarrow> hp' = hp"
  by (fastforce simp: heap_free_def)

lemma heap_free_basic: "heap_free (ret x)" "heap_free (raise e)" "heap_free (read_with g)"
  by (auto simp: heap_free_def ret_def raise_def read_with_def split: option.splits)

lemma heap_free_bindE: "heap_free m \<Longrightarrow> (\<And>x. heap_free (f x)) \<Longrightarrow> heap_free (bindE m f)"
  by (fastforce simp: heap_free_def bindE_def split: option.splits sum.splits)

lemma heap_free_repeat: "heap_free m \<Longrightarrow> heap_free (repeat_cmd n m)"
  by (induction n) (simp_all add: heap_free_basic heap_free_bindE)

lemma heap_free_seq: "heap_free m \<Longrightarrow> heap_free (de_seq F m)"
  unfolding de_seq_def by (intro heap_free_bindE heap_free_repeat heap_free_basic)

lemmas heap_free_intros = heap_free_bindE heap_free_repeat heap_free_seq heap_free_basic

lemma heap_free_parts: "heap_free (de_registers F)" "heap_free (de_TraceEvent F)"
  unfolding de_registers_def de_register_def de_TraceEvent_def de_EventType_def de_write_def
  by (auto intro!: heap_free_intros)

lemma grown_de_AlignedMemory:
  assumes g: "grown hp N hp1" and run: "de_AlignedMemory F (hp1, bs) = Some (Inr m, (hp2, bs'))"
  obtains sz hp3 where "AlignedMemory_new sz hp1 = Some (Inr m, hp3)" and "same_shape hp3 hp2"
    and "grown hp (insert (am_ptr m) N) hp2"
proof -
  obtain bytes cs hp3 where c: "de_seq F (read_with (get_u8 F)) (hp1, bs) = Some (Inr bytes, (hp1, cs))"
    "AlignedMemory_new (of_nat (length bytes)) hp1 = Some (Inr m, hp3)"
    "copy_from_slice bytes (am_ptr m) 0 (length bytes) hp3 = Some (Inr (), hp2)"
    using run heap_freeD [OF heap_free_seq [OF heap_free_basic(3)]] unfolding de_AlignedMemory_def
    by (elim bindE_SomeD thenE_SomeD) (fastforce simp: on_fst_def ret_Inr split: option.splits prod.splits)
  then show thesis
    using that [OF c(2)] grown_AlignedMemory_new [OF g c(2)]
      grown_copy_slice [of hp "insert (am_ptr m) N" hp3 bytes "am_ptr m" 0 "length bytes" hp2] by blast
qed

lemma grown_de_entries:
  assumes "grown hp (snap_ptrs \<lparr>memory_regions = regions, registers = []\<rparr>) hp1"
    and "snap_inv hp1 \<lparr>memory_regions = regions, registers = []\<rparr>"
    and "de_entries F n regions (hp1, bs) = Some (Inr regions', (hp2, bs'))"
  shows "grown hp (snap_ptrs \<lparr>memory_regions = regions', registers = []\<rparr>) hp2
    \<and> snap_inv hp2 \<lparr>memory_regions = regions', registers = []\<rparr>"
  using assms
proof (induction n arbitrary: regions hp1 bs)
  case (Suc n)
  obtain gpa cs m hpa ds hpb es where c: "read_with (get_u64 F) (hp1, bs) = Some (Inr gpa, (hp1, cs))"
    "de_AlignedMemory F (hp1, cs) = Some (Inr m, (hpa, ds))"
    "(case hm_get regions gpa of None \<Rightarrow> ret () | Some old \<Rightarrow> on_fst (AlignedMemory_drop old)) (hpa, ds) = Some (Inr (), (hpb, es))"
    "de_entries F n (hm_insert gpa m regions) (hpb, es) = Some (Inr regions', (hp2, bs'))"
    using Suc.prems(3) heap_freeD [OF heap_free_basic(3)]
    by (fastforce elim!: bindE_SomeD thenE_SomeD)
  have d: "(case hm_get regions gpa of None \<Rightarrow> ret () | Some old \<Rightarrow> AlignedMemory_drop old) hpa = Some (Inr (), hpb)"
    using c(3) by (auto simp: on_fst_def ret_def split: option.splits)
  obtain sz hp3 where m: "AlignedMemory_new sz hp1 = Some (Inr m, hp3)" "same_shape hp3 hpa"
    "grown hp (insert (am_ptr m) (snap_ptrs \<lparr>memory_regions = regions, registers = []\<rparr>)) hpa"
    using grown_de_AlignedMemory [OF Suc.prems(1) c(2)] by blast
  have "grown hp (snap_ptrs \<lparr>memory_regions = hm_insert gpa m regions, registers = []\<rparr>) hpb
    \<and> snap_inv hpb \<lparr>memory_regions = hm_insert gpa m regions, registers = []\<rparr>"
    using snap_put [OF Suc.prems(1,2) m(1) m(3,2) _ refl, of gpa] d by simp
  then show ?case
    using Suc.IH [OF _ _ c(4)] by blast
qed (simp add: ret_def)

lemma grown_de_archive:
  assumes "heap_inv hp" and "de_archive F bytes hp = Some (Inr (s, es, hash), hp')"
  shows "grown hp (snap_ptrs s) hp' \<and> snap_inv hp' s"
proof -
  obtain cs where "bindE (de_Snapshot F) (\<lambda>snap. bindE (de_seq F (de_TraceEvent F)) (\<lambda>es.
      bindE (read_with (get_u64 F)) (\<lambda>final_hash. ret (snap, es, final_hash)))) (hp, bytes) = Some (Inr (s, es, hash), (hp', cs))"
    using assms(2) by (auto simp: de_archive_def split: option.splits)
  then obtain ds where "de_Snapshot F (hp, bytes) = Some (Inr s, (hp', ds))"
    using heap_freeD [OF heap_free_seq [OF heap_free_parts(2)]] heap_freeD [OF heap_free_basic(3)]
    by (elim bindE_SomeD) (fastforce simp: ret_Inr)
  then obtain n cs1 regions rs cs2 where d: "de_entries F n [] (hp, cs1) = Some (Inr regions, (hp', cs2))"
    and s: "s = \<lparr>memory_regions = regions, registers = rs\<rparr>"
    using heap_freeD [OF heap_free_parts(1)] heap_freeD [OF heap_free_basic(3)] unfolding de_Snapshot_def
    by (elim bindE_SomeD) (fastforce simp: ret_Inr)
  have "snap_ptrs \<lparr>memory_regions = [], registers = []\<rparr> = {}" "snap_inv hp \<lparr>memory_regions = [], registers = []\<rparr>"
    using snap_ptrs_new snap_inv_new(1) [of hp] by (simp_all add: Snapshot_new_def)
  then have "grown hp (snap_ptrs \<lparr>memory_regions = regions, registers = []\<rparr>) hp' \<and> snap_inv hp' \<lparr>memory_regions = regions, registers = []\<rparr>"
    using grown_de_entries [OF _ _ d, of hp] assms(1) by auto
  then show ?thesis by (simp add: s snap_ptrs_def snap_inv_def)
qed

end
