(* ===== verification/Engine_Isolation.thy ===== *)
theory Engine_Isolation
  imports Replay_Correct
begin

text \<open>
  Isolation as a property of commands: \<open>framed v m\<close> says that whatever \<open>m\<close> does to a world in which
  the processor \<open>v\<close> is ready, on every result including errors, stays inside the frame of the engines
  (\<open>keeps\<close>). It is proved once per combinator and per call, and so holds of the replay engine on
  every trace, also on one that does not fit the guest.
\<close>

context whp_contract
begin

definition framed :: "Vcpu \<Rightarrow> ('h world, 'b) cmd \<Rightarrow> bool" where
  "framed v m \<longleftrightarrow> (\<forall>w res w'. ready v w \<longrightarrow> m w = Some (res, w') \<longrightarrow> frame v w w')"

lemma framedI: "(\<And>w res w'. ready v w \<Longrightarrow> m w = Some (res, w') \<Longrightarrow> frame v w w') \<Longrightarrow> framed v m"
  by (simp add: framed_def)

lemma framedD: "framed v m \<Longrightarrow> ready v w \<Longrightarrow> m w = Some (res, w') \<Longrightarrow> frame v w w'"
  unfolding framed_def by blast

lemma framed_basic: "framed v (ret x)" "framed v (raise e)" "framed v (println msg)" "framed v (add_u64 c a b)"
  "framed v (expect_some s opt)"
  by (auto intro!: framedI frame_refl frame_println
      simp: ret_def raise_def println_def add_u64_def expect_some_def split: option.splits if_splits)

lemma framed_bindE:
  assumes "framed v m" and "\<And>x. framed v (f x)"
  shows "framed v (bindE m f)"
proof (rule framedI)
  fix w res w'
  assume rd: "ready v w" and run: "bindE m f w = Some (res, w')"
  then obtain r1 w1 where w1: "m w = Some (r1, w1)" by (auto simp: bindE_def split: option.splits)
  have k: "frame v w w1" by (rule framedD [OF assms(1) rd w1])
  show "frame v w w'"
  proof (cases r1)
    case (Inl e)
    then show ?thesis using run w1 k by (simp add: bindE_def)
  next
    case (Inr x)
    then have "f x w1 = Some (res, w')" using run w1 by (simp add: bindE_def)
    then show ?thesis using keeps_trans [OF k framedD [OF assms(2) frame_ready [OF k]]] by blast
  qed
qed

lemma framed_thenE: "framed v m \<Longrightarrow> framed v n \<Longrightarrow> framed v (thenE m n)"
  unfolding thenE_def by (rule framed_bindE)

lemma framed_for_each: "(\<And>x. framed v (f x)) \<Longrightarrow> framed v (for_each xs f)"
  by (induction xs) (simp_all add: framed_basic framed_thenE)

lemma framed_expect_ok: "framed v m \<Longrightarrow> framed v (expect_ok msg m)"
  by (auto simp: framed_def expect_ok_def split: option.splits sum.splits failure.splits)

lemma framed_get: "framed v (get_registers P v ns vs)"
  by (rule framedI) (auto simp: get_registers_def cmd_simps get_live keeps_def split: if_splits)

lemma framed_set: "framed v (set_registers P v ns vs)"
proof (rule framedI)
  fix w res w'
  assume rd: "ready v w" and run: "set_registers P v ns vs w = Some (res, w')"
  show "frame v w w'"
  proof (cases "length ns = length vs")
    case False
    then show ?thesis using run frame_refl [OF rd] by (simp add: set_registers_def cmd_simps)
  next
    case True
    show ?thesis
    proof (cases "abs_set reject ns vs (arch v w)")
      case (Inl e)
      then show ?thesis using set_registers_refused [OF rd True] run frame_refl [OF rd] by simp
    next
      case (Inr a')
      then show ?thesis using set_registers_ready [OF rd True] run by auto
    qed
  qed
qed

lemma framed_run:
  assumes p: "vp_handle p = vc_partition v"
  shows "framed v (VmRunner_run P (VmRunner_new p v))"
proof (rule framedI)
  fix w res w'
  assume rd: "ready v w" and run: "VmRunner_run P (VmRunner_new p v) w = Some (res, w')"
  have v: "\<lparr>vc_partition = vc_partition v, vc_index = vc_index v\<rparr> = v" by simp
  obtain r a' where g: "guest (arch v w) = Some (r, a')"
    using run run_silent [OF rd p] by (cases "guest (arch v w)") auto
  obtain hp' h' where r: "WHvRunVirtualProcessor P (vc_partition v) (vc_index v) (w_heap w, w_hv w) = Some (r, hp', h')"
    "live h' (vc_partition v) (vc_index v)" "gpas h' (vc_partition v) = gpas (w_hv w) (vc_partition v)"
    "same_shape (w_heap w) hp'"
    "\<forall>q. q \<notin> mapped_ptrs (gpas (w_hv w) (vc_partition v)) \<longrightarrow> h_blocks hp' q = h_blocks (w_heap w) q"
    using run_exit [of "w_hv w" "vc_partition v" "vc_index v" "w_heap w" r a'] rd g unfolding v by blast
  have "w' = w\<lparr>w_heap := hp', w_hv := h'\<rparr>"
    using run r(1) p
    by (auto simp: VmRunner_run_def VmRunner_new_def as_raw_def Vcpu_index_def call_run_def split: sum.splits)
  then show "frame v w w'"
    using r(2-5) rd same_shape_inv [OF r(4)] by (simp add: keeps_def)
qed

lemmas framed_intros = framed_bindE framed_thenE framed_for_each framed_expect_ok framed_get framed_set
  framed_basic

lemma framed_inject: "replays_on p v r \<Longrightarrow> framed v (inject_event P r ev)"
  unfolding inject_event_def
  by (cases "event ev") (auto simp: active_vcpu_ret drop_writes intro!: framed_intros)

lemma framed_advance: "replays_on p v r \<Longrightarrow> framed v (replay_advance_rip P r len)"
  unfolding replay_advance_rip_def by (auto simp: active_vcpu_ret intro!: framed_intros)

lemma framed_replay_step:
  assumes r: "replays_on p v r"
  shows "framed v (replay_step P r ev)"
proof -
  have p: "rp_partition r = p" "vp_handle p = vc_partition v" using r by (simp_all add: replays_on_def)
  show ?thesis
    unfolding replay_step_def active_vcpu_ret [OF r] bindE_ret p(1) Let_def
    by (intro framed_bindE framed_run [OF p(2)])
      (auto intro!: framed_intros framed_inject [OF r] framed_advance [OF r] split: EventType.splits)
qed

lemma framed_replay_event:
  assumes r: "replays_on p v r"
  shows "framed v (replay_event P r ev)"
proof (rule framedI)
  fix w res w'
  assume "ready v w" and "replay_event P r ev w = Some (res, w')"
  then have "replay_runs P r ev w (res, w')" "ready v w" by (simp_all add: replay_event_iff)
  then show "frame v w w'"
  proof (induction w "(res, w')" rule: replay_runs.induct)
    case (failed w e)
    then show ?case using framedD [OF framed_replay_step [OF r]] by blast
  next
    case (break w)
    then show ?case using framedD [OF framed_replay_step [OF r]] by blast
  next
    case (again w w1)
    have k: "frame v w w1" using framedD [OF framed_replay_step [OF r] again.prems again.hyps(1)] .
    show ?case by (rule keeps_trans [OF k again.hyps(3) [OF frame_ready [OF k]]])
  qed
qed

end

end
