(* ===== verification/Whp_Release.thy ===== *)
theory Whp_Release
  imports Reference_Hypervisor
begin

text \<open>
  What the commands rely on of the hypervisor when they end: deleting a processor and a partition.
  The locale \<open>whp_release\<close> extends \<open>whp_boot\<close>; the reference hypervisor satisfies it. \<open>present h p\<close>
  says that the partition exists.
\<close>

locale whp_release = whp_boot P live regs gpas exits rest reject guest room created idle regs0 rest0
  for P :: "'h platform" and live and regs and gpas and exits
    and rest :: "'h \<Rightarrow> handle \<Rightarrow> u32 \<Rightarrow> 'x" and reject and guest and room and created and idle and regs0 and rest0 +
  fixes present :: "'h \<Rightarrow> handle \<Rightarrow> bool"
  assumes handle_not_null: "WHvCreatePartition P h = (Inr p, h') \<Longrightarrow> p \<noteq> 0"
    and live_present: "live h p i \<Longrightarrow> present h p"
    and delete_vp: "live h p i \<Longrightarrow> \<exists>h'. WHvDeleteVirtualProcessor P p i h = (Inr (), h') \<and> present h' p
        \<and> gpas h' p = gpas h p"
    and delete_partition: "present h p \<Longrightarrow> \<exists>h'. WHvDeletePartition P p h = (Inr (), h') \<and> \<not> present h' p \<and> room h'"

text \<open>The two destructors, in the order in which both commands run them.\<close>

definition close_hv :: "'h platform \<Rightarrow> VmPartition \<Rightarrow> Vcpu \<Rightarrow> 'h \<Rightarrow> 'h" where
  "close_hv P vm v h = snd (WHvDeletePartition P (vp_handle vm)
     (snd (WHvDeleteVirtualProcessor P (vc_partition v) (vc_index v) h)))"

lemma Vcpu_drop_eq:
  "Vcpu_drop P v w = Some (Inr (), w\<lparr>w_hv := snd (WHvDeleteVirtualProcessor P (vc_partition v) (vc_index v) (w_hv w))\<rparr>)"
  by (simp add: Vcpu_drop_def ignore_hv_def)

lemma VmPartition_drop_eq:
  "vp_handle vm \<noteq> 0 \<Longrightarrow> VmPartition_drop P vm w = Some (Inr (), w\<lparr>w_hv := snd (WHvDeletePartition P (vp_handle vm) (w_hv w))\<rparr>)"
  by (simp add: VmPartition_drop_def ignore_hv_def)

lemma created_handle:
  "VmPartition_new P w = Some (Inr vm, w') \<Longrightarrow> \<exists>h. WHvCreatePartition P (w_hv w) = (Inr (vp_handle vm), h)"
  unfolding VmPartition_new_def
  by (elim bindE_SomeD thenE_SomeD) (auto simp: call_hv_def ret_Inr split: prod.splits sum.splits)

context whp_release
begin

lemma closed:
  assumes "live h (vc_partition v) (vc_index v)" and "vp_handle vm = vc_partition v"
  shows "\<not> present (close_hv P vm v h) (vp_handle vm) \<and> room (close_hv P vm v h)"
proof -
  obtain h1 where h1: "WHvDeleteVirtualProcessor P (vc_partition v) (vc_index v) h = (Inr (), h1)" "present h1 (vc_partition v)"
    using delete_vp [OF assms(1)] by blast
  obtain h2 where "WHvDeletePartition P (vc_partition v) h1 = (Inr (), h2)" "\<not> present h2 (vc_partition v)" "room h2"
    using delete_partition [OF h1(2)] by blast
  then show ?thesis using h1(1) assms(2) by (simp add: close_hv_def)
qed

end

definition ref_present :: "'x ref_hv \<Rightarrow> handle \<Rightarrow> bool" where
  "ref_present h p \<longleftrightarrow> hv_parts h p \<noteq> None"

interpretation ref_release: whp_release "ref_platform checks ord x0 prog" ref_live ref_regs ref_gpas ref_exits
    "ref_rest x0" "\<lambda>_ _. None" "run_prog prog" ref_room ref_created ref_idle reset_regs x0 ref_present
proof
  fix h :: "'a ref_hv" and p i and h' :: "'a ref_hv"
  let ?P = "ref_platform checks ord x0 prog"
  show "p \<noteq> 0" if "WHvCreatePartition ?P h = (Inr p, h')"
    using that by (auto simp: ref_platform_def ref_create_def ref_handle_def split: if_splits)
  show "ref_present h p" if "ref_live h p i"
    using ref_live_part [OF that] by (auto simp: ref_present_def)
  show "\<exists>h'. WHvDeleteVirtualProcessor ?P p i h = (Inr (), h') \<and> ref_present h' p \<and> ref_gpas h' p = ref_gpas h p"
    if lv: "ref_live h p i"
  proof -
    obtain part where "hv_parts h p = Some part" using ref_live_part [OF lv] by blast
    then show ?thesis by (simp add: ref_platform_def ref_delete_vp_def ref_update_def ref_present_def ref_gpas_def)
  qed
  show "\<exists>h'. WHvDeletePartition ?P p h = (Inr (), h') \<and> \<not> ref_present h' p \<and> ref_room h'" if "ref_present h p"
    using that by (auto simp: ref_platform_def ref_delete_def ref_present_def ref_room_def)
qed

end
