(* ===== verification/Cli_Release.thy ===== *)
theory Cli_Release
  imports Cli_Completes Cli_Output Heap_Ownership Engine_Isolation Whp_Release
begin

text \<open>
  What the commands leave behind. A returned \<open>replay\<close> has released everything it took: the host heap
  is the one it started with and the partition is gone. A returned \<open>record\<close> has released everything
  but the image buffer and the page tables, which no destructor owns; and it releases the stack and
  the null page while the partition still maps them.
\<close>

section \<open>Commands that leave host memory alone\<close>

definition reads_only :: "(heap, 'a) cmd \<Rightarrow> bool" where
  "reads_only m \<longleftrightarrow> (\<forall>hp r hp'. m hp = Some (r, hp') \<longrightarrow> hp' = hp)"

lemma reads_onlyD: "reads_only m \<Longrightarrow> m hp = Some (r, hp') \<Longrightarrow> hp' = hp"
  unfolding reads_only_def by blast

lemma reads_only_basic: "reads_only (ret x)" "reads_only (expect_some s opt)" "reads_only (AlignedMemory_slice m)"
  by (auto simp: reads_only_def ret_def raise_def expect_some_def AlignedMemory_slice_def heap_read_def split: option.splits)

lemma reads_only_bindE: "reads_only m \<Longrightarrow> (\<And>x. reads_only (f x)) \<Longrightarrow> reads_only (bindE m f)"
  by (fastforce simp: reads_only_def bindE_def split: option.splits sum.splits)

lemma reads_only_hash_regions: "reads_only (hash_regions regions gpas h)"
  by (induction gpas arbitrary: h) (auto intro!: reads_only_bindE reads_only_basic)

lemma reads_only_hash: "reads_only (hash_state s)"
  unfolding hash_state_def Let_def by (intro reads_only_bindE reads_only_hash_regions reads_only_basic)

lemma reads_only_entries: "reads_only (ser_entries F regions ks)"
  by (induction ks) (auto intro!: reads_only_bindE reads_only_basic simp: ser_AlignedMemory_def split: option.splits)

lemma reads_only_archive: "reads_only (ser_archive P F s es h)"
  unfolding ser_archive_def ser_Snapshot_def by (intro reads_only_bindE reads_only_entries reads_only_basic)

definition heap_same :: "('h world, 'a) cmd \<Rightarrow> bool" where
  "heap_same m \<longleftrightarrow> (\<forall>w r w'. m w = Some (r, w') \<longrightarrow> w_heap w' = w_heap w)"

lemma heap_sameD: "heap_same m \<Longrightarrow> m w = Some (r, w') \<Longrightarrow> w_heap w' = w_heap w"
  unfolding heap_same_def by blast

lemma heap_same_basic: "heap_same (ret x)" "heap_same (raise e)" "heap_same (println msg)" "heap_same (add_u64 c a b)"
  "heap_same (call_hv f)" "heap_same (ignore_hv f)" "heap_same (assert_that cond)" "heap_same (expect_some s opt)"
  by (auto simp: heap_same_def ret_def raise_def println_def add_u64_def call_hv_def ignore_hv_def assert_that_def
      expect_some_def split: prod.splits sum.splits option.splits if_splits)

lemma heap_same_reads: "reads_only m \<Longrightarrow> heap_same (on_heap m)"
  by (auto simp: reads_only_def heap_same_def on_heap_def split: option.splits)

lemma heap_same_bindE: "heap_same m \<Longrightarrow> (\<And>x. heap_same (f x)) \<Longrightarrow> heap_same (bindE m f)"
  by (fastforce simp: heap_same_def bindE_def split: option.splits sum.splits)

lemma heap_same_thenE: "heap_same m \<Longrightarrow> heap_same n \<Longrightarrow> heap_same (thenE m n)"
  unfolding thenE_def by (rule heap_same_bindE)

lemma heap_same_expect_ok: "heap_same m \<Longrightarrow> heap_same (expect_ok msg m)"
  by (auto simp: heap_same_def expect_ok_def split: option.splits sum.splits failure.splits)

lemma heap_same_for_each: "(\<And>x. heap_same (f x)) \<Longrightarrow> heap_same (for_each xs f)"
  by (induction xs) (simp_all add: heap_same_basic heap_same_thenE)

lemmas heap_same_intros = heap_same_bindE heap_same_thenE heap_same_expect_ok heap_same_for_each heap_same_basic

lemma heap_same_registers: "heap_same (get_registers P v ns vs)" "heap_same (set_registers P v ns vs)"
  "heap_same (capture_registers P v ns s)"
  unfolding get_registers_def set_registers_def capture_registers_def by (auto intro!: heap_same_intros)

lemma heap_same_boot_vcpu: "heap_same (boot_vcpu P vm l gl)"
  unfolding boot_vcpu_def Vcpu_new_def setup_long_mode_def by (intro heap_same_intros heap_same_registers)

lemma heap_same_restore: "heap_same (restore_snapshot P r s ns)"
  unfolding restore_snapshot_def Let_def map_gpa_range_def active_vcpu_def
  by (auto intro!: heap_same_intros heap_same_registers split: option.splits)

section \<open>Replay\<close>

lemma replay_prepare_owns:
  assumes inv: "heap_inv (w_heap u)" and run: "replay_prepare P F trace u = Some (Inr (s, es, hash, vm, v, r), u1)"
  shows "grown (w_heap u) (snap_ptrs s) (w_heap u1) \<and> snap_inv (w_heap u1) s
    \<and> (\<exists>w0 w1. VmPartition_new P w0 = Some (Inr vm, w1))"
proof -
  obtain data hp1 out w1 w2 w3 w4 w5 where c: "de_archive F data (w_heap u) = Some (Inr (s, es, hash), hp1)"
    "VmPartition_new P (u\<lparr>w_heap := hp1, w_out := out\<rparr>) = Some (Inr vm, w1)" "configure_interceptions P vm w1 = Some (Inr (), w2)"
    "Vcpu_new P (as_raw vm) 0 w2 = Some (Inr v, w3)" "setup_long_mode P v pt_gpa w3 = Some (Inr (), w4)"
    "restore_snapshot P r s capture_names w4 = Some (Inr (), w5)" and u1: "w_heap u1 = w_heap w5"
    using run unfolding replay_prepare_def Let_def
    by (elim bindE_SomeD thenE_SomeD)
      (auto simp: println_def fs_read_def expect_some_def raise_def ret_Inr split: option.splits prod.splits elim!: bindE_SomeD thenE_SomeD)
  have "heap_same (VmPartition_new P)" "heap_same (configure_interceptions P vm)" "heap_same (Vcpu_new P (as_raw vm) 0)"
    "heap_same (setup_long_mode P v pt_gpa)"
    unfolding VmPartition_new_def configure_interceptions_def Vcpu_new_def setup_long_mode_def
    by (auto intro!: heap_same_intros heap_same_registers)
  then have "w_heap u1 = hp1"
    using c(2-5) heap_sameD [OF heap_same_restore c(6)] u1 by (auto dest!: heap_sameD)
  then show ?thesis using grown_de_archive [OF inv c(1)] c(2) by auto
qed

text \<open>Dropping changes the hypervisor only through the two destructors of the virtual machine.\<close>

definition hv_same :: "('h world, 'a) cmd \<Rightarrow> bool" where
  "hv_same m \<longleftrightarrow> (\<forall>w r w'. m w = Some (r, w') \<longrightarrow> w_hv w' = w_hv w)"

lemma hv_same_on_heap: "hv_same (on_heap m)"
  by (auto simp: hv_same_def on_heap_def split: option.splits)

lemma hv_same_for_each: "(\<And>x. hv_same (f x)) \<Longrightarrow> hv_same (for_each xs f)"
  by (induction xs) (fastforce simp: hv_same_def ret_def thenE_def bindE_def split: option.splits sum.splits)+

lemma hv_same_Snapshot_drop: "hv_same (Snapshot_drop P s)"
  unfolding Snapshot_drop_def
  by (rule hv_same_for_each) (auto simp: hv_same_def ret_def on_heap_def split: option.splits)

lemma hv_sameD: "hv_same m \<Longrightarrow> m w = Some (r, w') \<Longrightarrow> w_hv w' = w_hv w"
  unfolding hv_same_def by blast

lemma region_ptrs_snap: "region_ptrs (snap_regions s) \<subseteq> snap_ptrs s"
  by (auto simp: region_ptrs_def snap_regions_def snap_ptrs_def)

context whp_boot
begin

lemma framed_handle_vm_exit: "framed v (handle_vm_exit P v res)"
proof -
  have "framed v (attempt m)" if "framed v m" for m :: "('h world, reg_value list) cmd"
    using that by (auto simp: framed_def attempt_def split: option.splits sum.splits failure.splits)
  then show ?thesis
    unfolding handle_vm_exit_def by (auto intro!: framed_intros split: sum.splits)
qed

lemma replay_owns:
  assumes ord: "iterates_all P" and inv: "heap_inv (w_heap u)"
    and prep: "replay_prepare P F trace u = Some (Inr (s, es, hash, vm, v, r), u1)"
    and run: "cli_replay P F trace u = Some (Inr (), u')"
    and r: "replays_on vm v r" and lv: "live (w_hv u1) (vc_partition v) (vc_index v)"
    and R: "maps_regions (gpas (w_hv u1) (vc_partition v)) (snap_regions s)" and nz: "vp_handle vm \<noteq> 0"
  shows "grown (w_heap u) {} (w_heap u')
    \<and> (\<exists>h. live h (vc_partition v) (vc_index v) \<and> w_hv u' = close_hv P vm v h)"
proof -
  note own = replay_prepare_owns [OF inv prep]
  have vp: "vp_handle vm = vc_partition v" using r by (simp add: replays_on_def)
  let ?u1 = "u1\<lparr>w_out := w_out u1 @ [ReplayingEvents (length es)]\<rparr>"
  obtain w2 res w3 w4 s' w5 w6 w7 where
    c2: "for_each es (\<lambda>event. expect_ok ''Failed to replay event'' (replay_event P r event)) ?u1 = Some (Inr (), w2)" and
    c3: "attempt (VmRunner_run P (VmRunner_new vm v)) (w2\<lparr>w_out := w_out w2 @ [TraceReplayFinished]\<rparr>) = Some (Inr res, w3)" and
    c4: "handle_vm_exit P v res w3 = Some (Inr (), w4)" and c5: "replay_verify P s hash v w4 = Some (Inr s', w5)" and
    c6: "Vcpu_drop P v w5 = Some (Inr (), w6)" "VmPartition_drop P vm w6 = Some (Inr (), w7)" "Snapshot_drop P s' w7 = Some (Inr (), u')"
    by (rule cli_replay_stages [OF run]) (simp add: prep)
  have rd: "ready v ?u1" using lv own grown_inv by auto
  have "framed v (for_each es (\<lambda>event. expect_ok ''Failed to replay event'' (replay_event P r event)))"
    by (intro framed_for_each framed_expect_ok framed_replay_event [OF r])
  then have k2: "frame v ?u1 w2" using framedD rd c2 by blast
  let ?w2 = "w2\<lparr>w_out := w_out w2 @ [TraceReplayFinished]\<rparr>"
  have "frame v ?w2 w3"
  proof -
    obtain x where "VmRunner_run P (VmRunner_new vm v) ?w2 = Some (x, w3)"
      using c3 by (auto simp: attempt_def split: option.splits sum.splits failure.splits)
    then show ?thesis using framedD [OF framed_run [OF vp]] frame_ready [OF k2] by simp
  qed
  then have k3: "frame v ?u1 w3"
    using keeps_trans [OF k2 keeps_trans [OF frame_println [OF frame_ready [OF k2]]]] by blast
  have k4: "frame v ?u1 w4"
    by (rule keeps_trans [OF k3 framedD [OF framed_handle_vm_exit frame_ready [OF k3] c4]])
  have sub: "mapped_ptrs (gpas (w_hv u1) (vc_partition v)) \<subseteq> snap_ptrs s"
    using mapped_ptrs_regions [OF R] region_ptrs_snap by blast
  have sh: "same_shape (w_heap u1) (w_heap w4)" "live (w_hv w4) (vc_partition v) (vc_index v)"
    "\<And>q. q \<notin> mapped_ptrs (gpas (w_hv u1) (vc_partition v)) \<Longrightarrow> h_blocks (w_heap w4) q = h_blocks (w_heap u1) q"
    using k4 by (simp_all add: keeps_def)
  have g4: "grown (w_heap u) (snap_ptrs s) (w_heap w4)"
    by (rule grown_store [OF conjunct1 [OF own] sh(1)]) (use sh(3) sub in blast)
  have s4: "snap_inv (w_heap w4) s" by (rule snap_inv_shape [OF sh(1)]) (use own in blast)
  have v5: "w_heap w5 = w_heap w4" "w_hv w5 = w_hv w4" "snap_ptrs s' = snap_ptrs s" "memory_regions s' = memory_regions s"
    using c5 capture_registers_live [of w4 v capture_names s] frame_ready [OF k4] reads_only_hash unfolding replay_verify_def
    by (auto simp: bindE_step thenE_step println_def assert_that_def ret_def raise_def reads_only_def split: if_splits elim!: bindE_SomeD thenE_SomeD)
  let ?w7 = "w5\<lparr>w_hv := close_hv P vm v (w_hv w5)\<rparr>"
  have d: "Snapshot_drop P s' ?w7 = Some (Inr (), u')"
    using c6 nz by (auto simp: Vcpu_drop_eq VmPartition_drop_eq close_hv_def)
  have "grown (w_heap u) (snap_ptrs s - snap_ptrs s') (w_heap u')"
    by (rule grown_Snapshot_drop [OF ord _ _ _ _ d]) (use snap_invD [OF s4] g4 v5 in simp_all)
  moreover have "w_hv u' = close_hv P vm v (w_hv w4)"
    using hv_sameD [OF hv_same_Snapshot_drop d] v5(2) by simp
  ultimately show ?thesis using v5(3) sh(2) by auto
qed

end

section \<open>Record\<close>

text \<open>The four allocations of the guest's memory.\<close>

definition guest_ptrs :: "guest_layout \<Rightarrow> ptr set" where
  "guest_ptrs gl = {gl_image gl, am_ptr (gl_stack gl), am_ptr (gl_null gl), pt_host_ptr (gl_tables gl)}"

lemma region_ptrs_layout: "region_ptrs (layout_regions gl) \<subseteq> guest_ptrs gl"
  by (auto simp: region_ptrs_def layout_regions_def guest_ptrs_def split: if_splits)

lemma record_partition:
  "record_prepare P goblin target w = Some (Inr (vm, gl, snap, v), w') \<Longrightarrow>
     \<exists>w0 w1. VmPartition_new P w0 = Some (Inr vm, w1) \<and> w_hv w0 = w_hv w"
  unfolding record_prepare_def
  by (elim bindE_SomeD thenE_SomeD)
    (fastforce simp: ret_Inr println_def fs_read_def expect_some_def expect_right_def raise_def
      split: prod.splits option.splits sum.splits elim!: bindE_SomeD thenE_SomeD)

context whp_boot
begin

lemma record_prepare_owns:
  assumes run: "record_prepare P goblin target w = Some (Inr (vm, gl, snap, v), w')"
    and room: "room (w_hv w)" and inv: "heap_inv (w_heap w)"
    and tgt: "hm_get (w_files w) target = Some data" "goblin data = Inr pe" and l: "l = \<lparr>pl_pe = pe, raw_bytes = data\<rparr>"
  shows "grown (w_heap w) (guest_ptrs gl \<union> snap_ptrs snap) (w_heap w') \<and> guest_ptrs gl \<inter> snap_ptrs snap = {}
    \<and> distinct [gl_image gl, am_ptr (gl_stack gl), am_ptr (gl_null gl), pt_host_ptr (gl_tables gl)]
    \<and> block_size (w_heap w') (gl_image gl) = unat (aligned_size l)
    \<and> block_size (w_heap w') (pt_host_ptr (gl_tables gl)) = 12288"
proof -
  obtain q sz hp1 w1 w2 snap0 hp3 w4 where m: "map_into_memory l (w_heap w) = Some (Inr (q, sz), hp1)"
    and h1: "w_heap w1 = hp1" and "w_files w1 = w_files w" and "idle (w_hv w1) (vp_handle vm)"
    and "gpas (w_hv w1) (vp_handle vm) = (\<lambda>_. None)" and "exits (w_hv w1) (vp_handle vm) = intercept_mask"
    and c2: "map_guest_memory P vm q sz w1 = Some (Inr gl, w2)"
    and c3: "capture_memory_layout gl (w_heap w2) = Some (Inr snap0, hp3)"
    and c4: "boot_vcpu P vm l gl (w2\<lparr>w_heap := hp3, w_out := w_out w2 @ [TargetMapped base_gpa (entry_point l)]\<rparr>) = Some (Inr v, w4)"
    and c5: "capture_registers P v capture_names snap0 w4 = Some (Inr snap, w')"
    by (rule record_prepare_stages [OF run room tgt l])
  note g1 = grown_map_into_memory [OF inv m]
  have inv1: "heap_inv (w_heap w1)" using g1 grown_inv h1 by blast
  note g2 = grown_map_guest_memory [OF inv1 c2]
  have inv2: "heap_inv (w_heap w2)" using g2 grown_inv by blast
  note g3 = grown_capture_memory_layout [OF inv2 c3]
  have h': "w_heap w' = hp3" "snap_ptrs snap = snap_ptrs snap0"
    using heap_sameD [OF heap_same_registers(3) c5] heap_sameD [OF heap_same_boot_vcpu c4] c5
    by (auto simp: capture_registers_def ret_Inr elim!: bindE_SomeD)
  note t2 = grown_trans [OF conjunct1 [OF g1, folded h1] conjunct1 [OF g2]]
  have N: "{q} \<union> {am_ptr (gl_stack gl), am_ptr (gl_null gl), pt_host_ptr (gl_tables gl)} = guest_ptrs gl"
    using g2 by (auto simp: guest_ptrs_def)
  note t3 = grown_trans [OF conjunct1 [OF t2, unfolded N] conjunct1 [OF g3]]
  have al: "heap_content (w_heap w1) q \<noteq> None" "heap_content (w_heap w2) q \<noteq> None"
      "heap_content (w_heap w2) (pt_host_ptr (gl_tables gl)) \<noteq> None"
    using g1 g2 h1 t2 by (auto simp: grown_def heap_content_def)
  have "block_size hp3 q = unat (aligned_size l)"
    using grown_size [OF conjunct1 [OF g3] al(2)] grown_size [OF conjunct1 [OF g2] al(1)] g1 h1 by simp
  moreover have "block_size hp3 (pt_host_ptr (gl_tables gl)) = 12288"
    using grown_size [OF conjunct1 [OF g3] al(3)] g2 by simp
  ultimately show ?thesis
    using t2 t3 g2 unfolding h' by auto
qed

lemma record_archive_owns:
  assumes run: "record_archive P F out gl snap v eng w = Some (Inr fs, w')"
    and lv: "live (w_hv w) (vc_partition v) (vc_index v)" and inv: "heap_inv (w_heap w)"
  shows "grown (w_heap w) (snap_ptrs fs) (w_heap w') \<and> snap_inv (w_heap w') fs \<and> w_hv w' = w_hv w"
proof -
  obtain fs0 hp1 where c: "capture_memory_layout gl (w_heap w) = Some (Inr fs0, hp1)"
    using run unfolding record_archive_def by (elim bindE_SomeD) auto
  have "fs = fs0\<lparr>registers := map (regs (w_hv w) (vc_partition v) (vc_index v)) capture_names\<rparr> \<and> w_heap w' = hp1 \<and> w_hv w' = w_hv w"
    using run capture_registers_live [of "w\<lparr>w_heap := hp1\<rparr>" v capture_names fs0] lv
    unfolding record_archive_def Let_def
    by (auto simp: c bindE_step thenE_step println_def fs_write_def modify_def raise_def ret_Inr
        split: if_splits elim!: bindE_SomeD thenE_SomeD
        dest!: reads_onlyD [OF reads_only_hash] reads_onlyD [OF reads_only_archive])
  then show ?thesis using grown_capture_memory_layout [OF inv c] by simp
qed

end

lemma record_drop_owns:
  assumes ord: "iterates_all P" and g: "grown hp (guest_ptrs gl \<union> snap_ptrs snap \<union> snap_ptrs fs) (w_heap w)"
    and dis: "guest_ptrs gl \<inter> snap_ptrs snap = {}" "(guest_ptrs gl \<union> snap_ptrs snap) \<inter> snap_ptrs fs = {}"
    and d: "distinct [gl_image gl, am_ptr (gl_stack gl), am_ptr (gl_null gl), pt_host_ptr (gl_tables gl)]"
    and s: "snap_inv hp1 snap" "snap_inv hp2 fs"
    and run: "record_drop_locals P gl snap v fs w = Some (Inr (), w')"
  shows "grown hp {gl_image gl, pt_host_ptr (gl_tables gl)} (w_heap w')
    \<and> w_hv w' = snd (WHvDeleteVirtualProcessor P (vc_partition v) (vc_index v) (w_hv w))"
proof -
  obtain w1 w2 w3 w4 where c: "Snapshot_drop P fs w = Some (Inr (), w1)" "Vcpu_drop P v w1 = Some (Inr (), w2)"
    "Snapshot_drop P snap w2 = Some (Inr (), w3)" "on_heap (AlignedMemory_drop (gl_null gl)) w3 = Some (Inr (), w4)"
    "on_heap (AlignedMemory_drop (gl_stack gl)) w4 = Some (Inr (), w')"
    using run unfolding record_drop_locals_def by (auto elim!: thenE_SomeD)
  have w2: "w_heap w2 = w_heap w1" "w_hv w2 = snd (WHvDeleteVirtualProcessor P (vc_partition v) (vc_index v) (w_hv w1))"
    using c(2) by (auto simp: Vcpu_drop_eq)
  have e: "guest_ptrs gl \<union> snap_ptrs snap \<union> snap_ptrs fs - snap_ptrs fs = guest_ptrs gl \<union> snap_ptrs snap"
    "guest_ptrs gl \<union> snap_ptrs snap - snap_ptrs snap = guest_ptrs gl"
    using dis by auto
  have g2: "grown hp (guest_ptrs gl \<union> snap_ptrs snap) (w_heap w2)"
    unfolding w2(1) by (subst e(1) [symmetric], rule grown_Snapshot_drop [OF ord _ _ g _ c(1)]) (use snap_invD [OF s(2)] in auto)
  have "grown hp (guest_ptrs gl) (w_heap w3)"
    by (subst e(2) [symmetric], rule grown_Snapshot_drop [OF ord _ _ g2 _ c(3)]) (use snap_invD [OF s(1)] in auto)
  then have "grown hp (guest_ptrs gl - {am_ptr (gl_null gl)}) (w_heap w4)"
    using grown_drop c(4) by (auto simp: guest_ptrs_def)
  then have "grown hp (guest_ptrs gl - {am_ptr (gl_null gl)} - {am_ptr (gl_stack gl)}) (w_heap w')"
    by (rule grown_drop) (use c(5) d in \<open>auto simp: guest_ptrs_def\<close>)
  moreover have "guest_ptrs gl - {am_ptr (gl_null gl)} - {am_ptr (gl_stack gl)} = {gl_image gl, pt_host_ptr (gl_tables gl)}"
    using d by (auto simp: guest_ptrs_def)
  moreover have "w_hv w' = w_hv w2" "w_hv w1 = w_hv w"
    using hv_sameD [OF hv_same_Snapshot_drop c(3)] hv_sameD [OF hv_same_Snapshot_drop c(1)]
      hv_sameD [OF hv_same_on_heap c(4)] hv_sameD [OF hv_same_on_heap c(5)] by simp_all
  ultimately show ?thesis using w2(2) by simp
qed

lemma record_drop_sizes:
  assumes ord: "iterates_all P" and s: "snap_inv (w_heap w) snap" "snap_inv (w_heap w) fs"
    and run: "record_drop_locals P gl snap v fs w = Some (Inr (), w')"
    and p: "p \<notin> snap_ptrs fs \<union> snap_ptrs snap" "p \<noteq> am_ptr (gl_null gl)" "p \<noteq> am_ptr (gl_stack gl)"
    and dis: "snap_ptrs snap \<inter> snap_ptrs fs = {}"
  shows "block_size (w_heap w') p = block_size (w_heap w) p"
proof -
  obtain w1 w2 w3 w4 where c: "Snapshot_drop P fs w = Some (Inr (), w1)" "Vcpu_drop P v w1 = Some (Inr (), w2)"
    "Snapshot_drop P snap w2 = Some (Inr (), w3)" "on_heap (AlignedMemory_drop (gl_null gl)) w3 = Some (Inr (), w4)"
    "on_heap (AlignedMemory_drop (gl_stack gl)) w4 = Some (Inr (), w')"
    using run unfolding record_drop_locals_def by (auto elim!: thenE_SomeD)
  have w2: "w_heap w2 = w_heap w1" using c(2) by (auto simp: Vcpu_drop_eq)
  have b1: "\<And>q. q \<notin> snap_ptrs fs \<Longrightarrow> h_blocks (w_heap w1) q = h_blocks (w_heap w) q"
    using Snapshot_drop_ok [OF ord s(2)] c(1) by auto
  have "snap_inv (w_heap w2) snap"
    by (rule snap_frame(1) [OF s(1)]) (use b1 dis w2 in auto)
  then have "h_blocks (w_heap w3) p = h_blocks (w_heap w1) p"
    using Snapshot_drop_ok [OF ord, of w2 snap] c(3) p(1) w2 by auto
  moreover have "h_blocks (w_heap w4) p = h_blocks (w_heap w3) p" "h_blocks (w_heap w') p = h_blocks (w_heap w4) p"
    using c(4,5) p(2,3) by (auto simp: AlignedMemory_drop_def dealloc_def split: option.splits if_splits)
  ultimately show ?thesis using b1 p(1) by (simp add: block_size_def)
qed

context whp_release
begin

text \<open>The state just before the partition is dropped, from the stages of the command.\<close>

lemma record_dropped:
  assumes ord: "iterates_all P" and c1: "record_prepare P goblin target w = Some (Inr (vm, gl, snap, v), w1)"
    and c2: "with_engine (RecordEngine_run P) (RecordEngine_new vm v) (w1\<lparr>w_out := w_out w1 @ [StartingRecordMode]\<rparr>) = Some (Inr eng, w2)"
    and c3: "record_archive P F out gl snap v eng w2 = Some (Inr fs, w3)" and d: "record_drop_locals P gl snap v fs w3 = Some (Inr (), w4)"
    and room: "room (w_hv w)" and inv: "heap_inv (w_heap w)"
    and tgt: "hm_get (w_files w) target = Some data" "goblin data = Inr pe" and l: "l = \<lparr>pl_pe = pe, raw_bytes = data\<rparr>"
    and small: "unat (aligned_size l) \<le> 0xF0000"
  shows "grown (w_heap w) {gl_image gl, pt_host_ptr (gl_tables gl)} (w_heap w4)"
    and "gl_image gl \<noteq> pt_host_ptr (gl_tables gl)" and "block_size (w_heap w4) (gl_image gl) = unat (aligned_size l)"
    and "block_size (w_heap w4) (pt_host_ptr (gl_tables gl)) = 12288"
    and "live (w_hv w3) (vc_partition v) (vc_index v)" and "vp_handle vm = vc_partition v"
    and "w_hv w4 = snd (WHvDeleteVirtualProcessor P (vc_partition v) (vc_index v) (w_hv w3))"
    and "maps_regions (gpas (w_hv w3) (vp_handle vm)) (layout_regions gl)" and "distinct [base_gpa, gl_stack_base gl, 0, pt_gpa]"
    and "h_blocks (w_heap w4) (am_ptr (gl_stack gl)) = None" and "h_blocks (w_heap w4) (am_ptr (gl_null gl)) = None"
proof -
  let ?w1 = "w1\<lparr>w_out := w_out w1 @ [StartingRecordMode]\<rparr>" and ?tb = "pt_host_ptr (gl_tables gl)"
  note own = record_prepare_owns [OF c1 room inv tgt l]
  have prep: "guest_prepared vm gl snap v w1"
    using record_prepare_sound [OF c1 room inv tgt] small unfolding l by blast
  then have fr: "frame v ?w1 w2" using record_run_sound [OF _ c2] by (auto simp: guest_prepared_out)
  have p: "v = \<lparr>vc_partition = vp_handle vm, vc_index = 0\<rparr>" "snap_inv (w_heap w1) snap"
    "maps_regions (gpas (w_hv w1) (vp_handle vm)) (layout_regions gl)" "distinct [base_gpa, gl_stack_base gl, 0, pt_gpa]"
    using prep unfolding guest_prepared_def by blast+
  have f: "same_shape (w_heap w1) (w_heap w2)" "heap_inv (w_heap w2)" "live (w_hv w2) (vc_partition v) (vc_index v)"
    "\<And>q. q \<notin> mapped_ptrs (gpas (w_hv w1) (vc_partition v)) \<Longrightarrow> h_blocks (w_heap w2) q = h_blocks (w_heap w1) q"
    "gpas (w_hv w2) (vc_partition v) = gpas (w_hv w1) (vc_partition v)"
    using fr by (simp_all add: keeps_def)
  have sub: "mapped_ptrs (gpas (w_hv w1) (vc_partition v)) \<subseteq> guest_ptrs gl"
    using mapped_ptrs_regions [OF p(3)] region_ptrs_layout p(1) by auto
  have g2: "grown (w_heap w) (guest_ptrs gl \<union> snap_ptrs snap) (w_heap w2)"
    by (rule grown_store [OF conjunct1 [OF own] f(1)]) (use f(4) sub in blast)
  note g3 = record_archive_owns [OF c3 f(3,2)]
  note t3 = grown_trans [OF g2 conjunct1 [OF g3]]
  have s2: "snap_inv (w_heap w2) snap" by (rule snap_inv_shape [OF f(1) p(2)])
  have s3: "snap_inv (w_heap w3) snap"
    by (rule snap_frame(1) [OF s2]) (use grown_old [OF conjunct1 [OF g3]] snap_ptrs_allocated [OF s2] in blast)
  have sz: "block_size (w_heap w4) q = block_size (w_heap w1) q" if "q \<in> {gl_image gl, ?tb}" for q
  proof -
    have q: "q \<in> guest_ptrs gl" "q \<noteq> am_ptr (gl_null gl)" "q \<noteq> am_ptr (gl_stack gl)" "q \<notin> snap_ptrs fs \<union> snap_ptrs snap"
      using that own t3 by (auto simp: guest_ptrs_def)
    have "heap_content (w_heap w2) q \<noteq> None" using g2 q(1) by (auto simp: grown_def heap_content_def)
    then have "block_size (w_heap w3) q = block_size (w_heap w1) q"
      using grown_size [OF conjunct1 [OF g3]] block_size_shape [OF f(1)] by simp
    then show ?thesis
      using record_drop_sizes [OF ord s3 _ d q(4,2,3)] g3 t3 by auto
  qed
  have g4: "grown (w_heap w) {gl_image gl, ?tb} (w_heap w4)
      \<and> w_hv w4 = snd (WHvDeleteVirtualProcessor P (vc_partition v) (vc_index v) (w_hv w3))"
    by (rule record_drop_owns [OF ord conjunct1 [OF t3] _ _ _ s3 _ d]) (use own t3 g3 in auto)
  show "grown (w_heap w) {gl_image gl, ?tb} (w_heap w4)" "gl_image gl \<noteq> ?tb" "block_size (w_heap w4) (gl_image gl) = unat (aligned_size l)"
    "block_size (w_heap w4) ?tb = 12288" "live (w_hv w3) (vc_partition v) (vc_index v)" "vp_handle vm = vc_partition v"
    "w_hv w4 = snd (WHvDeleteVirtualProcessor P (vc_partition v) (vc_index v) (w_hv w3))"
    "maps_regions (gpas (w_hv w3) (vp_handle vm)) (layout_regions gl)" "distinct [base_gpa, gl_stack_base gl, 0, pt_gpa]"
    using g4 own sz f(3,5) g3 p by simp_all
  have "q \<in> guest_ptrs gl \<Longrightarrow> q \<notin> {gl_image gl, ?tb} \<Longrightarrow> h_blocks (w_heap w4) q = None" for q
    using grown_released [OF conjunct1 [OF g4]] grown_new [OF g2] by blast
  then show "h_blocks (w_heap w4) (am_ptr (gl_stack gl)) = None" "h_blocks (w_heap w4) (am_ptr (gl_null gl)) = None"
    using own by (auto simp: guest_ptrs_def)
qed

lemma record_owns:
  assumes ord: "iterates_all P" and run: "cli_record P goblin F target out w = Some (Inr (), w')"
    and room: "room (w_hv w)" and inv: "heap_inv (w_heap w)"
    and tgt: "hm_get (w_files w) target = Some data" "goblin data = Inr pe" and l: "l = \<lparr>pl_pe = pe, raw_bytes = data\<rparr>"
    and small: "unat (aligned_size l) \<le> 0xF0000"
  obtains vm v h h' img tables where "live h (vc_partition v) (vc_index v)" and "vp_handle vm = vc_partition v"
    and "WHvCreatePartition P (w_hv w) = (Inr (vp_handle vm), h')"
    and "w_hv w' = close_hv P vm v h" and "img \<noteq> tables" and "grown (w_heap w) {img, tables} (w_heap w')"
    and "block_size (w_heap w') img = unat (aligned_size l)" and "block_size (w_heap w') tables = 12288"
proof -
  obtain vm gl snap v w1 eng w2 fs w3 where
    c1: "record_prepare P goblin target w = Some (Inr (vm, gl, snap, v), w1)" and
    c2: "with_engine (RecordEngine_run P) (RecordEngine_new vm v) (w1\<lparr>w_out := w_out w1 @ [StartingRecordMode]\<rparr>) = Some (Inr eng, w2)" and
    c3: "record_archive P F out gl snap v eng w2 = Some (Inr fs, w3)" and
    c4: "record_drop P vm gl snap v fs w3 = Some (Inr (), w')"
    by (rule cli_record_stages [OF run])
  obtain h' where cr: "WHvCreatePartition P (w_hv w) = (Inr (vp_handle vm), h')"
    using record_partition [OF c1] created_handle by metis
  obtain w4 where d: "record_drop_locals P gl snap v fs w3 = Some (Inr (), w4)"
    "w' = w4\<lparr>w_hv := snd (WHvDeletePartition P (vp_handle vm) (w_hv w4))\<rparr>"
    using c4 handle_not_null [OF cr] by (auto simp: record_drop_def VmPartition_drop_eq elim!: thenE_SomeD)
  note f = record_dropped [OF ord c1 c2 c3 d(1) room inv tgt l small]
  show ?thesis
    by (rule that [OF f(5,6) cr _ f(2)]) (use f(1,3,4,7) in \<open>simp_all add: d(2) close_hv_def\<close>)
qed

section \<open>Record, then replay as often as one likes\<close>

text \<open>A replay gives back the host memory and the partition and writes no file, so another one can follow.\<close>

lemma replay_leaves_host:
  assumes F: "binary_format F" and ord: "iterates_all P"
    and run: "cli_record P goblin F target out w = Some (Inr (), w')" and room: "room (w_hv w)" and inv: "heap_inv (w_heap w)"
    and tgt: "hm_get (w_files w) target = Some data" "goblin data = Inr pe"
    and small: "unat (aligned_size \<lparr>pl_pe = pe, raw_bytes = data\<rparr>) \<le> 0xF0000"
    and few: "\<And>a es ctx a'. boots_as regs0 rest0 \<lparr>pl_pe = pe, raw_bytes = data\<rparr> a \<Longrightarrow>
      abs_record guest reject (overflow_checks P) 0 a es ctx a' \<Longrightarrow> length es < 2 ^ 64"
    and u: "hm_get (w_files u) trace = hm_get (w_files w') out" "room (w_hv u)" "heap_inv (w_heap u)"
      "unat (aligned_size \<lparr>pl_pe = pe, raw_bytes = data\<rparr>) + 0x14000 \<le> h_avail (w_heap u)"
  obtains u' out where "cli_replay P F trace u = Some (Inr (), u')" and "grown (w_heap u) {} (w_heap u')" and "room (w_hv u')"
    and "w_files u' = w_files u" and "w_out u' = w_out u @ out @ [VerificationSuccess]"
proof (rule recorded_archive_restores [OF F ord run room inv tgt small few u])
  fix s es ctx a' C vm v r u1
  assume p: "replay_prepare P F trace u = Some (Inr (s, es, state_hash (map (a_regs a') capture_names) C, vm, v, r), u1)"
    "replays_on vm v r" "live (w_hv u1) (vc_partition v) (vc_index v)" "heap_inv (w_heap u1)" "snap_inv (w_heap u1) s"
    "maps_regions (gpas (w_hv u1) (vc_partition v)) (snap_regions s)"
    "abs_record guest reject (overflow_checks P) 0 (arch v u1) es ctx a'" "mem_matches (a_mem a') C"
    "\<And>g. map_option length (C g) = sizes (snap_regions s) g"
  obtain u' where u': "cli_replay P F trace u = Some (Inr (), u')"
    using replay_finish [OF ord p(7,2) _ p(5,6,8,9) refl p(1)] p(3,4) by blast
  have nz: "vp_handle vm \<noteq> 0"
    using replay_prepare_owns [OF u(3) p(1)] created_handle handle_not_null by metis
  obtain h where h: "live h (vc_partition v) (vc_index v)" "w_hv u' = close_hv P vm v h" "grown (w_heap u) {} (w_heap u')"
    using replay_owns [OF ord u(3) p(1) u' p(2,3,6) nz] by blast
  have "room (w_hv u')" using closed [OF h(1), of vm] h(2) p(2) by (simp add: replays_on_def)
  moreover have "w_files u' = w_files u" by (rule reportsD [OF reports_cli_replay u'])
  moreover obtain out e1 e2 where "w_out u' = w_out u @ out @ [e1, e2, VerificationSuccess]"
    using cli_replay_output [OF u'] by blast
  then have "w_out u' = w_out u @ (out @ [e1, e2]) @ [VerificationSuccess]" by simp
  ultimately show thesis using that u' h(3) by blast
qed

lemma replays_leave_host:
  assumes F: "binary_format F" and ord: "iterates_all P"
    and run: "cli_record P goblin F target out w = Some (Inr (), w')" and room: "room (w_hv w)" and inv: "heap_inv (w_heap w)"
    and tgt: "hm_get (w_files w) target = Some data" "goblin data = Inr pe"
    and small: "unat (aligned_size \<lparr>pl_pe = pe, raw_bytes = data\<rparr>) \<le> 0xF0000"
    and few: "\<And>a es ctx a'. boots_as regs0 rest0 \<lparr>pl_pe = pe, raw_bytes = data\<rparr> a \<Longrightarrow>
      abs_record guest reject (overflow_checks P) 0 a es ctx a' \<Longrightarrow> length es < 2 ^ 64"
    and u: "hm_get (w_files u) trace = hm_get (w_files w') out" "room (w_hv u)" "heap_inv (w_heap u)"
      "unat (aligned_size \<lparr>pl_pe = pe, raw_bytes = data\<rparr>) + 0x14000 \<le> h_avail (w_heap u)"
  shows "\<exists>u'. for_each (replicate n trace) (cli_replay P F) u = Some (Inr (), u') \<and> grown (w_heap u) {} (w_heap u')
    \<and> room (w_hv u') \<and> w_files u' = w_files u \<and> count_list (w_out u') VerificationSuccess \<ge> count_list (w_out u) VerificationSuccess + n"
  using u
proof (induction n arbitrary: u)
  case 0
  then show ?case by (auto simp: ret_def)
next
  case (Suc n)
  obtain u1 o1 where u1: "cli_replay P F trace u = Some (Inr (), u1)" "grown (w_heap u) {} (w_heap u1)" "room (w_hv u1)"
    "w_files u1 = w_files u" "w_out u1 = w_out u @ o1 @ [VerificationSuccess]"
    by (rule replay_leaves_host [OF F ord run room inv tgt small few Suc.prems])
  obtain u2 where u2: "for_each (replicate n trace) (cli_replay P F) u1 = Some (Inr (), u2)" "grown (w_heap u1) {} (w_heap u2)"
    "room (w_hv u2)" "w_files u2 = w_files u1" "count_list (w_out u2) VerificationSuccess \<ge> count_list (w_out u1) VerificationSuccess + n"
    using Suc.IH [of u1] Suc.prems u1 grown_nothing [OF u1(2)] grown_inv [OF u1(2)] by auto
  then show ?case
    using u1 grown_trans [OF u1(2) u2(2)] by (auto simp: thenE_step)
qed

end

end
