(* ===== verification/Release_Properties.thy ===== *)
theory Release_Properties
  imports Cli_Release End_To_End
begin

text \<open>
  Properties of what the commands do to the machine they run on: what they leave allocated, what
  they leave mapped, which files they write, and that one recording can be replayed again and again.
\<close>

interpretation app_release: whp_release app_platform ref_live ref_regs ref_gpas ref_exits "ref_rest (guest_state0 (app_start True))"
    "\<lambda>_ _. None" "run_prog guest_prog" ref_room ref_created ref_idle reset_regs "guest_state0 (app_start True)" ref_present
  unfolding app_platform_def by (rule ref_release.whp_release_axioms)

section \<open>Record\<close>

lemma app_handle: "fst (WHvCreatePartition app_platform (w_hv app_world)) = Inr 1"
proof -
  have h: "w_hv app_world = \<lparr>hv_parts = Map.empty, hv_next = 1, hv_room = 1\<rparr>" by (simp add: app_world_def)
  show ?thesis unfolding h app_platform_def ref_platform_def by (simp add: ref_create_def ref_handle_def)
qed

lemma maps_regions_start:
  assumes "maps_regions m R" and "R g = Some (p, n)" and "0 < n"
  shows "m g = Some (p, 0, 7)"
proof -
  have "m (g + of_nat 0) = Some (p, 0, 7)" using assms unfolding maps_regions_def by blast
  then show ?thesis by simp
qed

text \<open>
  C9. A returned \<open>record\<close> has released everything it took but two allocations: the image
  and the page tables, which have no owner. Every other allocation is as it was before, and the
  partition it created is gone, so that another one can be created.
\<close>

theorem record_leaves_image_and_tables:
  assumes whp: "whp_release P live regs gpas exits rest reject guest room created idle regs0 rest0 present"
    and ord: "iterates_all P" and run: "main P goblin F (Record target out) w = Some (Inr (), w')"
    and w: "room (w_hv w)" "heap_inv (w_heap w)"
    and tgt: "hm_get (w_files w) target = Some data" "goblin data = Inr pe" and l: "l = \<lparr>pl_pe = pe, raw_bytes = data\<rparr>"
    and small: "unat (aligned_size l) \<le> 0xF0000"
  shows "\<exists>img tables p h. img \<noteq> tables \<and> {img, tables} \<subseteq> dom (h_blocks (w_heap w'))
    \<and> h_blocks (w_heap w) = (h_blocks (w_heap w'))(img := None, tables := None)
    \<and> h_avail (w_heap w') + unat (aligned_size l) + 12288 = h_avail (w_heap w) \<and> heap_inv (w_heap w')
    \<and> WHvCreatePartition P (w_hv w) = (Inr p, h) \<and> \<not> present (w_hv w') p \<and> room (w_hv w')"
proof -
  have run': "cli_record P goblin F target out w = Some (Inr (), w')" using run by (simp add: main_def)
  show ?thesis
  proof (rule whp_release.record_owns [OF whp ord run' w tgt l small])
    fix vm v h h' img tables
    assume a: "live h (vc_partition v) (vc_index v)" "vp_handle vm = vc_partition v"
      "WHvCreatePartition P (w_hv w) = (Inr (vp_handle vm), h')" "w_hv w' = close_hv P vm v h" "img \<noteq> tables"
      "grown (w_heap w) {img, tables} (w_heap w')" "block_size (w_heap w') img = unat (aligned_size l)"
      "block_size (w_heap w') tables = 12288"
    have "h_blocks (w_heap w) = (h_blocks (w_heap w'))(img := None, tables := None)"
      unfolding grown_blocks [OF a(6)] by (auto simp: restrict_map_def)
    moreover have "\<not> present (w_hv w') (vp_handle vm) \<and> room (w_hv w')"
      using whp_release.closed [OF whp a(1,2)] a(4) by simp
    ultimately show ?thesis
      using a(3,5-8)
      by - (rule exI [of _ img], rule exI [of _ tables], rule exI [of _ "vp_handle vm"], rule exI [of _ h'], simp add: grown_def)
  qed
qed

theorem record_leaves_image_and_tables_witness:
  "\<exists>w'. main app_platform app_goblin bincode_ref (Record ''target_app.exe'' ''trace.bin'') app_world = Some (Inr (), w')
    \<and> h_avail (w_heap w') + 0x5000 = h_avail (w_heap app_world) \<and> \<not> ref_present (w_hv w') 1 \<and> card (dom (h_blocks (w_heap w'))) = 2"
proof -
  obtain w' where "cli_record app_platform app_goblin bincode_ref ''target_app.exe'' ''trace.bin'' app_world = Some (Inr (), w')"
    by (rule app_records)
  then have w': "main app_platform app_goblin bincode_ref (Record ''target_app.exe'' ''trace.bin'') app_world = Some (Inr (), w')"
    by (simp add: main_def)
  obtain img tables p h where a: "img \<noteq> tables" "{img, tables} \<subseteq> dom (h_blocks (w_heap w'))"
    "h_blocks (w_heap app_world) = (h_blocks (w_heap w'))(img := None, tables := None)"
    "h_avail (w_heap w') + unat (aligned_size app_loader) + 12288 = h_avail (w_heap app_world)"
    "WHvCreatePartition app_platform (w_hv app_world) = (Inr p, h)" "\<not> ref_present (w_hv w') p"
    using record_leaves_image_and_tables [OF app_release.whp_release_axioms app_world_ok(5) w' app_world_ok(1,2,4) app_input(1-3)]
    by (elim exE conjE)
  have "p = 1" using app_handle unfolding a(5) by simp
  moreover have "h_blocks (w_heap w') q = None" if "q \<notin> {img, tables}" for q
    using fun_cong [OF a(3), of q] that by (simp add: app_world_def)
  then have "dom (h_blocks (w_heap w')) \<subseteq> {img, tables}" by force
  then have "dom (h_blocks (w_heap w')) = {img, tables}" using a(2) by (rule equalityI)
  ultimately show ?thesis using w' a(1,4,6) by (simp add: app_size(1))
qed



section \<open>Replay\<close>



text \<open>
  C5. A recording can be replayed any number of times on the machine that made it: each replay
  returns and reports success, and afterwards host memory, files and room for partitions are as
  the recording left them.
\<close>

theorem replay_again_and_again:
  assumes whp: "whp_release P live regs gpas exits rest reject guest room created idle regs0 rest0 present"
    and F: "binary_format F" and ord: "iterates_all P" and fs: "fs_writable P out"
    and w: "room (w_hv w)" "heap_inv (w_heap w)"
    and tgt: "hm_get (w_files w) target = Some data" "goblin data = Inr pe"
    and l: "l = \<lparr>pl_pe = pe, raw_bytes = data\<rparr>"
    and sz: "aligned_size l \<noteq> 0" "unat (aligned_size l) \<le> 0xF0000"
    and ok: "\<forall>s \<in> set (pe_sections pe). section_ok (unat (aligned_size l)) (length data) s"
    and acc: "boot_accepted reject l"
    and av: "3 * (unat (aligned_size l) + 0x14000) \<le> h_avail (w_heap w)"
    and stops: "\<forall>a. boots_as regs0 rest0 l a \<longrightarrow>
      (\<exists>es ctx a'. abs_record guest reject (overflow_checks P) 0 a es ctx a' \<and> length es < 2 ^ 64)"
  shows "\<exists>w' u. main P goblin F (Record target out) w = Some (Inr (), w')
    \<and> for_each (replicate n (Replay out)) (main P goblin F) w' = Some (Inr (), u)
    \<and> h_blocks (w_heap u) = h_blocks (w_heap w') \<and> h_avail (w_heap u) = h_avail (w_heap w') \<and> w_files u = w_files w' \<and> room (w_hv u)
    \<and> count_list (w_out u) VerificationSuccess \<ge> n"
proof -
  have boot: "whp_boot P live regs gpas exits rest reject guest room created idle regs0 rest0"
    using whp by (simp add: whp_release_def)
  have st: "\<exists>es ctx a'. abs_record guest reject (overflow_checks P) 0 a es ctx a'" if "boots_as regs0 rest0 l a" for a
    using stops that by blast
  obtain w' where w': "cli_record P goblin F target out w = Some (Inr (), w')"
    using whp_boot.cli_record_returns [OF boot ord fs w, of target data goblin pe l, OF tgt l sz ok acc av st] by blast
  have few: "length es < 2 ^ 64"
    if "boots_as regs0 rest0 \<lparr>pl_pe = pe, raw_bytes = data\<rparr> a" "abs_record guest reject (overflow_checks P) 0 a es ctx a'"
    for a es ctx a'
    using stops that abs_record_unique [OF that(2)] unfolding l by blast
  have h: "room (w_hv w') \<and> heap_inv (w_heap w') \<and> unat (aligned_size l) + 0x14000 \<le> h_avail (w_heap w')"
  proof (rule whp_release.record_owns [OF whp ord w' w tgt l sz(2)])
    fix vm v h h' img tables
    assume a: "live h (vc_partition v) (vc_index v)" "vp_handle vm = vc_partition v" "w_hv w' = close_hv P vm v h" "img \<noteq> tables"
      "grown (w_heap w) {img, tables} (w_heap w')" "block_size (w_heap w') img = unat (aligned_size l)" "block_size (w_heap w') tables = 12288"
    then show ?thesis
      using whp_release.closed [OF whp a(1,2)] grown_inv [OF a(5)] grown_avail [OF a(5)] av by simp
  qed
  obtain u where u: "for_each (replicate n out) (cli_replay P F) w' = Some (Inr (), u)" "grown (w_heap w') {} (w_heap u)"
    "room (w_hv u)" "w_files u = w_files w'" "count_list (w_out u) VerificationSuccess \<ge> count_list (w_out w') VerificationSuccess + n"
    using whp_release.replays_leave_host [where n = n, OF whp F ord w' w tgt sz(2) [unfolded l] _ refl] h few unfolding l by blast
  have "for_each (replicate n (Replay out)) (main P goblin F) = for_each (replicate n out) (cli_replay P F)"
    by (induction n) (simp_all add: main_def)
  then show ?thesis
    using w' u grown_nothing [OF u(2)]
    by - (rule exI [of _ w'], rule exI [of _ u], simp add: main_def)
qed

theorem replay_again_and_again_witness:
  "\<exists>w' u. main app_platform app_goblin bincode_ref (Record ''target_app.exe'' ''trace.bin'') app_world = Some (Inr (), w')
    \<and> for_each (replicate 3 (Replay ''trace.bin'')) (main app_platform app_goblin bincode_ref) w' = Some (Inr (), u)
    \<and> h_blocks (w_heap u) = h_blocks (w_heap w') \<and> count_list (w_out u) VerificationSuccess \<ge> 3"
  using replay_again_and_again [where goblin = app_goblin and n = 3 and out = "''trace.bin''" and w = app_world, OF app_release.whp_release_axioms
      bincode_ref.binary_format_axioms app_world_ok(5,6,1,2,4) app_input(1,2) app_size(2) app_input(3,6,4,5)] app_guest_stops by blast

section \<open>The replay engine\<close>

text \<open>
  C21. Replaying cannot damage the host, even with a trace that does not belong to the guest:
  whatever the events are and however the replay ends, every allocation that is not mapped into the
  guest keeps its contents, and the mapping, the files and the sizes of all allocations are unchanged.
\<close>

theorem replay_isolates_host:
  assumes whp: "whp_contract P live regs gpas exits rest reject guest" and r: "replays_on p v r"
    and rd: "live (w_hv w) (vc_partition v) (vc_index v)" "heap_inv (w_heap w)"
    and run: "for_each es (replay_event P r) w = Some (res, w')"
  shows "heap_inv (w_heap w') \<and> live (w_hv w') (vc_partition v) (vc_index v)
    \<and> w_files w' = w_files w \<and> gpas (w_hv w') (vc_partition v) = gpas (w_hv w) (vc_partition v)
    \<and> same_shape (w_heap w) (w_heap w')
    \<and> (\<forall>q. h_blocks (w_heap w') q = h_blocks (w_heap w) q \<or> q \<in> mapped_ptrs (gpas (w_hv w) (vc_partition v)))"
proof -
  have "whp_contract.framed live gpas v (for_each es (replay_event P r))"
    by (intro whp_contract.framed_for_each [OF whp] whp_contract.framed_replay_event [OF whp r])
  then have "keeps live gpas v w w'"
    using whp_contract.framedD [OF whp] rd run by blast
  then show ?thesis unfolding keeps_def by blast
qed

text \<open>
  C33. A system call in the trace is never injected: no exit of the guest leads to it. The event
  ends at the first exit that ends any event, and the processor is then where it would be without a
  trace: some runs of the guest further.
\<close>

theorem syscall_events_not_injected:
  assumes whp: "whp_contract P live regs gpas exits rest reject guest" and r: "replays_on p v r"
    and rd: "live (w_hv w) (vc_partition v) (vc_index v)" "heap_inv (w_heap w)"
    and ev: "event ev = Syscall rax writes" and run: "replay_event P r ev w = Some (Inr (), w')"
  shows "(\<lambda>a a'. \<exists>ctx. guest a = Some (Inr ctx, a'))\<^sup>+\<^sup>+
    (arch_of regs gpas exits rest v (w_heap w) (w_hv w)) (arch_of regs gpas exits rest v (w_heap w') (w_hv w'))"
  using whp_contract.replay_event_syscall [OF whp _ r ev run] rd
  unfolding whp_contract.guest_step_def [OF whp, abs_def] by blast

text \<open>A system call that meets a guest about to halt.\<close>

definition late_syscall :: TraceEvent where
  "late_syscall = \<lparr>instruction_count = 0, event = Syscall 5 [(0, [1, 2])]\<rparr>"

definition demo_engine :: ReplayEngine where
  "demo_engine = register_vcpu 0 demo_vcpu (ReplayEngine_new demo_partition 0)"

lemma late_syscall_consumed:
  obtains w' where "replay_event demo_platform demo_engine late_syscall (demo_at 7) = Some (Inr (), w')"
proof -
  have "ExitReason (demo_ctx 8) \<in> {1, 8}" by (simp add: demo_ctx_def)
  then show ?thesis
    using demo.replay_event_halt [OF conjI [OF demo_at_ready] demo_replays demo_at_exit [of 7 8], of late_syscall] that
    by (auto simp: demo_engine_def)
qed

theorem replay_isolates_host_witness:
  "\<exists>w'. for_each [late_syscall] (replay_event demo_platform demo_engine) (demo_at 7) = Some (Inr (), w')
    \<and> w_files w' = w_files (demo_at 7) \<and> same_shape (w_heap (demo_at 7)) (w_heap w')"
proof -
  obtain w' where "replay_event demo_platform demo_engine late_syscall (demo_at 7) = Some (Inr (), w')"
    by (rule late_syscall_consumed)
  then have w': "for_each [late_syscall] (replay_event demo_platform demo_engine) (demo_at 7) = Some (Inr (), w')"
    by (simp add: thenE_step ret_def)
  then show ?thesis
    using replay_isolates_host [OF demo.whp_contract_axioms demo_replays [folded demo_engine_def] demo_at_ready w'] by blast
qed

theorem syscall_events_not_injected_witness:
  "\<exists>w'. replay_event demo_platform demo_engine late_syscall (demo_at 7) = Some (Inr (), w')
    \<and> (\<lambda>a a'. \<exists>ctx. run_prog demo_guest a = Some (Inr ctx, a'))\<^sup>+\<^sup>+ (demo_arch (demo_at 7)) (demo_arch w')"
proof -
  obtain w' where w': "replay_event demo_platform demo_engine late_syscall (demo_at 7) = Some (Inr (), w')"
    by (rule late_syscall_consumed)
  have "event late_syscall = Syscall 5 [(0, [1, 2])]" by (simp add: late_syscall_def)
  from syscall_events_not_injected [OF demo.whp_contract_axioms demo_replays [folded demo_engine_def] demo_at_ready this w']
  show ?thesis using w' by blast
qed

end
