(* ===== verification/Memory_Safety.thy ===== *)
theory Memory_Safety
  imports Cli_Completes Heap_Ownership
begin

text \<open>
  Memory safety of the commands: where \<open>unsafe\<close> code can leave its contract and where it cannot.
  The triple \<open>safe U A m B\<close> says that \<open>m\<close>, started in a state with \<open>A\<close>, reaches no undefined
  behaviour but that of \<open>U\<close>, and returns normally only with \<open>B\<close>. Nothing is assumed of the
  hypervisor but that it neither allocates nor releases memory of the host process (locale
  \<open>whp_spares\<close>): every call may fail, and the guest may do what it likes.
\<close>

section \<open>Triples\<close>

definition allowed :: "ub set \<Rightarrow> failure \<Rightarrow> bool" where
  "allowed U f \<longleftrightarrow> (\<forall>u. f = Undefined u \<longrightarrow> u \<in> U)"

lemma allowed_simps [simp]: "allowed U (WinErr e)" "allowed U CodecErr" "allowed U (Panic p)"
  "allowed U (Undefined u) \<longleftrightarrow> u \<in> U"
  by (simp_all add: allowed_def)

definition safe :: "ub set \<Rightarrow> ('s \<Rightarrow> bool) \<Rightarrow> ('s, 'a) cmd \<Rightarrow> ('a \<Rightarrow> 's \<Rightarrow> bool) \<Rightarrow> bool" where
  "safe U A m B \<longleftrightarrow> (\<forall>s r t. A s \<longrightarrow> m s = Some (r, t) \<longrightarrow> (case r of Inl f \<Rightarrow> allowed U f | Inr x \<Rightarrow> B x t))"

lemma safeI:
  assumes "\<And>s f t. A s \<Longrightarrow> m s = Some (Inl f, t) \<Longrightarrow> allowed U f" and "\<And>s x t. A s \<Longrightarrow> m s = Some (Inr x, t) \<Longrightarrow> B x t"
  shows "safe U A m B"
  using assms unfolding safe_def by (auto split: sum.splits)

lemma safe_failure: "safe U A m B \<Longrightarrow> A s \<Longrightarrow> m s = Some (Inl f, t) \<Longrightarrow> allowed U f"
  unfolding safe_def by fastforce

lemma safe_result: "safe U A m B \<Longrightarrow> A s \<Longrightarrow> m s = Some (Inr x, t) \<Longrightarrow> B x t"
  unfolding safe_def by fastforce

lemma safe_bindE:
  assumes "safe U A m B" and "\<And>x. safe U (B x) (f x) C"
  shows "safe U A (bindE m f) C"
  using assms unfolding safe_def by (fastforce simp: bindE_def split: option.splits sum.splits)

lemma safe_thenE: "safe U A m (\<lambda>_. B) \<Longrightarrow> safe U B n C \<Longrightarrow> safe U A (thenE m n) C"
  unfolding thenE_def by (rule safe_bindE) simp_all

lemma safe_ret: "(\<And>s. A s \<Longrightarrow> B x s) \<Longrightarrow> safe U A (ret x) B"
  by (simp add: safe_def ret_def)

lemma safe_expect_ok: "safe U A m B \<Longrightarrow> safe U A (expect_ok msg m) B"
  unfolding safe_def by (fastforce simp: expect_ok_def split: option.splits sum.splits failure.splits)

lemma safe_pre: "safe U A m B \<Longrightarrow> (\<And>s. A' s \<Longrightarrow> A s) \<Longrightarrow> safe U A' m B"
  unfolding safe_def by blast

section \<open>Commands that keep the allocations\<close>

text \<open>
  A steady command reaches no undefined behaviour and leaves the set and the sizes of the host
  allocations as they are; \<open>h\<close> picks the heap out of the state.
\<close>

definition steady :: "('s \<Rightarrow> heap) \<Rightarrow> ('s, 'a) cmd \<Rightarrow> bool" where
  "steady h m \<longleftrightarrow> (\<forall>s r t. m s = Some (r, t) \<longrightarrow> same_shape (h s) (h t) \<and> (\<forall>u. r \<noteq> Inl (Undefined u)))"

lemma steadyI: "(\<And>s r t. m s = Some (r, t) \<Longrightarrow> same_shape (h s) (h t) \<and> (\<forall>u. r \<noteq> Inl (Undefined u))) \<Longrightarrow> steady h m"
  unfolding steady_def by blast

lemma steadyD: "steady h m \<Longrightarrow> m s = Some (r, t) \<Longrightarrow> same_shape (h s) (h t) \<and> (\<forall>u. r \<noteq> Inl (Undefined u))"
  unfolding steady_def by blast

lemma steady_safe:
  assumes "steady h m" and "\<And>x s t. A s \<Longrightarrow> same_shape (h s) (h t) \<Longrightarrow> B x t"
  shows "safe U A m B"
  by (rule safeI) (use steadyD [OF assms(1)] assms(2) in \<open>auto simp: allowed_def\<close>)

lemma steady_basic: "steady h (ret x)" "(\<And>u. e \<noteq> Undefined u) \<Longrightarrow> steady h (raise e)" "steady h (add_u64 c a b)"
  "steady h (assert_that cond)" "steady h (expect_some msg opt)"
  by (auto simp: steady_def ret_def raise_def add_u64_def assert_that_def expect_some_def same_shape_refl
      split: option.splits if_splits)

lemma steady_world: "steady w_heap (println msg)" "steady w_heap (call_hv f)" "steady w_heap (ignore_hv f)"
  by (auto simp: steady_def println_def call_hv_def ignore_hv_def same_shape_refl split: prod.splits sum.splits)

lemma steady_bindE:
  assumes m: "steady h m" and f: "\<And>x. steady h (f x)"
  shows "steady h (bindE m f)"
proof (rule steadyI)
  fix s r t
  assume run: "bindE m f s = Some (r, t)"
  then consider (failed) e where "m s = Some (Inl e, t)" "r = Inl e" | (ok) x s1 where "m s = Some (Inr x, s1)" "f x s1 = Some (r, t)"
    by (auto simp: bindE_def split: option.splits sum.splits)
  then show "same_shape (h s) (h t) \<and> (\<forall>u. r \<noteq> Inl (Undefined u))"
  proof cases
    case failed
    then show ?thesis using steadyD [OF m] by blast
  next
    case ok
    then show ?thesis using steadyD [OF m ok(1)] steadyD [OF f ok(2)] same_shape_trans by blast
  qed
qed

lemma steady_thenE: "steady h m \<Longrightarrow> steady h n \<Longrightarrow> steady h (thenE m n)"
  unfolding thenE_def by (rule steady_bindE)

lemma steady_for_each: "(\<And>x. steady h (f x)) \<Longrightarrow> steady h (for_each xs f)"
  by (induction xs) (simp_all add: steady_basic steady_thenE)

lemma steady_expect_ok: "steady h m \<Longrightarrow> steady h (expect_ok msg m)"
  unfolding steady_def by (fastforce simp: expect_ok_def split: option.splits sum.splits failure.splits)

lemma steady_attempt: "steady h m \<Longrightarrow> steady h (attempt m)"
  unfolding steady_def by (fastforce simp: attempt_def split: option.splits sum.splits failure.splits)

lemma steady_on_fst: "steady h m \<Longrightarrow> steady (h \<circ> fst) (on_fst m)"
  unfolding steady_def by (fastforce simp: on_fst_def split: option.splits)

lemma steady_log: "steady (h \<circ> fst) (record_log ev)"
  by (auto simp: steady_def record_log_def modify_def same_shape_refl)

lemmas steady_intros = steady_bindE steady_thenE steady_for_each steady_expect_ok steady_attempt steady_on_fst steady_log
  steady_basic steady_world

lemma steady_registers: "steady w_heap (get_registers P v ns vs)" "steady w_heap (set_registers P v ns vs)"
  "steady w_heap (capture_registers P v ns s)"
  unfolding get_registers_def set_registers_def capture_registers_def by (auto intro!: steady_intros)

lemma steady_machine: "steady w_heap (VmPartition_new P)" "steady w_heap (configure_interceptions P vm)"
  "steady w_heap (Vcpu_new P p i)" "steady w_heap (setup_long_mode P v g)" "steady w_heap (map_gpa_range P ept g q n fl)"
  "steady w_heap (Vcpu_drop P v)" "steady w_heap (VmPartition_drop P vm)"
  unfolding VmPartition_new_def configure_interceptions_def Vcpu_new_def setup_long_mode_def map_gpa_range_def
    Vcpu_drop_def VmPartition_drop_def
  by (auto intro!: steady_intros steady_registers)

lemma steady_boot_vcpu: "steady w_heap (boot_vcpu P vm l gl)"
  unfolding boot_vcpu_def by (intro steady_intros steady_registers steady_machine)

lemma steady_active: "steady h (active_vcpu r)"
  unfolding active_vcpu_def by (rule steady_basic)

lemma steady_restore: "steady w_heap (restore_snapshot P r s ns)"
  unfolding restore_snapshot_def Let_def
  by (auto intro!: steady_intros steady_registers steady_machine steady_active split: option.splits)

lemma steady_exit: "steady w_heap (handle_vm_exit P v res)"
  unfolding handle_vm_exit_def by (auto intro!: steady_intros steady_registers split: sum.splits)

section \<open>The engines\<close>

locale whp_spares =
  fixes P :: "'h platform"
  assumes run_spares: "WHvRunVirtualProcessor P p i (hp, h) = Some (r, hp', h') \<Longrightarrow> same_shape hp hp'"
    and order: "iterates_all P"
begin

lemma steady_run: "steady w_heap (VmRunner_run P x)"
  unfolding VmRunner_run_def
  by (rule steadyI) (auto simp: call_run_def dest: run_spares split: option.splits sum.splits)

lemma steady_replay_event: "steady w_heap (replay_event P r ev)"
proof (rule steadyI)
  fix w res w'
  have step: "steady w_heap (replay_step P r ev)"
    unfolding replay_step_def inject_event_def replay_advance_rip_def write_guest_memory_def Let_def
    by (auto intro!: steady_intros steady_registers steady_active steady_run split: EventType.splits)
  assume "replay_event P r ev w = Some (res, w')"
  then have "replay_runs P r ev w (res, w')" by (simp add: replay_event_iff)
  then show "same_shape (w_heap w) (w_heap w') \<and> (\<forall>u. res \<noteq> Inl (Undefined u))"
  proof (induction w "(res, w')" rule: replay_runs.induct)
    case (failed w e)
    then show ?case using steadyD [OF step failed.hyps(1)] by auto
  next
    case (break w)
    then show ?case using steadyD [OF step break.hyps(1)] by auto
  next
    case (again w w1)
    then show ?case using steadyD [OF step again.hyps(1)] same_shape_trans by blast
  qed
qed

lemma steady_record_step: "steady (w_heap \<circ> fst) (record_step P n)"
proof (rule steadyI)
  fix s r t
  assume "record_step P n s = Some (r, t)"
  moreover have "steady (w_heap \<circ> fst) (bindE (on_fst (VmRunner_run P (re_runner (snd s)))) (\<lambda>ctx.
     if ExitReason ctx = 1 then thenE (on_fst (println (RecordEptViolation (mem_Gpa ctx)))) (ret None)
     else if ExitReason ctx = 8 then
       bindE (on_fst (get_registers P (re_vcpu (snd s)) [Rax] [0])) (\<lambda>values.
       thenE (on_fst (println (GuestHaltedRecord (Reg64 (values ! 0))))) (ret None))
     else if ExitReason ctx = 4097 then record_on_cpuid P (re_vcpu (snd s)) n ctx
     else if ExitReason ctx = 4099 then record_on_rdtsc P (re_vcpu (snd s)) n ctx
     else if ExitReason ctx = 4 then record_on_vmcall P (re_vcpu (snd s)) n
     else thenE (on_fst (println (UnhandledExitRecord (ExitReason ctx)))) (ret None)))"
    unfolding record_on_cpuid_def record_on_rdtsc_def record_on_vmcall_def record_advance_rip_def
    by (auto intro!: steady_intros steady_registers steady_run)
  ultimately show "same_shape ((w_heap \<circ> fst) s) ((w_heap \<circ> fst) t) \<and> (\<forall>u. r \<noteq> Inl (Undefined u))"
    unfolding record_step_def Let_def by (rule steadyD [rotated])
qed

lemma record_runs_shape:
  "record_runs P n s (r, t) \<Longrightarrow> same_shape (w_heap (fst s)) (w_heap (fst t)) \<and> (\<forall>u. r \<noteq> Inl (Undefined u))"
proof (induction n s "(r, t)" rule: record_runs.induct)
  case (failed n s e)
  then show ?case using steadyD [OF steady_record_step failed.hyps(1)] by auto
next
  case (break n s)
  then show ?case using steadyD [OF steady_record_step break.hyps(1)] by auto
next
  case (continue n s m s1)
  then show ?case
    using steadyD [OF steady_record_step continue.hyps(1)] same_shape_trans [of "w_heap (fst s)" "w_heap (fst s1)" "w_heap (fst t)"] by simp
qed

lemma steady_record_run: "steady w_heap (with_engine (RecordEngine_run P) eng)"
proof (rule steadyI)
  fix w res w'
  assume "with_engine (RecordEngine_run P) eng w = Some (res, w')"
  then obtain r eng' where "record_loop P 0 (w, eng) = Some (r, (w', eng'))" "\<And>e. res = Inl e \<Longrightarrow> r = Inl e"
    by (auto simp: with_engine_def RecordEngine_run_def split: option.splits sum.splits)
  then show "same_shape (w_heap w) (w_heap w') \<and> (\<forall>u. res \<noteq> Inl (Undefined u))"
    using record_runs_shape [of 0 "(w, eng)" r "(w', eng')"] by (auto simp: record_loop_iff)
qed

end

section \<open>Buffers\<close>

lemma bindE_fails:
  "bindE m k s = Some (Inl f, t) \<Longrightarrow>
     m s = Some (Inl f, t) \<or> (\<exists>x s'. m s = Some (Inr x, s') \<and> k x s' = Some (Inl f, t))"
  by (auto simp: bindE_def split: option.splits sum.splits)

lemma AlignedMemory_new_failure:
  "AlignedMemory_new sz hp = Some (Inl f, hp') \<Longrightarrow> allowed {ZeroSizeAlloc} f"
  "AlignedMemory_new sz hp = Some (Inl f, hp') \<Longrightarrow> sz \<noteq> 0 \<Longrightarrow> allowed U f"
  by (auto simp: AlignedMemory_new_def alloc_zeroed_def expect_some_def Layout_from_size_align_def assert_that_def
      bindE_def thenE_def ret_def raise_def split: option.splits sum.splits if_splits)

lemma block_size_content: "heap_inv hp \<Longrightarrow> 0 < block_size hp p \<Longrightarrow> \<exists>bs. heap_content hp p = Some bs \<and> length bs = block_size hp p"
  by (auto simp: block_size_def heap_content_def heap_inv_def split: option.splits)

lemma am_inv_drop: "am_inv hp m \<Longrightarrow> \<exists>hp'. AlignedMemory_drop m hp = Some (Inr (), hp')"
  by (auto simp: am_inv_def AlignedMemory_drop_def dealloc_def)

text \<open>Replacing a region releases the buffer that was there.\<close>

lemma snap_drop_old:
  assumes "snap_inv hp s" and "same_shape hp2 hp3" and "\<And>q. q \<in> snap_ptrs s \<Longrightarrow> h_blocks hp2 q = h_blocks hp q"
  shows "(case hm_get (memory_regions s) gpa of None \<Rightarrow> ret () | Some old \<Rightarrow> AlignedMemory_drop old) hp3 \<noteq> Some (Inl f, hp4)"
proof (cases "hm_get (memory_regions s) gpa")
  case (Some old)
  have "snap_inv hp3 s" using snap_inv_shape [OF assms(2) snap_frame(1) [OF assms(1,3)]] .
  then have "am_inv hp3 old" using Some unfolding snap_inv_def by blast
  then show ?thesis using am_inv_drop [of hp3 old] Some by auto
qed (simp add: ret_def)

section \<open>Reading an archive\<close>

text \<open>What a reader of primitives is relied on for: it takes bytes from the front of the input.\<close>

locale shrinking =
  fixes F :: serde_format
  assumes u8_shrinks: "get_u8 F bs = Some (x, bs') \<Longrightarrow> length bs' < length bs"
    and u64_shrinks: "get_u64 F bs = Some (y, bs') \<Longrightarrow> length bs' \<le> length bs"
    and len_shrinks: "get_len F bs = Some (n, bs') \<Longrightarrow> length bs' \<le> length bs"

definition codec_only :: "'a reader \<Rightarrow> bool" where
  "codec_only m \<longleftrightarrow> (\<forall>s f t. m s = Some (Inl f, t) \<longrightarrow> f = CodecErr)"

lemma codec_onlyD: "codec_only m \<Longrightarrow> m s = Some (Inl f, t) \<Longrightarrow> f = CodecErr"
  unfolding codec_only_def by blast

lemma codec_basic: "codec_only (ret x)" "codec_only (raise CodecErr)" "codec_only (read_with g)"
  by (auto simp: codec_only_def ret_def raise_def read_with_def split: option.splits)

lemma codec_bindE: "codec_only m \<Longrightarrow> (\<And>x. codec_only (f x)) \<Longrightarrow> codec_only (bindE m f)"
  unfolding codec_only_def by (fastforce simp: bindE_def split: option.splits sum.splits)

lemma codec_repeat: "codec_only m \<Longrightarrow> codec_only (repeat_cmd n m)"
  by (induction n) (simp_all add: codec_basic codec_bindE)

lemma codec_seq: "codec_only m \<Longrightarrow> codec_only (de_seq F m)"
  unfolding de_seq_def by (intro codec_bindE codec_repeat codec_basic)

lemmas codec_intros = codec_bindE codec_repeat codec_seq codec_basic

lemma codec_parts: "codec_only (de_registers F)" "codec_only (de_TraceEvent F)"
  unfolding de_registers_def de_register_def de_TraceEvent_def de_EventType_def de_write_def
  by (auto intro!: codec_intros)

lemma read_with_Inr: "read_with g (hp, bs) = Some (Inr x, s) \<longleftrightarrow> (\<exists>cs. g bs = Some (x, cs) \<and> s = (hp, cs))"
  by (auto simp: read_with_def split: option.splits)

lemma read_u8s_length:
  assumes "shrinking F" and "repeat_cmd n (read_with (get_u8 F)) (hp, bs) = Some (Inr xs, (hp', bs'))"
  shows "length xs + length bs' \<le> length bs"
  using assms(2)
proof (induction n arbitrary: bs xs hp)
  case (Suc n)
  obtain x cs ys where c: "get_u8 F bs = Some (x, cs)" "repeat_cmd n (read_with (get_u8 F)) (hp, cs) = Some (Inr ys, (hp', bs'))"
    "xs = x # ys"
    using Suc.prems by (auto simp: read_with_Inr ret_Inr elim!: bindE_SomeD)
  have "length cs < length bs" using shrinking.u8_shrinks [OF assms(1) c(1)] .
  then show ?case using Suc.IH [OF c(2)] c(3) by simp
qed (simp add: ret_Inr)

lemma read_bytes_length:
  assumes F: "shrinking F" and run: "de_seq F (read_with (get_u8 F)) (hp, bs) = Some (Inr xs, (hp', bs'))"
  shows "length xs + length bs' \<le> length bs \<and> hp' = hp"
proof -
  obtain n cs where c: "get_len F bs = Some (n, cs)" "repeat_cmd n (read_with (get_u8 F)) (hp, cs) = Some (Inr xs, (hp', bs'))"
    using run unfolding de_seq_def by (auto simp: read_with_Inr elim!: bindE_SomeD)
  have "length cs \<le> length bs" using shrinking.len_shrinks [OF F c(1)] .
  then show ?thesis
    using read_u8s_length [OF F c(2)] heap_freeD [OF heap_free_repeat [OF heap_free_basic(3)] c(2)] by simp
qed

text \<open>A buffer is as long as the bytes it is read from, and only an empty one is a misuse of the allocator.\<close>

lemma de_AlignedMemory_failure:
  assumes F: "shrinking F" and inv: "heap_inv hp" and bs: "length bs < 2 ^ 64"
    and run: "de_AlignedMemory F (hp, bs) = Some (Inl f, t)"
  shows "allowed {ZeroSizeAlloc} f"
proof (rule ccontr)
  assume bad: "\<not> allowed {ZeroSizeAlloc} f"
  then have "f \<noteq> CodecErr" by auto
  then obtain xs cs where x: "de_seq F (read_with (get_u8 F)) (hp, bs) = Some (Inr xs, (hp, cs))"
    and r: "bindE (on_fst (AlignedMemory_new (of_nat (length xs)))) (\<lambda>mem.
      thenE (on_fst (copy_from_slice xs (am_ptr mem) 0 (length xs))) (ret mem)) (hp, cs) = Some (Inl f, t)"
    using run codec_onlyD [OF codec_seq [OF codec_basic(3)]] heap_freeD [OF heap_free_seq [OF heap_free_basic(3)]]
    unfolding de_AlignedMemory_def by (fastforce simp: bindE_def [of "de_seq _ _"] split: option.splits sum.splits)
  have n: "unat (of_nat (length xs) :: usize) = length xs"
    using read_bytes_length [OF F x] bs by (simp add: unat_of_nat)
  obtain m hp1 where m: "AlignedMemory_new (of_nat (length xs)) hp = Some (Inr m, hp1)"
    and c: "copy_from_slice xs (am_ptr m) 0 (length xs) hp1 = Some (Inl f, fst t)"
    using r bad AlignedMemory_new_failure(1) [of "of_nat (length xs)" hp f]
    by (auto simp: bindE_def thenE_def on_fst_def ret_def split: option.splits sum.splits if_splits)
  have g: "heap_inv hp1" "block_size hp1 (am_ptr m) = length xs"
    using grown_AlignedMemory_new [OF grown_refl [OF inv] m] grown_inv n by auto
  have "0 < length xs" using AlignedMemory_new_inv [OF m] n by (cases "length xs") auto
  then obtain ys where "heap_content hp1 (am_ptr m) = Some ys" "length ys = length xs"
    using block_size_content [OF g(1), of "am_ptr m"] g(2) by auto
  then show False
    using heap_write_ok [OF g(1), of "am_ptr m" ys 0 xs] c by (auto simp: copy_from_slice_def)
qed

lemma de_entries_failure:
  assumes F: "shrinking F" and "grown hp (snap_ptrs \<lparr>memory_regions = regions, registers = []\<rparr>) hp1"
    and "snap_inv hp1 \<lparr>memory_regions = regions, registers = []\<rparr>" and "length bs < 2 ^ 64"
    and "de_entries F n regions (hp1, bs) = Some (Inl f, t)"
  shows "allowed {ZeroSizeAlloc} f"
  using assms(2-)
proof (induction n arbitrary: regions hp1 bs)
  case (Suc n)
  let ?s = "\<lparr>memory_regions = regions, registers = []\<rparr>"
  show ?case
  proof (rule ccontr)
    assume bad: "\<not> allowed {ZeroSizeAlloc} f"
    then have ce: "f \<noteq> CodecErr" by auto
    obtain gpa cs where c: "get_u64 F bs = Some (gpa, cs)"
      and r1: "bindE (de_AlignedMemory F) (\<lambda>mem. thenE (case hm_get regions gpa of None \<Rightarrow> ret () | Some old \<Rightarrow> on_fst (AlignedMemory_drop old))
        (de_entries F n (hm_insert gpa mem regions))) (hp1, cs) = Some (Inl f, t)"
      using Suc.prems(4) ce by (auto simp: bindE_def [of "read_with _"] read_with_def split: option.splits)
    have cs: "length cs < 2 ^ 64" using shrinking.u64_shrinks [OF F c] Suc.prems(3) by simp
    obtain m hpa ds where m: "de_AlignedMemory F (hp1, cs) = Some (Inr m, (hpa, ds))"
      and r2: "thenE (case hm_get regions gpa of None \<Rightarrow> ret () | Some old \<Rightarrow> on_fst (AlignedMemory_drop old))
        (de_entries F n (hm_insert gpa m regions)) (hpa, ds) = Some (Inl f, t)"
      using r1 de_AlignedMemory_failure [OF F grown_inv [OF Suc.prems(1)] cs] bad
      by (fastforce simp: bindE_def [of "de_AlignedMemory _"] split: option.splits sum.splits)
    obtain sz hp3 where n: "AlignedMemory_new sz hp1 = Some (Inr m, hp3)" "same_shape hp3 hpa"
      "grown hp (insert (am_ptr m) (snap_ptrs ?s)) hpa"
      using grown_de_AlignedMemory [OF Suc.prems(1) m] by blast
    have old: "h_blocks hp3 q = h_blocks hp1 q" if "q \<in> snap_ptrs ?s" for q
      using AlignedMemory_new_others [OF n(1)] grown_AlignedMemory_new [OF Suc.prems(1) n(1)] that by metis
    obtain hpb where d: "(case hm_get regions gpa of None \<Rightarrow> ret () | Some old \<Rightarrow> AlignedMemory_drop old) hpa = Some (Inr (), hpb)"
      and r3: "de_entries F n (hm_insert gpa m regions) (hpb, ds) = Some (Inl f, t)"
      using r2 snap_drop_old [OF Suc.prems(2) n(2) old, of gpa f "fst t"]
      by (auto simp: thenE_def bindE_def on_fst_def ret_def split: option.splits sum.splits)
    have "length ds \<le> length cs"
      using m read_bytes_length [OF F] unfolding de_AlignedMemory_def
      by (fastforce simp: on_fst_def ret_Inr elim!: bindE_SomeD thenE_SomeD split: option.splits)
    moreover have "grown hp (snap_ptrs \<lparr>memory_regions = hm_insert gpa m regions, registers = []\<rparr>) hpb
        \<and> snap_inv hpb \<lparr>memory_regions = hm_insert gpa m regions, registers = []\<rparr>"
      using snap_put [OF Suc.prems(1,2) n(1) n(3,2) _ refl, of gpa] d by simp
    ultimately show False
      using Suc.IH [OF _ _ _ r3] bad cs by auto
  qed
qed (simp add: ret_def)

lemma de_archive_failure:
  assumes F: "shrinking F" and inv: "heap_inv hp" and n: "length bytes < 2 ^ 64"
    and run: "de_archive F bytes hp = Some (Inl f, hp')"
  shows "allowed {ZeroSizeAlloc} f"
proof (rule ccontr)
  assume bad: "\<not> allowed {ZeroSizeAlloc} f"
  then have ce: "f \<noteq> CodecErr" by auto
  have c: "codec_only (bindE (de_seq F (de_TraceEvent F)) (\<lambda>es. bindE (read_with (get_u64 F)) (\<lambda>h. ret (s, es, h))))"
    "codec_only (bindE (de_registers F) (\<lambda>regs. ret \<lparr>memory_regions = regions, registers = regs\<rparr>))" for s regions
    by (intro codec_intros codec_parts)+
  obtain t where "de_Snapshot F (hp, bytes) = Some (Inl f, t)"
    using run ce codec_onlyD [OF c(1)]
    by (fastforce simp: de_archive_def bindE_def [of "de_Snapshot _"] split: option.splits sum.splits)
  then obtain m cs where cs: "get_len F bytes = Some (m, cs)"
    and r: "bindE (de_entries F m []) (\<lambda>regions. bindE (de_registers F) (\<lambda>regs.
      ret \<lparr>memory_regions = regions, registers = regs\<rparr>)) (hp, cs) = Some (Inl f, t)"
    using ce unfolding de_Snapshot_def by (auto simp: bindE_def [of "read_with _"] read_with_def split: option.splits)
  obtain t' where e: "de_entries F m [] (hp, cs) = Some (Inl f, t')"
    using bindE_fails [OF r] ce codec_onlyD [OF c(2)] by metis
  have "snap_ptrs \<lparr>memory_regions = [], registers = []\<rparr> = {}" "snap_inv hp \<lparr>memory_regions = [], registers = []\<rparr>"
    using snap_ptrs_new snap_inv_new(1) [of hp] by (simp_all add: Snapshot_new_def)
  moreover have "length cs < 2 ^ 64" using shrinking.len_shrinks [OF F cs] n by simp
  ultimately show False using de_entries_failure [OF F _ _ _ e, of hp] grown_refl [OF inv] bad by simp
qed

text \<open>The reference format reads from the front.\<close>

interpretation bincode_reader: shrinking bincode_ref
  by unfold_locales (auto simp: bincode_ref_def take_word_def split: list.splits if_splits)

end
