(* ===== verification/Safety_Properties.thy ===== *)
theory Safety_Properties
  imports Memory_Safety Cli_Release End_To_End
begin

text \<open>
  Memory safety of the two commands, on any hypervisor that leaves the allocations of the process
  alone (locale \<open>whp_spares\<close>), whatever its calls return and whatever the guest does.
\<close>

section \<open>Replay\<close>

definition owns :: "Snapshot \<Rightarrow> 'h world \<Rightarrow> bool" where
  "owns s w \<longleftrightarrow> heap_inv (w_heap w) \<and> snap_inv (w_heap w) s"

lemma owns_shape: "owns s w \<Longrightarrow> same_shape (w_heap w) (w_heap w') \<Longrightarrow> owns s w'"
  unfolding owns_def using same_shape_inv snap_inv_shape by blast

lemma safe_steady: "steady w_heap m \<Longrightarrow> safe U (owns s) m (\<lambda>_. owns s)"
  by (rule steady_safe) (auto dest: owns_shape)

lemma safe_registers:
  assumes "\<And>hp hp'. same_shape hp hp' \<Longrightarrow> A s hp \<Longrightarrow> A s hp'" and "\<And>rs hp. A s hp \<Longrightarrow> A (s\<lparr>registers := rs\<rparr>) hp"
  shows "safe U (\<lambda>w. A s (w_heap w)) (capture_registers P v ns s) (\<lambda>s' w. A s' (w_heap w))"
proof (rule safeI)
  fix w f t assume "capture_registers P v ns s w = Some (Inl f, t)"
  from steadyD [OF steady_registers(3) this] show "allowed U f" by (simp add: allowed_def)
next
  fix w s' t assume a: "A s (w_heap w)" and run: "capture_registers P v ns s w = Some (Inr s', t)"
  have "A s (w_heap t)" using steadyD [OF steady_registers(3) run] assms(1) a by blast
  moreover obtain rs where "s' = s\<lparr>registers := rs\<rparr>"
    using run by (auto simp: capture_registers_def ret_Inr elim!: bindE_SomeD)
  ultimately show "A s' (w_heap t)" using assms(2) by simp
qed

lemma safe_capture_registers: "safe U (owns s) (capture_registers P v ns s) (\<lambda>s'. owns s')"
  using safe_registers [of "\<lambda>s hp. heap_inv hp \<and> snap_inv hp s" s U P v ns] same_shape_inv snap_inv_shape
  by (simp add: owns_def [abs_def])

lemma safe_hash: "safe U (owns s) (on_heap (hash_state s)) (\<lambda>_. owns s)"
  by (rule safeI) (auto simp: owns_def hash_state_eq)

lemma safe_read_archive:
  assumes "shrinking F" and "length data < 2 ^ 64"
  shows "safe {ZeroSizeAlloc} (\<lambda>w. heap_inv (w_heap w)) (on_heap (de_archive F data)) (\<lambda>(s, es, h). owns s)"
proof (rule safeI)
  fix w f t assume "heap_inv (w_heap w)" "on_heap (de_archive F data) w = Some (Inl f, t)"
  then show "allowed {ZeroSizeAlloc} f"
    using de_archive_failure [OF assms(1) _ assms(2)] by (auto simp: on_heap_def split: option.splits)
next
  fix w x t assume o: "heap_inv (w_heap w)" and run: "on_heap (de_archive F data) w = Some (Inr x, t)"
  obtain s es h where x: "x = (s, es, h)" by (cases x) auto
  have "de_archive F data (w_heap w) = Some (Inr (s, es, h), w_heap t)"
    using run by (auto simp: x on_heap_def split: option.splits)
  then show "(case x of (s, es, h) \<Rightarrow> owns s) t"
    using grown_de_archive [OF o] grown_inv [of "w_heap w" "snap_ptrs s" "w_heap t"] by (simp add: x owns_def)
qed

text \<open>The command after its archive is read: nothing can go wrong there but a panic.\<close>

definition replay_events_verified ::
    "'h platform \<Rightarrow> Snapshot \<Rightarrow> TraceEvent list \<Rightarrow> u64 \<Rightarrow> VmPartition \<Rightarrow> Vcpu \<Rightarrow> ReplayEngine \<Rightarrow> ('h world, unit) cmd" where
  "replay_events_verified P s es h vm v r =
     thenE (println (ReplayingEvents (length es)))
    (thenE (for_each es (\<lambda>event. expect_ok ''Failed to replay event'' (replay_event P r event)))
    (thenE (println TraceReplayFinished)
    (bindE (attempt (VmRunner_run P (VmRunner_new vm v))) (\<lambda>result.
     thenE (handle_vm_exit P v result)
    (bindE (replay_verify P s h v) (\<lambda>s'.
     thenE (Vcpu_drop P v) (thenE (VmPartition_drop P vm) (Snapshot_drop P s'))))))))"

definition replay_loaded :: "'h platform \<Rightarrow> Snapshot \<Rightarrow> TraceEvent list \<Rightarrow> u64 \<Rightarrow> ('h world, unit) cmd" where
  "replay_loaded P s es h =
     thenE (println (LoadedSnapshot (length (memory_regions s)) (length es)))
    (bindE (expect_ok ''Failed to create VM partition'' (VmPartition_new P)) (\<lambda>vm.
     thenE (expect_ok ''Failed to configure interceptions'' (configure_interceptions P vm))
    (bindE (expect_ok ''Failed to create vCPU'' (Vcpu_new P (as_raw vm) 0)) (\<lambda>v.
     thenE (expect_ok ''Failed to setup long mode'' (setup_long_mode P v pt_gpa))
    (thenE (expect_ok ''Failed to restore snapshot''
       (restore_snapshot P (register_vcpu 0 v (ReplayEngine_new vm 0)) s capture_names))
    (thenE (println SnapshotRestored)
    (replay_events_verified P s es h vm v (register_vcpu 0 v (ReplayEngine_new vm 0)))))))))"

lemma cli_replay_split:
  "cli_replay P F trace =
     thenE (println (ReplayingTrace trace))
    (bindE (fs_read ''Failed to read trace file'' trace) (\<lambda>data.
     bindE (expect_ok ''Failed to deserialize trace archive'' (on_heap (de_archive F data)))
       (\<lambda>(s, es, h). replay_loaded P s es h)))"
  by (simp add: cli_replay_def replay_prepare_def replay_loaded_def replay_events_verified_def thenE_def bindE_assoc
      case_prod_beta' bindE_ret Let_def)

context whp_spares
begin

lemma safe_drop: "safe U (owns s) (Snapshot_drop P s) (\<lambda>_ _. True)"
  by (rule safeI) (use Snapshot_drop_ok [OF order] in \<open>fastforce simp: owns_def\<close>)+

lemma safe_replay_verify: "safe U (owns s) (replay_verify P s h v) (\<lambda>s'. owns s')"
  unfolding replay_verify_def
  by (intro safe_bindE [OF safe_expect_ok [OF safe_capture_registers]] safe_bindE [OF safe_hash]
      safe_thenE [OF safe_steady] steady_intros safe_ret)

lemma safe_replay_events: "safe U (owns s) (replay_events_verified P s es h vm v r) (\<lambda>_ _. True)"
  unfolding replay_events_verified_def
  by (intro safe_thenE [OF safe_steady] safe_bindE [OF safe_steady] safe_bindE [OF safe_replay_verify] safe_drop
      steady_intros steady_replay_event steady_exit steady_run steady_machine)

lemma safe_replay_loaded: "safe U (owns s) (replay_loaded P s es h) (\<lambda>_ _. True)"
  unfolding replay_loaded_def
  by (intro safe_thenE [OF safe_steady] safe_bindE [OF safe_steady] steady_intros steady_machine steady_restore
      safe_replay_events)

lemma cli_replay_failure:
  assumes F: "shrinking F" and inv: "heap_inv (w_heap u)"
    and small: "\<And>data. hm_get (w_files u) trace = Some data \<Longrightarrow> length data < 2 ^ 64"
    and run: "cli_replay P F trace u = Some (Inl (Undefined x), u')"
  shows "x = ZeroSizeAlloc \<and> (\<exists>data hp. hm_get (w_files u) trace = Some data
    \<and> de_archive F data (w_heap u) = Some (Inl (Undefined ZeroSizeAlloc), hp))"
proof -
  let ?u = "u\<lparr>w_out := w_out u @ [ReplayingTrace trace]\<rparr>"
  obtain data where d: "hm_get (w_files u) trace = Some data"
    and r: "bindE (expect_ok ''Failed to deserialize trace archive'' (on_heap (de_archive F data)))
       (\<lambda>(s, es, h). replay_loaded P s es h) ?u = Some (Inl (Undefined x), u')"
    using run by (auto simp: cli_replay_split thenE_step bindE_def [of "fs_read _ _"] println_def fs_read_def expect_some_def
        raise_def ret_def split: option.splits)
  note rd = safe_read_archive [OF F small [OF d]]
  from bindE_fails [OF r] show ?thesis
  proof (elim disjE exE conjE)
    assume e: "expect_ok ''Failed to deserialize trace archive'' (on_heap (de_archive F data)) ?u = Some (Inl (Undefined x), u')"
    then have "on_heap (de_archive F data) ?u = Some (Inl (Undefined x), u')"
      by (auto simp: expect_ok_def split: option.splits sum.splits failure.splits)
    moreover have "x = ZeroSizeAlloc"
      using safe_failure [OF safe_expect_ok [OF rd] _ e] inv by simp
    ultimately show ?thesis using d by (auto simp: on_heap_def split: option.splits)
  next
    fix y u1
    assume e: "expect_ok ''Failed to deserialize trace archive'' (on_heap (de_archive F data)) ?u = Some (Inr y, u1)"
      and t: "(case y of (s, es, h) \<Rightarrow> replay_loaded P s es h) u1 = Some (Inl (Undefined x), u')"
    obtain s es h where y: "y = (s, es, h)" by (cases y) auto
    have "owns s u1" using safe_result [OF safe_expect_ok [OF rd] _ e] inv by (simp add: y)
    from safe_failure [OF safe_replay_loaded [of "{}"] this t [unfolded y prod.case]] show ?thesis by simp
  qed
qed

end

section \<open>Record\<close>

text \<open>Regions that a capture may read: not empty, and inside an allocation.\<close>

definition readable :: "heap \<Rightarrow> (u64 \<times> ptr \<times> usize) list \<Rightarrow> bool" where
  "readable hp rs \<longleftrightarrow> (\<forall>(gpa, p, sz) \<in> set rs. sz \<noteq> 0 \<and> unat sz \<le> block_size hp p)"

lemma grown_block:
  assumes "grown hp N hp'" and "0 < block_size hp p"
  shows "p \<notin> N" and "block_size hp' p = block_size hp p"
proof -
  have c: "heap_content hp p \<noteq> None" using assms(2) by (auto simp: block_size_def heap_content_def split: option.splits)
  show "p \<notin> N" using grown_new [OF assms(1), of p] c by auto
  show "block_size hp' p = block_size hp p" using grown_size [OF assms(1) c] .
qed

lemma copy_within:
  assumes inv: "heap_inv hp" and "p \<noteq> q" and src: "0 < n" "n \<le> block_size hp p" and dst: "n \<le> block_size hp q"
  shows "\<exists>hp'. copy_nonoverlapping p q n hp = Some (Inr (), hp')"
proof -
  obtain bs cs where b: "heap_content hp p = Some bs" "n \<le> length bs" "heap_content hp q = Some cs" "n \<le> length cs"
    using block_size_content [OF inv, of p] block_size_content [OF inv, of q] src dst by force
  then show ?thesis
    using heap_read_ok [OF inv b(1), of 0 n] heap_write_ok [OF inv b(3), of 0 "take n bs"] assms(2)
    by (auto simp: copy_nonoverlapping_def bindE_step)
qed

lemma capture_region_failure:
  assumes g: "grown hp (snap_ptrs s) hp1" and snap: "snap_inv hp1 s" and sz: "sz \<noteq> 0" "unat sz \<le> block_size hp p"
    and run: "capture_region gpa p sz s hp1 = Some (Inl f, hp2)"
  shows "allowed U f"
  using bindE_fails [OF run [unfolded capture_region_def]]
proof (elim disjE exE conjE)
  assume "AlignedMemory_new sz hp1 = Some (Inl f, hp2)"
  then show ?thesis using AlignedMemory_new_failure(2) sz(1) by blast
next
  fix m hpa
  assume new: "AlignedMemory_new sz hp1 = Some (Inr m, hpa)"
    and run: "thenE (copy_nonoverlapping p (am_ptr m) (unat sz))
      (thenE (case hm_get (memory_regions s) gpa of None \<Rightarrow> ret () | Some old \<Rightarrow> AlignedMemory_drop old)
      (ret (s\<lparr>memory_regions := hm_insert gpa m (memory_regions s)\<rparr>))) hpa = Some (Inl f, hp2)"
  note n = grown_AlignedMemory_new [OF g new]
  have z: "0 < unat sz" using sz(1) by (simp add: unat_gt_0)
  have p: "p \<notin> insert (am_ptr m) (snap_ptrs s)" "block_size hpa p = block_size hp p"
    using grown_block [OF conjunct1 [OF n], of p] z sz(2) by simp_all
  obtain hpb where c: "copy_nonoverlapping p (am_ptr m) (unat sz) hpa = Some (Inr (), hpb)"
    using copy_within [of hpa p "am_ptr m" "unat sz"] grown_inv [OF conjunct1 [OF n]] p z sz(2) n by auto
  have "same_shape hpa hpb" using grown_copy [OF conjunct1 [OF n] c] by simp
  moreover have "h_blocks hpa q = h_blocks hp1 q" if "q \<in> snap_ptrs s" for q
    using AlignedMemory_new_others [OF new] n that by metis
  ultimately have "(case hm_get (memory_regions s) gpa of None \<Rightarrow> ret () | Some old \<Rightarrow> AlignedMemory_drop old) hpb
      \<noteq> Some (Inl f, hp2)"
    by (rule snap_drop_old [OF snap])
  moreover have "thenE (case hm_get (memory_regions s) gpa of None \<Rightarrow> ret () | Some old \<Rightarrow> AlignedMemory_drop old)
      (ret (s\<lparr>memory_regions := hm_insert gpa m (memory_regions s)\<rparr>)) hpb = Some (Inl f, hp2)"
    using run by (simp only: thenE_def bindE_def c option.case sum.case prod.case)
  ultimately show ?thesis unfolding thenE_def by (auto simp: ret_def dest!: bindE_fails)
qed

lemma capture_all_failure:
  assumes "grown hp (snap_ptrs s) hp1" and "snap_inv hp1 s" and "readable hp rs"
    and "capture_all rs s hp1 = Some (Inl f, hp2)"
  shows "allowed U f"
  using assms
proof (induction rs arbitrary: s hp1)
  case (Cons r rs)
  obtain gpa p sz where r: "r = (gpa, p, sz)" by (cases r) auto
  have rd: "sz \<noteq> 0" "unat sz \<le> block_size hp p" "readable hp rs" using Cons.prems(3) by (auto simp: r readable_def)
  from bindE_fails [OF Cons.prems(4) [unfolded r capture_all.simps]] show ?case
  proof (elim disjE exE conjE)
    assume "capture_region gpa p sz s hp1 = Some (Inl f, hp2)"
    then show ?case by (rule capture_region_failure [OF Cons.prems(1,2) rd(1,2)])
  next
    fix s1 hpa assume c: "capture_region gpa p sz s hp1 = Some (Inr s1, hpa)" "capture_all rs s1 hpa = Some (Inl f, hp2)"
    then show ?case using Cons.IH [OF _ _ rd(3) c(2)] grown_capture_region [OF Cons.prems(1,2) c(1)] by blast
  qed
qed (simp add: ret_def)

lemma capture_memory_layout_failure:
  assumes "heap_inv hp" and "readable hp (layout_list gl)" and "capture_memory_layout gl hp = Some (Inl f, hp2)"
  shows "allowed U f"
  using capture_all_failure [of hp Snapshot_new hp] grown_refl [OF assms(1)] snap_inv_new(1) assms(2,3)
  by (simp add: capture_memory_layout_all)

text \<open>The memory of the guest: the last allocation, of the page tables, is the one that is not checked.\<close>

definition guest_made :: "heap \<Rightarrow> ptr \<Rightarrow> usize \<Rightarrow> guest_layout \<Rightarrow> heap \<Rightarrow> bool" where
  "guest_made hp q sz gl hp' \<longleftrightarrow> gl_image gl = q \<and> gl_image_size gl = sz \<and> pt_size (gl_tables gl) = 12288
     \<and> grown hp {am_ptr (gl_stack gl), am_ptr (gl_null gl), pt_host_ptr (gl_tables gl)} hp'
     \<and> am_ptr (gl_stack gl) \<noteq> am_ptr (gl_null gl) \<and> am_inv hp' (gl_stack gl) \<and> am_inv hp' (gl_null gl)
     \<and> block_size hp' (am_ptr (gl_stack gl)) = unat stack_size \<and> block_size hp' (am_ptr (gl_null gl)) = 4096
     \<and> block_size hp' (pt_host_ptr (gl_tables gl)) = 12288"

definition buffers_made :: "heap \<Rightarrow> AlignedMemory \<Rightarrow> AlignedMemory \<Rightarrow> heap \<Rightarrow> bool" where
  "buffers_made hp a b hp' \<longleftrightarrow> grown hp {am_ptr a, am_ptr b} hp' \<and> am_ptr a \<noteq> am_ptr b \<and> am_inv hp' a \<and> am_inv hp' b
     \<and> block_size hp' (am_ptr a) = unat stack_size \<and> block_size hp' (am_ptr b) = 4096"

lemma safe_same:
  assumes "steady w_heap m" and "heap_same m"
  shows "safe U (\<lambda>w. A (w_heap w)) m (\<lambda>_ w. A (w_heap w))"
  by (rule safeI) (use steadyD [OF assms(1)] heap_sameD [OF assms(2)] in \<open>auto simp: allowed_def\<close>)

lemma safe_map_gpa_range:
  "safe U (\<lambda>w. A (w_heap w)) (expect_ok msg (map_gpa_range P ept g q n fl)) (\<lambda>_ w. A (w_heap w))"
  unfolding map_gpa_range_def by (intro safe_same steady_intros heap_same_intros)

lemma safe_stack:
  "safe U (\<lambda>w. heap_inv (w_heap w) \<and> w_heap w = hp) (on_heap (AlignedMemory_new stack_size))
     (\<lambda>m w. grown hp {am_ptr m} (w_heap w) \<and> am_inv (w_heap w) m \<and> block_size (w_heap w) (am_ptr m) = unat stack_size)"
proof (rule safeI)
  fix w f t assume "on_heap (AlignedMemory_new stack_size) w = Some (Inl f, t)"
  then show "allowed U f"
    using AlignedMemory_new_failure(2) [of stack_size "w_heap w" f] by (auto simp: on_heap_def stack_size_def split: option.splits)
next
  fix w m t assume "heap_inv (w_heap w) \<and> w_heap w = hp" "on_heap (AlignedMemory_new stack_size) w = Some (Inr m, t)"
  then show "grown hp {am_ptr m} (w_heap t) \<and> am_inv (w_heap t) m \<and> block_size (w_heap t) (am_ptr m) = unat stack_size"
    using grown_AlignedMemory_new [OF grown_refl, of hp stack_size m] by (auto simp: on_heap_def split: option.splits)
qed

lemma safe_null_page:
  "safe U (\<lambda>w. grown hp {am_ptr a} (w_heap w) \<and> am_inv (w_heap w) a \<and> block_size (w_heap w) (am_ptr a) = unat stack_size)
     (on_heap (AlignedMemory_new 0x1000)) (\<lambda>b w. buffers_made hp a b (w_heap w))"
proof (rule safeI)
  fix w f t assume "on_heap (AlignedMemory_new 0x1000) w = Some (Inl f, t)"
  then show "allowed U f"
    using AlignedMemory_new_failure(2) [of "0x1000" "w_heap w" f] by (auto simp: on_heap_def split: option.splits)
next
  fix w b t
  assume a: "grown hp {am_ptr a} (w_heap w) \<and> am_inv (w_heap w) a \<and> block_size (w_heap w) (am_ptr a) = unat stack_size"
    and "on_heap (AlignedMemory_new 0x1000) w = Some (Inr b, t)"
  then have new: "AlignedMemory_new 0x1000 (w_heap w) = Some (Inr b, w_heap t)"
    by (auto simp: on_heap_def split: option.splits)
  note n = grown_AlignedMemory_new [OF conjunct1 [OF a] new]
  have "am_ptr a \<noteq> am_ptr b" using n by auto
  moreover from this have o: "h_blocks (w_heap t) (am_ptr a) = h_blocks (w_heap w) (am_ptr a)"
    using AlignedMemory_new_others [OF new] by blast
  moreover have "am_inv (w_heap t) a" using am_inv_mono [of "w_heap w" a "w_heap t"] a o by simp
  ultimately show "buffers_made hp a b (w_heap t)"
    using n a by (simp add: buffers_made_def insert_commute block_size_def)
qed

lemma safe_tables:
  assumes U: "h_avail hp < 0x14000 \<Longrightarrow> NullPointer \<in> U"
  shows "safe U (\<lambda>w. buffers_made hp a b (w_heap w)) (create_identity_mapping P pt_gpa)
     (\<lambda>t w. guest_made hp q sz \<lparr>gl_image = q, gl_image_size = sz, gl_stack = a, gl_stack_base = sb, gl_null = b, gl_tables = t\<rparr> (w_heap w))"
proof (rule safeI)
  fix w f t assume m: "buffers_made hp a b (w_heap w)" and run: "create_identity_mapping P pt_gpa w = Some (Inl f, t)"
  have inv: "heap_inv (w_heap w)" using m by (simp add: buffers_made_def grown_def)
  have av: "h_avail (w_heap w) + 0x11000 = h_avail hp"
    using m grown_avail [of hp "{am_ptr a, am_ptr b}" "w_heap w"] by (simp add: buffers_made_def stack_size_def)
  have lo: "h_avail (w_heap w) < 12288"
    using create_identity_mapping_ok [OF inv, of pt_gpa P] run by (fastforce simp: Cli.pt_gpa_def intro: leI)
  then show "allowed U f" using create_identity_mapping_oom [OF lo, of P pt_gpa] run U av by simp
next
  fix w t w' assume m: "buffers_made hp a b (w_heap w)" and run: "create_identity_mapping P pt_gpa w = Some (Inr t, w')"
  have inv: "heap_inv (w_heap w)" using m by (simp add: buffers_made_def grown_def)
  note g = grown_create_identity_mapping [OF inv run]
  have "12288 \<le> h_avail (w_heap w)" using create_identity_mapping_oom [of w P pt_gpa] run by (cases "h_avail (w_heap w) < 12288") auto
  then have ps: "pt_size t = 12288"
    using create_identity_mapping_ok [OF inv, of pt_gpa P] run by (auto simp: Cli.pt_gpa_def)
  have bp: "0 < block_size (w_heap w) (am_ptr a)" "0 < block_size (w_heap w) (am_ptr b)"
    using m by (simp_all add: buffers_made_def stack_size_def)
  note old = grown_block [OF conjunct1 [OF g] bp(1)] grown_block [OF conjunct1 [OF g] bp(2)]
  have "am_inv (w_heap w') x" if "am_inv (w_heap w) x" for x
    using am_inv_mono [OF that, of "w_heap w'"] grown_old [OF conjunct1 [OF g] am_inv_allocated [OF that]] by simp
  moreover have "grown hp {am_ptr a, am_ptr b, pt_host_ptr t} (w_heap w')"
    using grown_trans [of hp "{am_ptr a, am_ptr b}" "w_heap w"] g m by (simp add: buffers_made_def insert_commute)
  ultimately show "guest_made hp q sz \<lparr>gl_image = q, gl_image_size = sz, gl_stack = a, gl_stack_base = sb, gl_null = b, gl_tables = t\<rparr> (w_heap w')"
    using m old g ps by (simp add: guest_made_def buffers_made_def)
qed

lemma safe_map_guest_memory:
  assumes U: "h_avail hp < 0x14000 \<Longrightarrow> NullPointer \<in> U"
  shows "safe U (\<lambda>w. heap_inv (w_heap w) \<and> w_heap w = hp) (map_guest_memory P vm q sz)
     (\<lambda>gl w. guest_made hp q sz gl (w_heap w))"
  unfolding map_guest_memory_def Let_def
  by (rule safe_thenE [OF safe_map_gpa_range], rule safe_bindE [OF safe_stack],
      rule safe_bindE [OF safe_same [OF steady_basic(3) heap_same_basic(4)]],
      rule safe_bindE [OF safe_same [OF steady_basic(3) heap_same_basic(4)]],
      rule safe_thenE [OF safe_map_gpa_range], rule safe_bindE [OF safe_null_page], rule safe_thenE [OF safe_map_gpa_range],
      rule safe_bindE [OF safe_tables [OF U]], assumption, rule safe_thenE [OF safe_map_gpa_range], rule safe_ret)

text \<open>What the rest of the command relies on: the guest's memory can be read, and each buffer can be released once.\<close>

definition guest_safe :: "guest_layout \<Rightarrow> heap \<Rightarrow> bool" where
  "guest_safe gl hp \<longleftrightarrow> heap_inv hp \<and> readable hp (layout_list gl) \<and> am_inv hp (gl_stack gl) \<and> am_inv hp (gl_null gl)
     \<and> am_ptr (gl_stack gl) \<noteq> am_ptr (gl_null gl)"

definition guest_owns :: "guest_layout \<Rightarrow> Snapshot \<Rightarrow> heap \<Rightarrow> bool" where
  "guest_owns gl s hp \<longleftrightarrow> guest_safe gl hp \<and> snap_inv hp s \<and> {am_ptr (gl_stack gl), am_ptr (gl_null gl)} \<inter> snap_ptrs s = {}"

lemma guest_safe_made:
  assumes "guest_made hp q sz gl hp'" and "sz \<noteq> 0" and "block_size hp q = unat sz"
  shows "guest_safe gl hp'"
proof -
  have "0 < block_size hp q" using assms(2,3) by (simp add: unat_gt_0)
  then have "block_size hp' q = unat sz"
    using grown_block(2) [of hp _ hp' q] assms(1,3) by (auto simp: guest_made_def)
  then show ?thesis
    using assms(1,2) by (auto simp: guest_safe_def guest_made_def readable_def layout_list_def stack_size_def grown_def)
qed

lemma guest_safe_shape:
  assumes "same_shape hp hp'" and "guest_safe gl hp"
  shows "guest_safe gl hp'"
  using assms(2) same_shape_inv [OF assms(1)] am_inv_shape [OF assms(1)] block_size_shape [OF assms(1)]
  by (simp add: guest_safe_def readable_def)

lemma guest_owns_shape: "same_shape hp hp' \<Longrightarrow> guest_owns gl s hp \<Longrightarrow> guest_owns gl s hp'"
  by (simp add: guest_owns_def guest_safe_shape snap_inv_shape)

lemma guest_safe_grown:
  assumes g: "grown hp N hp'" and s: "guest_safe gl hp"
  shows "guest_safe gl hp'" and "{am_ptr (gl_stack gl), am_ptr (gl_null gl)} \<inter> N = {}"
proof -
  have am: "am_inv hp' x \<and> am_ptr x \<notin> N" if "am_inv hp x" for x
    using am_inv_mono [OF that, of hp'] grown_old [OF g am_inv_allocated [OF that]] grown_new [OF g, of "am_ptr x"]
      am_inv_allocated [OF that] by auto
  have "unat sz \<le> block_size hp' p" if "sz \<noteq> 0" "unat sz \<le> block_size hp p" for sz :: usize and p
    using grown_block(2) [OF g, of p] that unat_gt_0 [of sz] by simp
  then have "readable hp' (layout_list gl)"
    using s by (auto simp: guest_safe_def readable_def)
  then show "guest_safe gl hp'" using s am grown_inv [OF g] by (simp add: guest_safe_def)
  show "{am_ptr (gl_stack gl), am_ptr (gl_null gl)} \<inter> N = {}" using s am unfolding guest_safe_def by blast
qed

lemma guest_owns_grown:
  assumes g: "grown hp N hp'" and s: "guest_owns gl s hp"
  shows "guest_owns gl s hp'" and "snap_ptrs s \<inter> N = {}"
proof -
  have n: "snap_inv hp s" "guest_safe gl hp" using s by (auto simp: guest_owns_def)
  have "snap_inv hp' s"
    by (rule snap_frame(1) [OF n(1)]) (rule grown_old [OF g snap_ptrs_allocated [OF n(1)]])
  then show "guest_owns gl s hp'" using guest_safe_grown(1) [OF g n(2)] s by (simp add: guest_owns_def)
  show "snap_ptrs s \<inter> N = {}" using snap_ptrs_allocated [OF n(1)] grown_new [OF g] by (metis disjoint_iff)
qed

lemma safe_capture:
  "safe U (\<lambda>w. guest_safe gl (w_heap w)) (on_heap (capture_memory_layout gl)) (\<lambda>s w. guest_owns gl s (w_heap w))"
proof (rule safeI)
  fix w f t assume "guest_safe gl (w_heap w)" "on_heap (capture_memory_layout gl) w = Some (Inl f, t)"
  then show "allowed U f"
    using capture_memory_layout_failure [of "w_heap w" gl f] by (auto simp: guest_safe_def on_heap_def split: option.splits)
next
  fix w s t assume g: "guest_safe gl (w_heap w)" and "on_heap (capture_memory_layout gl) w = Some (Inr s, t)"
  then have c: "capture_memory_layout gl (w_heap w) = Some (Inr s, w_heap t)" by (auto simp: on_heap_def split: option.splits)
  have "grown (w_heap w) (snap_ptrs s) (w_heap t) \<and> snap_inv (w_heap t) s"
    using grown_capture_memory_layout [OF _ c] g by (simp add: guest_safe_def)
  then show "guest_owns gl s (w_heap t)"
    using guest_safe_grown [OF _ g, of "snap_ptrs s" "w_heap t"] by (simp add: guest_owns_def)
qed

lemma safe_steady_heap:
  assumes "steady w_heap m" and "\<And>hp hp'. same_shape hp hp' \<Longrightarrow> A hp \<Longrightarrow> A hp'"
  shows "safe U (\<lambda>w. A (w_heap w)) m (\<lambda>_ w. A (w_heap w))"
  by (rule steady_safe [OF assms(1)]) (rule assms(2))

text \<open>Both snapshots at the end of the command: they share no buffer with each other or with the guest.\<close>

definition guest_final :: "guest_layout \<Rightarrow> Snapshot \<Rightarrow> Snapshot \<Rightarrow> heap \<Rightarrow> bool" where
  "guest_final gl s fs hp \<longleftrightarrow> guest_owns gl s hp \<and> guest_owns gl fs hp \<and> snap_ptrs s \<inter> snap_ptrs fs = {}"

lemma guest_final_shape: "same_shape hp hp' \<Longrightarrow> guest_final gl s fs hp \<Longrightarrow> guest_final gl s fs hp'"
  by (simp add: guest_final_def guest_owns_shape)

lemma guest_owns_registers [simp]: "guest_owns gl (s\<lparr>registers := rs\<rparr>) hp \<longleftrightarrow> guest_owns gl s hp"
  by (simp add: guest_owns_def)

lemma safe_capture_final:
  "safe U (\<lambda>w. guest_owns gl s (w_heap w)) (on_heap (capture_memory_layout gl)) (\<lambda>fs w. guest_final gl s fs (w_heap w))"
proof (rule safeI)
  fix w f t assume "guest_owns gl s (w_heap w)" "on_heap (capture_memory_layout gl) w = Some (Inl f, t)"
  then show "allowed U f" using safe_failure [OF safe_capture, of gl w f t U] by (simp add: guest_owns_def)
next
  fix w fs t assume g: "guest_owns gl s (w_heap w)" and run: "on_heap (capture_memory_layout gl) w = Some (Inr fs, t)"
  have c: "capture_memory_layout gl (w_heap w) = Some (Inr fs, w_heap t)" using run by (auto simp: on_heap_def split: option.splits)
  have gr: "grown (w_heap w) (snap_ptrs fs) (w_heap t)"
    using grown_capture_memory_layout [OF _ c] g by (simp add: guest_owns_def guest_safe_def)
  have "guest_owns gl fs (w_heap t)" using safe_result [OF safe_capture _ run] g by (simp add: guest_owns_def)
  then show "guest_final gl s fs (w_heap t)" using guest_owns_grown [OF gr g] by (simp add: guest_final_def)
qed

lemma safe_hash_final:
  "safe U (\<lambda>w. guest_final gl s fs (w_heap w)) (on_heap (hash_state fs)) (\<lambda>_ w. guest_final gl s fs (w_heap w))"
  by (rule safeI) (auto simp: guest_final_def guest_owns_def guest_safe_def hash_state_eq)

context whp_spares
begin

lemma safe_serialize:
  "safe U (\<lambda>w. guest_final gl s fs (w_heap w)) (on_heap (ser_archive P F s es h)) (\<lambda>_ w. guest_final gl s fs (w_heap w))"
  by (rule safeI) (auto simp: guest_final_def guest_owns_def guest_safe_def ser_archive_ok [OF _ _ order])

lemma steady_fs_write: "steady w_heap (fs_write P msg path bytes)"
  by (auto simp: fs_write_def steady_def modify_def raise_def)

lemma safe_record_archive:
  "safe U (\<lambda>w. guest_owns gl s (w_heap w)) (record_archive P F out gl s v eng) (\<lambda>fs w. guest_final gl s fs (w_heap w))"
  unfolding record_archive_def Let_def
  by (rule safe_bindE [OF safe_capture_final],
      rule safe_bindE [OF safe_expect_ok [OF safe_registers]], erule (1) guest_final_shape, simp add: guest_final_def,
      rule safe_bindE [OF safe_hash_final],
      intro safe_thenE [OF safe_steady_heap] safe_bindE [OF safe_expect_ok [OF safe_serialize]] steady_intros steady_fs_write safe_ret,
      (erule (1) guest_final_shape | assumption)+)

lemma safe_record_drop:
  "safe U (\<lambda>w. guest_final gl s fs (w_heap w)) (record_drop P vm gl s v fs) (\<lambda>_ _. True)"
proof (rule safeI)
  fix w f t assume "guest_final gl s fs (w_heap w)" "record_drop P vm gl s v fs w = Some (Inl f, t)"
  then show "allowed U f"
    using record_drop_returns [OF order, of w fs s gl vm v]
    by (auto simp: guest_final_def guest_owns_def guest_safe_def)
qed simp

end

text \<open>The command after the image is in memory.\<close>

definition record_guest ::
    "'h platform \<Rightarrow> serde_format \<Rightarrow> string \<Rightarrow> VmPartition \<Rightarrow> guest_layout \<Rightarrow> Snapshot \<Rightarrow> Vcpu \<Rightarrow> ('h world, unit) cmd" where
  "record_guest P F out vm gl snap v =
     thenE (println StartingRecordMode)
    (bindE (expect_ok ''Record engine execution failed'' (with_engine (RecordEngine_run P) (RecordEngine_new vm v))) (\<lambda>eng.
     bindE (record_archive P F out gl snap v eng) (\<lambda>fs. record_drop P vm gl snap v fs)))"

definition record_loaded ::
    "'h platform \<Rightarrow> serde_format \<Rightarrow> string \<Rightarrow> PeLoader \<Rightarrow> ptr \<Rightarrow> usize \<Rightarrow> ('h world, unit) cmd" where
  "record_loaded P F out l q sz =
     bindE (expect_ok ''Failed to create VM partition'' (VmPartition_new P)) (\<lambda>vm.
     thenE (expect_ok ''Failed to configure interceptions'' (configure_interceptions P vm))
    (bindE (map_guest_memory P vm q sz) (\<lambda>gl.
     bindE (on_heap (capture_memory_layout gl)) (\<lambda>snap.
     thenE (println (TargetMapped base_gpa (entry_point l)))
    (bindE (boot_vcpu P vm l gl) (\<lambda>v.
     bindE (expect_ok ''Failed to capture initial registers'' (capture_registers P v capture_names snap)) (\<lambda>snap.
     record_guest P F out vm gl snap v))))))) "

lemma cli_record_split:
  "cli_record P goblin F target out =
     thenE (println (RecordingTarget target))
    (bindE (fs_read ''Failed to read target binary'' target) (\<lambda>data.
     bindE (expect_right ''Failed to parse PE file'' (PeLoader_parse goblin data)) (\<lambda>l.
     bindE (on_heap (map_into_memory l)) (\<lambda>(q, sz). record_loaded P F out l q sz))))"
  by (simp add: cli_record_def record_prepare_def record_loaded_def record_guest_def thenE_def bindE_assoc
      case_prod_beta' Let_def)

context whp_spares
begin

lemma safe_record_guest: "safe U (\<lambda>w. guest_owns gl s (w_heap w)) (record_guest P F out vm gl s v) (\<lambda>_ _. True)"
  unfolding record_guest_def
  by (intro safe_thenE [OF safe_steady_heap] safe_bindE [OF safe_steady_heap] safe_bindE [OF safe_record_archive] safe_record_drop
      steady_intros steady_record_run) (erule (1) guest_owns_shape)+

lemma safe_record_loaded:
  assumes "h_avail hp < 0x14000 \<Longrightarrow> NullPointer \<in> U" and "sz \<noteq> 0" and "block_size hp q = unat sz"
  shows "safe U (\<lambda>w. heap_inv (w_heap w) \<and> w_heap w = hp) (record_loaded P F out l q sz) (\<lambda>_ _. True)"
  unfolding record_loaded_def
proof (rule safe_bindE [OF safe_same], goal_cases)
  case (3 vm)
  show ?case
  proof (rule safe_thenE [OF safe_same], goal_cases)
    case 3
    show ?case
    proof (rule safe_bindE [OF safe_map_guest_memory [OF assms(1)]], goal_cases)
      case (2 gl)
      have "safe U (\<lambda>w. guest_safe gl (w_heap w)) (bindE (on_heap (capture_memory_layout gl)) (\<lambda>snap.
         thenE (println (TargetMapped base_gpa (entry_point l)))
        (bindE (boot_vcpu P vm l gl) (\<lambda>v.
         bindE (expect_ok ''Failed to capture initial registers'' (capture_registers P v capture_names snap)) (\<lambda>snap.
         record_guest P F out vm gl snap v))))) (\<lambda>_ _. True)"
        by (rule safe_bindE [OF safe_capture], intro safe_thenE [OF safe_steady_heap] safe_bindE [OF safe_steady_heap]
            safe_bindE [OF safe_expect_ok [OF safe_registers]] safe_record_guest steady_world steady_boot_vcpu,
            (erule (1) guest_owns_shape | simp)+)
      then show ?case by (rule safe_pre) (erule guest_safe_made [OF _ assms(2,3)])
    qed simp
  qed (unfold configure_interceptions_def, (intro steady_intros heap_same_intros)+)
qed (unfold VmPartition_new_def, (intro steady_intros heap_same_intros)+)

lemma cli_record_failure:
  assumes inv: "heap_inv (w_heap w)" and run: "cli_record P goblin F target out w = Some (Inl (Undefined x), w')"
  shows "\<exists>data pe l. hm_get (w_files w) target = Some data \<and> goblin data = Inr pe \<and> l = \<lparr>pl_pe = pe, raw_bytes = data\<rparr>
    \<and> ((\<exists>hp. map_into_memory l (w_heap w) = Some (Inl (Undefined x), hp))
       \<or> x = NullPointer \<and> h_avail (w_heap w) < unat (aligned_size l) + 0x14000)"
proof -
  let ?w = "w\<lparr>w_out := w_out w @ [RecordingTarget target]\<rparr>"
  obtain data pe where d: "hm_get (w_files w) target = Some data" "goblin data = Inr pe"
    and r: "bindE (on_heap (map_into_memory \<lparr>pl_pe = pe, raw_bytes = data\<rparr>))
       (\<lambda>(q, sz). record_loaded P F out \<lparr>pl_pe = pe, raw_bytes = data\<rparr> q sz) ?w = Some (Inl (Undefined x), w')"
    using run by (auto simp: cli_record_split thenE_step bindE_def [of "fs_read _ _"] bindE_def [of "expect_right _ _"] println_def fs_read_def
        expect_some_def expect_right_def PeLoader_parse_def raise_def ret_def split: option.splits sum.splits)
  let ?l = "\<lparr>pl_pe = pe, raw_bytes = data\<rparr>"
  from bindE_fails [OF r] have "(\<exists>hp. map_into_memory ?l (w_heap w) = Some (Inl (Undefined x), hp))
       \<or> x = NullPointer \<and> h_avail (w_heap w) < unat (aligned_size ?l) + 0x14000"
  proof (elim disjE exE conjE)
    assume "on_heap (map_into_memory ?l) ?w = Some (Inl (Undefined x), w')"
    then show ?thesis by (auto simp: on_heap_def split: option.splits)
  next
    fix y w1
    assume m: "on_heap (map_into_memory ?l) ?w = Some (Inr y, w1)"
      and t: "(case y of (q, sz) \<Rightarrow> record_loaded P F out ?l q sz) w1 = Some (Inl (Undefined x), w')"
    obtain q sz where y: "y = (q, sz)" by (cases y) auto
    have m: "map_into_memory ?l (w_heap w) = Some (Inr (q, sz), w_heap w1)" using m by (auto simp: y on_heap_def split: option.splits)
    have sz: "sz = aligned_size ?l" "sz \<noteq> 0"
      using map_into_memory_returns [OF inv m] map_into_memory_ok [OF inv, of ?l] m by auto
    have g: "grown (w_heap w) {q} (w_heap w1)" "block_size (w_heap w1) q = unat sz"
      using grown_map_into_memory [OF inv m] sz(1) by simp_all
    have av: "h_avail (w_heap w1) + unat sz = h_avail (w_heap w)"
      using grown_avail [OF g(1)] g(2) by simp
    have "allowed (if h_avail (w_heap w1) < 0x14000 then {NullPointer} else {}) (Undefined x)"
      using safe_failure [OF safe_record_loaded [OF _ sz(2) g(2)] _ t [unfolded y prod.case]] grown_inv [OF g(1)] by simp
    then show ?thesis using av sz(1) by (simp split: if_splits)
  qed
  then show ?thesis using d by blast
qed

end

section \<open>A hypervisor that spares the host\<close>

text \<open>Running a guest of the reference hypervisor stores into mapped memory and neither allocates nor frees.\<close>

interpretation ref_spares: whp_spares "ref_platform checks id x0 prog"
proof unfold_locales
  fix p i hp and h :: "'a ref_hv" and r hp' h'
  assume "WHvRunVirtualProcessor (ref_platform checks id x0 prog) p i (hp, h) = Some (r, hp', h')"
  moreover have "same_shape hp (fold (heap_poke m) ws hp)" for m ws
    by (induction ws arbitrary: hp) (auto intro: same_shape_trans heap_poke_shape)
  ultimately show "same_shape hp hp'"
    by (auto simp: ref_platform_def ref_run_def split: if_splits option.splits)
qed (simp add: iterates_all_def ref_platform_def)

section \<open>Properties\<close>


definition empty_pe :: "u8 list \<Rightarrow> unit + PE" where
  "empty_pe bytes = Inr \<lparr>pe_entry = 0, pe_size_of_image = Some 0, pe_sections = []\<rparr>"


text \<open>
  C8. On any hypervisor that leaves the host's allocations alone and for any archive below the size of
  the address space, \<open>replay\<close> leaves the contract of its \<open>unsafe\<close> code in one way only: while it reads an
  archive with an empty memory region, for which \<open>AlignedMemory::new\<close> makes an allocation of size 0.
  Nothing the trace, the guest or the hypervisor does afterwards can make it misuse its memory.
\<close>

theorem replay_memory_safe:
  assumes "whp_spares P" and "shrinking F" and "heap_inv (w_heap u)"
    and "\<forall>data. hm_get (w_files u) trace = Some data \<longrightarrow> length data < 2 ^ 64"
    and "main P goblin F (Replay trace) u = Some (Inl (Undefined x), u')"
  shows "x = ZeroSizeAlloc \<and> (\<exists>data hp. hm_get (w_files u) trace = Some data
    \<and> de_archive F data (w_heap u) = Some (Inl (Undefined ZeroSizeAlloc), hp))"
  by (rule whp_spares.cli_replay_failure [OF assms(1-3)]) (use assms(4,5) in \<open>simp_all add: main_def\<close>)

text \<open>An archive of one region, at address 0, with no bytes.\<close>

definition empty_region :: "u8 list" where
  "empty_region = put_len bincode_ref 1 @ put_u64 bincode_ref 0 @ put_len bincode_ref 0"

lemma empty_region_read: "de_archive bincode_ref empty_region hp = Some (Inl (Undefined ZeroSizeAlloc), hp)"
proof -
  have "get_len bincode_ref empty_region = Some (1, put_u64 bincode_ref 0 @ put_len bincode_ref 0)"
    "get_u64 bincode_ref (put_u64 bincode_ref 0 @ put_len bincode_ref 0) = Some (0, put_len bincode_ref 0)"
    "get_len bincode_ref (put_len bincode_ref 0) = Some (0, [])"
    using bincode_ref.len_back [of 1 "put_u64 bincode_ref 0 @ put_len bincode_ref 0"] bincode_ref.len_back [of 0 "[]"]
      bincode_ref.u64_back by (simp_all add: empty_region_def)
  then show ?thesis
    by (simp add: de_archive_def de_Snapshot_def de_AlignedMemory_def de_seq_def bindE_def read_with_def ret_def on_fst_def
        AlignedMemory_new_zero)
qed

theorem replay_memory_safe_witness:
  "\<exists>u'. main app_platform app_goblin bincode_ref (Replay ''trace.bin'') (app_world\<lparr>w_files := [(''trace.bin'', empty_region)]\<rparr>)
      = Some (Inl (Undefined ZeroSizeAlloc), u')
    \<and> (\<exists>data hp. hm_get [(''trace.bin'', empty_region)] ''trace.bin'' = Some data
       \<and> de_archive bincode_ref data (w_heap app_world) = Some (Inl (Undefined ZeroSizeAlloc), hp))"
proof -
  let ?u = "app_world\<lparr>w_files := [(''trace.bin'', empty_region)]\<rparr>"
  have f: "hm_get [(''trace.bin'', empty_region)] ''trace.bin'' = Some empty_region" by (simp add: hm_get_def)
  then have run: "main app_platform app_goblin bincode_ref (Replay ''trace.bin'') ?u
      = Some (Inl (Undefined ZeroSizeAlloc), ?u\<lparr>w_out := w_out ?u @ [ReplayingTrace ''trace.bin'']\<rparr>)"
    by (simp add: main_def cli_replay_split thenE_step bindE_def println_def fs_read_def expect_some_def ret_def
        expect_ok_def on_heap_def empty_region_read)
  have "length empty_region < 2 ^ 64" by (simp add: empty_region_def bincode_ref_def)
  moreover have "whp_spares app_platform" unfolding app_platform_def by (rule ref_spares.whp_spares_axioms)
  ultimately show ?thesis
    using replay_memory_safe [OF _ bincode_reader.shrinking_axioms _ _ run] app_world_ok(2) run f by simp
qed

end
