(* ===== verification/Machine_Code.thy ===== *)
theory Machine_Code
  imports Whp_Boot Vmm_Paging
begin

text \<open>
  What a long-mode processor fetches: the page tables at CR3, read from guest memory, translate
  the instruction pointer. The specification of a processor that executes the two instructions
  of the repository's end-to-end test.
\<close>

text \<open>The 8 bytes at a guest physical address.\<close>

definition mem_u64 :: "(u64 \<Rightarrow> (u8 \<times> u32) option) \<Rightarrow> u64 \<Rightarrow> u64 option" where
  "mem_u64 m g =
    (let bs = map (\<lambda>i. m (g + of_nat i)) [0..<8] in
     if None \<in> set bs then None else Some (of_le_bytes (map (\<lambda>b. fst (the b)) bs)))"

text \<open>
  The bytes at RIP of a processor in long mode: each address is translated by the page tables at
  CR3, and the page must be executable.
\<close>

definition fetches :: "'x arch \<Rightarrow> u8 list \<Rightarrow> bool" where
  "fetches a bs \<longleftrightarrow>
     bit (Reg64 (a_regs a Cr0)) 31 \<and> bit (Reg64 (a_regs a Cr4)) 5 \<and> bit (Reg64 (a_regs a Efer)) 10 \<and>
     list_all (\<lambda>i. case page_walk (mem_u64 (a_mem a)) (Reg64 (a_regs a Cr3)) (Reg64 (a_regs a Rip) + of_nat i) of
          None \<Rightarrow> False
        | Some pa \<Rightarrow> (case a_mem a pa of None \<Rightarrow> False | Some (b, fl) \<Rightarrow> b = bs ! i \<and> bit fl 2)) [0..<length bs]"

text \<open>
  A processor that executes RDTSC (\<open>0F 31\<close>) and HLT (\<open>F4\<close>): both exit before anything changes,
  RDTSC when it is intercepted, with its length in the exit context.
\<close>

definition executes_rdtsc_hlt :: "('x arch \<Rightarrow> ((u32 + exit_context) \<times> 'x arch) option) \<Rightarrow> bool" where
  "executes_rdtsc_hlt G \<longleftrightarrow> (\<forall>a.
     (fetches a [0x0F, 0x31] \<longrightarrow> bit (a_exits a) 3 \<longrightarrow> (\<exists>ctx a'. G a = Some (Inr ctx, a')
        \<and> ExitReason ctx = 4099 \<and> exit_instruction_length ctx = 2
        \<and> (\<forall>n. Reg64 (a_regs a' n) = Reg64 (a_regs a n)) \<and> a_mem a' = a_mem a \<and> a_exits a' = a_exits a)) \<and>
     (fetches a [0xF4] \<longrightarrow> (\<exists>ctx a'. G a = Some (Inr ctx, a')
        \<and> ExitReason ctx = 8 \<and> (\<forall>n. Reg64 (a_regs a' n) = Reg64 (a_regs a n)))))"

lemma page_walk_mono:
  assumes "\<And>g e. rd g = Some e \<Longrightarrow> rd' g = Some e" and "page_walk rd cr3 va = Some pa"
  shows "page_walk rd' cr3 va = Some pa"
proof -
  have t: "table_entry rd' t i = Some e" if "table_entry rd t i = Some e" for t i e
    using that assms(1) by (auto simp: table_entry_def split: option.splits if_splits)
  show ?thesis
    using assms(2) unfolding page_walk_def
    by (auto split: option.splits if_splits dest!: t)
qed

lemma mem_u64_table:
  assumes m: "\<And>i. i < length bs \<Longrightarrow> m (base + of_nat i) = Some (bs ! i, fl)"
    and t: "table_at base bs g = Some e"
  shows "mem_u64 m g = Some e"
proof -
  define off where "off = unat (g - base)"
  have o: "off + 8 \<le> length bs" "e = of_le_bytes (take 8 (drop off bs))"
    using t by (auto simp: table_at_def Let_def off_def split: if_splits)
  have g: "g = base + of_nat off" by (simp add: off_def)
  have b: "m (g + of_nat i) = Some (bs ! (off + i), fl)" if "i < 8" for i
    using m [of "off + i"] o(1) that by (simp add: g add.assoc)
  have l: "map (\<lambda>i. m (g + of_nat i)) [0..<8] = map (\<lambda>i. Some (bs ! (off + i), fl)) [0..<8]"
    using b by (intro map_cong) simp_all
  have t8: "take 8 (drop off bs) = map (\<lambda>i. bs ! (off + i)) [0..<8]"
    using o(1) by (intro nth_equalityI) simp_all
  show ?thesis
    unfolding mem_u64_def Let_def o(2) l t8 by (auto simp: comp_def)
qed

text \<open>Code that lies in the first gigabyte, under identity page tables, is what is fetched there.\<close>

lemma fetches_identity:
  assumes mode: "bit (Reg64 (a_regs a Cr0)) 31" "bit (Reg64 (a_regs a Cr4)) 5" "bit (Reg64 (a_regs a Efer)) 10"
    and mem: "mem_matches (a_mem a) C" and tab: "C base = Some tbl" "identity_table base tbl" "Reg64 (a_regs a Cr3) = base"
    and code: "C g = Some page" "Reg64 (a_regs a Rip) = g + of_nat off" "off + length bs \<le> length page"
      "\<And>i. i < length bs \<Longrightarrow> page ! (off + i) = bs ! i" "unat g + length page < 2 ^ 30"
  shows "fetches a bs"
proof -
  have w: "page_walk (mem_u64 (a_mem a)) base va = Some va" if "unat va < 2 ^ 30" for va
    by (rule page_walk_mono [OF mem_u64_table [OF mem_matchesD [OF mem tab(1)]] identity_walk [OF tab(2) that]])
  have "case page_walk (mem_u64 (a_mem a)) (Reg64 (a_regs a Cr3)) (Reg64 (a_regs a Rip) + of_nat i) of
          None \<Rightarrow> False
        | Some pa \<Rightarrow> (case a_mem a pa of None \<Rightarrow> False | Some (b, fl) \<Rightarrow> b = bs ! i \<and> bit fl 2)" if i: "i < length bs" for i
  proof -
    have k: "off + i < length page" using i code(3) by simp
    have "unat (g + of_nat (off + i)) < 2 ^ 30"
      using code(5) k by (simp add: unat_word_ariths unat_of_nat)
    moreover have "a_mem a (g + of_nat (off + i)) = Some (bs ! i, 7)"
      using mem_matchesD [OF mem code(1) k] code(4) [OF i] by simp
    ultimately show ?thesis
      using w [of "g + of_nat (off + i)"] by (simp add: tab(3) code(2) add.assoc)
  qed
  then show ?thesis
    using mode by (simp add: fetches_def list_all_iff)
qed

end
