(* ===== verification/Repo_Tests.thy ===== *)
theory Repo_Tests
  imports End_To_End Machine_Code
begin

text \<open>
  The test functions of the repository (\<open>crates/vmm/src/lib.rs\<close>, \<open>crates/engine/src/lib.rs\<close>,
  and the test modules of \<open>record.rs\<close>, \<open>loader.rs\<close> and \<open>format.rs\<close>) as programs of the model. A
  test passes when it returns. The tests that need a hypervisor pass on every hypervisor that
  keeps the contract; the end-to-end test also executes two machine instructions, so it is
  stated for a processor that fetches through its page tables.
\<close>

section \<open>The tests\<close>

text \<open>\<open>unwrap\<close> panics with a message of its own.\<close>

abbreviation unwrap :: "('s, 'a) cmd \<Rightarrow> ('s, 'a) cmd" where
  "unwrap \<equiv> expect_ok ''unwrap''"

text \<open>\<open>bincode::deserialize\<close> of one value.\<close>

definition deserialize :: "'a reader \<Rightarrow> u8 list \<Rightarrow> (heap, 'a) cmd" where
  "deserialize m bytes hp = (case m (hp, bytes) of
      None \<Rightarrow> None
    | Some (r, s) \<Rightarrow> Some (r, fst s))"

text \<open>\<open>alloc\<close> leaves the memory as it finds it; \<open>junk\<close> is what it finds.\<close>

definition alloc :: "(nat \<Rightarrow> u8) \<Rightarrow> layout \<Rightarrow> (heap, ptr) cmd" where
  "alloc junk l hp =
     (if l_size l = 0 then Some (Inl (Undefined ZeroSizeAlloc), hp)
      else if h_avail hp < unat (l_size l) then Some (Inr 0, hp)
      else Some (Inr (h_next hp),
        hp\<lparr>h_blocks := (h_blocks hp)(h_next hp \<mapsto>
               \<lparr>b_layout = l, b_bytes = map junk [0..<unat (l_size l)]\<rparr>),
           h_next := Suc (h_next hp), h_avail := h_avail hp - unat (l_size l)\<rparr>))"

definition test_trace_serialization :: "serde_format \<Rightarrow> (heap, unit) cmd" where
  "test_trace_serialization F =
    (let original_event = \<lparr>instruction_count = 15420,
           event = Syscall 0x100 [(0x5000, [0xDE, 0xAD, 0xBE, 0xEF])]\<rparr>;
         encoded = ser_TraceEvent F original_event in
     bindE (expect_ok ''Failed to deserialize trace event'' (deserialize (de_TraceEvent F) encoded)) (\<lambda>decoded.
     assert_that (original_event = decoded)))"

definition test_pe_parser_invalid_format :: "(u8 list \<Rightarrow> 'e + PE) \<Rightarrow> (heap, unit) cmd" where
  "test_pe_parser_invalid_format goblin =
    (let result = PeLoader_parse goblin [0x00, 0x11, 0x22, 0x33] in
     assert_that (case result of Inl e \<Rightarrow> True | Inr l \<Rightarrow> False))"

text \<open>The bytes of \<open>b"Deterministic execution test data"\<close>.\<close>

definition test_data :: "u8 list" where
  "test_data = [68, 101, 116, 101, 114, 109, 105, 110, 105, 115, 116, 105, 99, 32, 101, 120, 101, 99,
     117, 116, 105, 111, 110, 32, 116, 101, 115, 116, 32, 100, 97, 116, 97]"

definition test_aligned_memory_serde :: "serde_format \<Rightarrow> (heap, unit) cmd" where
  "test_aligned_memory_serde F =
     bindE (AlignedMemory_new 4096) (\<lambda>mem.
     thenE (copy_from_slice test_data (am_ptr mem) 0 (length test_data))
    (bindE (expect_ok ''Failed to serialize AlignedMemory'' (ser_AlignedMemory F mem)) (\<lambda>serialized_data.
     bindE (expect_ok ''Failed to deserialize'' (deserialize (de_AlignedMemory F) serialized_data)) (\<lambda>deserialized_mem.
     thenE (assert_that (AlignedMemory_len mem = AlignedMemory_len deserialized_mem))
    (bindE (AlignedMemory_slice deserialized_mem) (\<lambda>deserialized_slice.
     thenE (assert_that (take (length test_data) deserialized_slice = test_data))
    (thenE (AlignedMemory_drop deserialized_mem)
    (AlignedMemory_drop mem))))))))"

definition test_snapshot_registers_serde :: "'h platform \<Rightarrow> serde_format \<Rightarrow> (heap, unit) cmd" where
  "test_snapshot_registers_serde P F =
    (let snapshot = Snapshot_new\<lparr>registers := registers Snapshot_new @ [mk_Reg64 0xDEADBEEFCAFEBABE]\<rparr> in
     bindE (expect_ok ''Failed to serialize Snapshot'' (ser_Snapshot P F snapshot)) (\<lambda>serialized_data.
     bindE (expect_ok ''Failed to deserialize'' (deserialize (de_Snapshot F) serialized_data)) (\<lambda>deserialized_snap.
     thenE (assert_that (length (registers snapshot) = length (registers deserialized_snap)))
    (assert_that (Reg64 (registers snapshot ! 0) = Reg64 (registers deserialized_snap ! 0))))))"

definition test_phase1_interception_foundation :: "'h platform \<Rightarrow> (nat \<Rightarrow> u8) \<Rightarrow> ('h world, unit) cmd" where
  "test_phase1_interception_foundation P junk =
     bindE (expect_ok ''Failed to create WHPX partition'' (VmPartition_new P)) (\<lambda>vm.
     thenE (expect_ok ''Failed to configure VMExit interceptions'' (configure_interceptions P vm))
    (bindE (expect_ok ''Failed to create vCPU'' (Vcpu_new P (as_raw vm) 0)) (\<lambda>vcpu.
     let ept = EptManager_new (as_raw vm) in
     bindE (expect_some ''Invalid layout'' (Layout_from_size_align 4096 4096)) (\<lambda>layout.
     bindE (on_heap (alloc junk layout)) (\<lambda>host_ptr.
     thenE (expect_ok ''Failed to map EPT memory'' (map_gpa_range P ept 0x1000 host_ptr 4096 0x3))
    (bindE (expect_ok ''Failed to read vCPU registers'' (get_registers P vcpu [Rip] [0])) (\<lambda>values.
     thenE (on_heap (dealloc host_ptr layout))
    (thenE (Vcpu_drop P vcpu)
    (VmPartition_drop P vm)))))))))"

text \<open>\<open>dummy_memory\<close> is an array of three bytes, \<open>[0x90, 0x90, 0xCC]\<close>, at the address passed in.\<close>

definition test_phase2_record_engine :: "'h platform \<Rightarrow> ptr \<Rightarrow> ('h world, unit) cmd" where
  "test_phase2_record_engine P dummy_memory =
     bindE (on_heap (capture_region 0x1000 dummy_memory 3 Snapshot_new)) (\<lambda>snapshot.
     bindE (expect_some ''unwrap'' (hm_get (memory_regions snapshot) 0x1000)) (\<lambda>region.
     thenE (assert_that (AlignedMemory_len region = 3))
    (let logger = log_event \<lparr>instruction_count = 150, event = Syscall 0 [(0x2000, [0xAA, 0xBB])]\<rparr> TraceLogger_new;
         es = events logger in
     thenE (assert_that (length es = 1))
    (thenE (assert_that (instruction_count (es ! 0) = 150))
    (Snapshot_drop P snapshot)))))"

definition test_phase3_replay_engine_injection :: "'h platform \<Rightarrow> ('h world, unit) cmd" where
  "test_phase3_replay_engine_injection P =
     bindE (expect_ok ''Failed to create partition'' (VmPartition_new P)) (\<lambda>vm.
     thenE (unwrap (configure_interceptions P vm))
    (bindE (expect_ok ''Failed to create vCPU'' (Vcpu_new P (as_raw vm) 0)) (\<lambda>vcpu.
     let replay = register_vcpu 0 vcpu (ReplayEngine_new vm 0) in
     thenE (expect_ok ''Failed to inject event''
              (inject_event P replay \<lparr>instruction_count = 0, event = Syscall 0xDEADBEEF []\<rparr>))
    (bindE (expect_ok ''Failed to read registers'' (get_registers P vcpu [Rax] [0])) (\<lambda>values.
     thenE (assert_that (Reg64 (values ! 0) = 0xDEADBEEF))
    (thenE (Vcpu_drop P vcpu)
    (VmPartition_drop P vm)))))))"

definition test_phase3_replay_engine_interleaving :: "'h platform \<Rightarrow> ('h world, unit) cmd" where
  "test_phase3_replay_engine_interleaving P =
     bindE (expect_ok ''Failed to create partition'' (VmPartition_new P)) (\<lambda>vm.
     thenE (unwrap (configure_interceptions P vm))
    (bindE (expect_ok ''Failed to create vCPU 0'' (Vcpu_new P (as_raw vm) 0)) (\<lambda>vcpu0.
     let replay = register_vcpu 0 vcpu0 (ReplayEngine_new vm 0) in
     thenE (assert_that (active_vcpu_id replay = 0))
    (thenE (expect_ok ''Failed to inject context switch''
              (inject_event P replay \<lparr>instruction_count = 500, event = ContextSwitch 1\<rparr>))
    (thenE (assert_that (active_vcpu_id replay = 0))
    (thenE (Vcpu_drop P vcpu0)
    (VmPartition_drop P vm)))))))"

text \<open>The end-to-end test, in its three phases. The first writes RDTSC and HLT.\<close>

definition e2e_record :: "'h platform \<Rightarrow> u64 \<Rightarrow> ('h world, Snapshot) cmd" where
  "e2e_record P table_gpa =
     bindE (expect_some ''unwrap'' (Layout_from_size_align 4096 4096)) (\<lambda>layout.
     bindE (on_heap (alloc_zeroed layout)) (\<lambda>host_memory.
     thenE (on_heap (heap_write host_memory 0 [0x0F]))
    (thenE (on_heap (heap_write host_memory 1 [0x31]))
    (thenE (on_heap (heap_write host_memory 2 [0xF4]))
    (bindE (on_heap (capture_region 0x1000 host_memory 4096 Snapshot_new)) (\<lambda>snapshot.
     bindE (create_identity_mapping P table_gpa) (\<lambda>page_table.
     on_heap (capture_region table_gpa (pt_host_ptr page_table) (pt_size page_table) snapshot))))))))"

definition e2e_events :: "TraceEvent list" where
  "e2e_events =
     events (log_event \<lparr>instruction_count = 0, event = ContextSwitch 1\<rparr>
       (log_event \<lparr>instruction_count = 0, event = Rdtsc 0x1111 0x0\<rparr> TraceLogger_new))"

definition e2e_replay ::
    "'h platform \<Rightarrow> u64 \<Rightarrow> Snapshot \<Rightarrow> ('h world, VmPartition \<times> Vcpu \<times> ReplayEngine) cmd" where
  "e2e_replay P table_gpa snapshot =
     bindE (expect_ok ''Failed to create partition'' (VmPartition_new P)) (\<lambda>vm.
     thenE (unwrap (configure_interceptions P vm))
    (bindE (expect_ok ''Failed to create vCPU 0'' (Vcpu_new P (as_raw vm) 0)) (\<lambda>vcpu0.
     thenE (unwrap (setup_long_mode P vcpu0 table_gpa))
    (thenE (unwrap (set_registers P vcpu0 [Rip] [mk_Reg64 0x1000]))
    (let replay = register_vcpu 0 vcpu0 (ReplayEngine_new vm 0) in
     thenE (expect_ok ''Failed to restore snapshot'' (restore_snapshot P replay snapshot []))
    (thenE (for_each e2e_events (\<lambda>event. expect_ok ''Failed to replay event'' (replay_event P replay event)))
    (ret (vm, vcpu0, replay))))))))"

definition test_phase4_e2e_record_replay_pipeline :: "'h platform \<Rightarrow> ('h world, unit) cmd" where
  "test_phase4_e2e_record_replay_pipeline P =
     bindE (e2e_record P 0x2000) (\<lambda>snapshot.
     bindE (e2e_replay P 0x2000 snapshot) (\<lambda>(vm, vcpu0, replay).
     bindE (unwrap (get_registers P vcpu0 [Rax] [0])) (\<lambda>values.
     thenE (assert_that (Reg64 (values ! 0) = 0x1111))
    (thenE (assert_that (active_vcpu_id replay = 0))
    (thenE (Vcpu_drop P vcpu0)
    (thenE (VmPartition_drop P vm)
    (Snapshot_drop P snapshot)))))))"

section \<open>Unit tests\<close>

lemma drops_return: "\<exists>w'. thenE (Vcpu_drop P v) (VmPartition_drop P vm) w = Some (Inr (), w')"
  by (auto simp: Vcpu_drop_def VmPartition_drop_def ignore_hv_def thenE_step ret_def)

lemma test_trace_serialization_passes:
  assumes "binary_format F"
  shows "test_trace_serialization F hp = Some (Inr (), hp)"
proof -
  let ?e = "\<lparr>instruction_count = 15420, event = Syscall 0x100 [(0x5000, [0xDE, 0xAD, 0xBE, 0xEF])]\<rparr> :: TraceEvent"
  have "event_fits (event ?e)" by (simp add: event_fits_def)
  then have "de_TraceEvent F (hp, ser_TraceEvent F ?e @ []) = Some (Inr ?e, (hp, []))"
    using binary_format.reads_TraceEvent [OF assms, of ?e] unfolding reads_def by blast
  then have "deserialize (de_TraceEvent F) (ser_TraceEvent F ?e) hp = Some (Inr ?e, hp)"
    by (simp add: deserialize_def)
  then show ?thesis
    by (simp add: test_trace_serialization_def Let_def bindE_step assert_that_def ret_def)
qed

lemma test_aligned_memory_serde_passes:
  assumes F: "binary_format F" and inv: "heap_inv hp" and av: "8192 \<le> h_avail hp"
  shows "\<exists>hp'. test_aligned_memory_serde F hp = Some (Inr (), hp')"
proof -
  define buf where "buf = (\<lambda>p. \<lparr>am_ptr = p, am_size = 4096, am_layout = \<lparr>l_size = 4096, l_align = 4096\<rparr>\<rparr>)"
  let ?z = "replicate 4096 (0 :: u8)" and ?p = "h_next hp"
  let ?bs = "patch 0 test_data ?z"
  have n: "unat (4096 :: usize) = 4096" by simp
  have len: "length ?bs = 4096" "length test_data = 33" by (simp_all add: test_data_def)
  obtain hp1 where h1: "AlignedMemory_new 4096 hp = Some (Inr (buf ?p), hp1)" "heap_inv hp1" "h_next hp1 = Suc ?p"
    "h_avail hp1 = h_avail hp - 4096"
    "h_blocks hp1 = (h_blocks hp)(?p \<mapsto> \<lparr>b_layout = \<lparr>l_size = 4096, l_align = 4096\<rparr>, b_bytes = ?z\<rparr>)"
    using AlignedMemory_new_ok [OF inv, of 4096] av unfolding n buf_def by auto
  let ?b = "\<lparr>b_layout = \<lparr>l_size = 4096, l_align = 4096\<rparr>, b_bytes = ?bs\<rparr>"
  let ?hp2 = "hp1\<lparr>h_blocks := (h_blocks hp1)(?p \<mapsto> ?b)\<rparr>"
  have p0: "?p \<noteq> 0" using inv by (simp add: heap_inv_def)
  have h2: "copy_from_slice test_data (am_ptr (buf ?p)) 0 (length test_data) hp1 = Some (Inr (), ?hp2)"
    using p0 h1(5) len(2) by (simp add: copy_from_slice_def heap_write_def access_fault_def buf_def)
  have inv2: "heap_inv ?hp2" using inv h1(3,5) len(1) by (auto simp: heap_inv_def less_Suc_eq)
  have am: "am_inv ?hp2 (buf ?p)" by (simp add: am_inv_def buf_def)
  have s: "ser_AlignedMemory F (buf ?p) ?hp2 = Some (Inr (put_bytes F ?bs), ?hp2)"
    using AlignedMemory_slice_ok [OF inv2 am]
    by (simp add: ser_AlignedMemory_def bindE_step ret_def heap_content_def buf_def)
  have nx: "h_next ?hp2 = Suc ?p" "4096 \<le> h_avail ?hp2" using h1(3,4) av by simp_all
  have "?bs \<noteq> []" "length ?bs \<le> 2 ^ 63 - 4096" "length ?bs \<le> h_avail ?hp2" using len(1) nx(2) by auto
  from binary_format.de_AlignedMemory_ok [OF F inv2 this, of "[]"]
  obtain hp3 where h3: "de_AlignedMemory F (?hp2, put_bytes F ?bs) = Some (Inr (buf (Suc ?p)), (hp3, []))" "heap_inv hp3"
    "h_blocks hp3 = (h_blocks ?hp2)(Suc ?p \<mapsto> ?b)"
    unfolding len(1) nx(1) buf_def by auto
  have am3: "am_inv hp3 (buf (Suc ?p))" using h3(3) by (simp add: am_inv_def buf_def)
  have sl: "AlignedMemory_slice (buf (Suc ?p)) hp3 = Some (Inr ?bs, hp3)"
    using AlignedMemory_slice_ok [OF h3(2) am3] h3(3) by (simp add: heap_content_def buf_def)
  have t: "take (length test_data) ?bs = test_data" by (simp add: patch_def)
  have d: "\<exists>hp'. thenE (AlignedMemory_drop (buf (Suc ?p))) (AlignedMemory_drop (buf ?p)) hp3 = Some (Inr (), hp')"
    using h3(3) by (simp add: AlignedMemory_drop_def dealloc_def thenE_step buf_def)
  have de: "deserialize (de_AlignedMemory F) (put_bytes F ?bs) ?hp2 = Some (Inr (buf (Suc ?p)), hp3)"
    using h3(1) by (simp add: deserialize_def)
  have l: "AlignedMemory_len (buf q) = 4096" for q by (simp add: AlignedMemory_len_def buf_def)
  show ?thesis
    using h1(1) h2 s de sl d unfolding test_aligned_memory_serde_def
    by (simp add: bindE_step thenE_step assert_that_def ret_def t l)
qed

lemma test_snapshot_registers_serde_passes:
  assumes F: "binary_format F" and ord: "iterates_all P"
  shows "test_snapshot_registers_serde P F hp = Some (Inr (), hp)"
proof -
  let ?rs = "[mk_Reg64 0xDEADBEEFCAFEBABE]"
  let ?s = "\<lparr>memory_regions = [], registers = ?rs\<rparr>"
  have "set (hash_order P []) = {}" using ord by (simp add: iterates_all_def)
  then have ser: "ser_Snapshot P F ?s hp = Some (Inr (put_len F 0 @ ser_registers F ?rs), hp)"
    by (simp add: ser_Snapshot_def bindE_step ret_def hm_keys_def)
  have "reads (de_Snapshot F) (put_len F 0 @ ser_registers F ?rs) ?s"
    unfolding de_Snapshot_def
    by (rule reads_bind [OF binary_format.reads_len [OF F]], simp, simp)
      (rule reads_last [OF binary_format.reads_registers [OF F]], simp)
  then have "de_Snapshot F (hp, (put_len F 0 @ ser_registers F ?rs) @ []) = Some (Inr ?s, (hp, []))"
    unfolding reads_def by blast
  then have "deserialize (de_Snapshot F) (put_len F 0 @ ser_registers F ?rs) hp = Some (Inr ?s, hp)"
    by (simp add: deserialize_def)
  then show ?thesis
    using ser by (simp add: test_snapshot_registers_serde_def Let_def Snapshot_new_def bindE_step thenE_step assert_that_def ret_def)
qed

lemma test_phase2_record_engine_passes:
  assumes inv: "heap_inv (w_heap w)" and ord: "iterates_all P"
    and mem: "heap_content (w_heap w) p = Some [0x90, 0x90, 0xCC]" and av: "3 \<le> h_avail (w_heap w)"
  shows "\<exists>w'. test_phase2_record_engine P p w = Some (Inr (), w')"
proof -
  have n: "unat (3 :: usize) = 3" by simp
  obtain hp1 s where c: "capture_region 0x1000 p 3 Snapshot_new (w_heap w) = Some (Inr s, hp1)" "heap_inv hp1" "snap_inv hp1 s"
    "region_bytes hp1 s = [0x1000 \<mapsto> [0x90, 0x90, 0xCC]]"
    using capture_region_ok [OF inv snap_inv_new(1) _ mem, of "0x1000" 3] av unfolding n by (auto simp: hm.get_empty)
  obtain m where m: "hm_get (memory_regions s) 0x1000 = Some m" "heap_content hp1 (am_ptr m) = Some [0x90, 0x90, 0xCC]"
    using fun_cong [OF c(4), of "0x1000"] by (auto simp: region_bytes_def split: option.splits)
  have "am_inv hp1 m" using c(3) m(1) unfolding snap_inv_def by blast
  then have "unat (am_size m) = 3"
    by (rule am_inv_content [OF c(2)]) (use m(2) in simp)
  then have len: "AlignedMemory_len m = 3" by (simp add: AlignedMemory_len_def word_unat_eq_iff)
  obtain w' where "Snapshot_drop P s (w\<lparr>w_heap := hp1\<rparr>) = Some (Inr (), w')"
    using Snapshot_drop_ok [OF ord, of "w\<lparr>w_heap := hp1\<rparr>" s] c(3) by auto
  then show ?thesis
    using c(1) m(1) len unfolding test_phase2_record_engine_def
    by (simp add: bindE_step thenE_step on_heap_def expect_some_def assert_that_def ret_def Let_def log_event_def TraceLogger_new_def)
qed

section \<open>Tests on a hypervisor\<close>

context whp_boot
begin

lemma machine_ready:
  assumes "room (w_hv w)"
  obtains vm w1 w2 w3 where "VmPartition_new P w = Some (Inr vm, w1)" and "configure_interceptions P vm w1 = Some (Inr (), w2)"
    and "Vcpu_new P (vp_handle vm) 0 w2 = Some (Inr \<lparr>vc_partition = vp_handle vm, vc_index = 0\<rparr>, w3)"
    and "w_heap w3 = w_heap w" and "live (w_hv w3) (vp_handle vm) 0" and "gpas (w_hv w3) (vp_handle vm) = (\<lambda>_. None)"
    and "exits (w_hv w3) (vp_handle vm) = intercept_mask" and "regs (w_hv w3) (vp_handle vm) 0 = regs0"
proof -
  obtain vm w2 where b: "bindE (VmPartition_new P) (\<lambda>p. thenE (configure_interceptions P p) (ret p)) w = Some (Inr vm, w2)"
    "w_heap w2 = w_heap w" "idle (w_hv w2) (vp_handle vm)" "gpas (w_hv w2) (vp_handle vm) = (\<lambda>_. None)"
    "exits (w_hv w2) (vp_handle vm) = intercept_mask"
    using partition_ready [OF assms] unfolding hv_only_iff by blast
  obtain w1 where w1: "VmPartition_new P w = Some (Inr vm, w1)" "configure_interceptions P vm w1 = Some (Inr (), w2)"
    using b(1) by (elim bindE_SomeD thenE_SomeD) (auto simp: ret_Inr)
  obtain w3 where "Vcpu_new P (vp_handle vm) 0 w2 = Some (Inr \<lparr>vc_partition = vp_handle vm, vc_index = 0\<rparr>, w3)"
    "w_heap w3 = w_heap w2" "live (w_hv w3) (vp_handle vm) 0" "gpas (w_hv w3) (vp_handle vm) = gpas (w_hv w2) (vp_handle vm)"
    "exits (w_hv w3) (vp_handle vm) = exits (w_hv w2) (vp_handle vm)" "regs (w_hv w3) (vp_handle vm) 0 = regs0"
    using Vcpu_new_idle [OF b(3), of 0] unfolding hv_only_iff by blast
  then show ?thesis using that w1 b by simp
qed

lemma test_phase1_passes:
  assumes room: "room (w_hv w)" and inv: "heap_inv (w_heap w)" and av: "4096 \<le> h_avail (w_heap w)"
  shows "\<exists>w'. test_phase1_interception_foundation P junk w = Some (Inr (), w')"
proof -
  obtain vm w1 w2 w3 where m: "VmPartition_new P w = Some (Inr vm, w1)" "configure_interceptions P vm w1 = Some (Inr (), w2)"
    "Vcpu_new P (vp_handle vm) 0 w2 = Some (Inr \<lparr>vc_partition = vp_handle vm, vc_index = 0\<rparr>, w3)"
    "w_heap w3 = w_heap w" "live (w_hv w3) (vp_handle vm) 0" "gpas (w_hv w3) (vp_handle vm) = (\<lambda>_. None)"
    using machine_ready [OF room] by metis
  let ?v = "\<lparr>vc_partition = vp_handle vm, vc_index = 0\<rparr>" and ?l = "\<lparr>l_size = 4096, l_align = 4096\<rparr> :: layout"
  let ?q = "h_next (w_heap w)"
  let ?hp = "(w_heap w)\<lparr>h_blocks := (h_blocks (w_heap w))(?q \<mapsto> \<lparr>b_layout = ?l, b_bytes = map junk [0..<4096]\<rparr>),
      h_next := Suc ?q, h_avail := h_avail (w_heap w) - 4096\<rparr>"
  let ?w4 = "w3\<lparr>w_heap := ?hp\<rparr>"
  have al: "alloc junk ?l (w_heap w3) = Some (Inr ?q, ?hp)"
    using av m(4) by (simp add: alloc_def)
  have ly: "Layout_from_size_align 4096 4096 = Some ?l" by (rule Layout_4096) simp
  have inv4: "heap_inv ?hp" using inv by (auto simp: heap_inv_def less_Suc_eq)
  obtain w5 where w5: "map_gpa_range P (EptManager_new (vp_handle vm)) 0x1000 ?q 4096 3 ?w4 = Some (Inr (), w5)"
    "w_heap w5 = ?hp" "live (w_hv w5) (vp_handle vm) 0"
    using map_gpa_range_live [of ?w4 "vp_handle vm" 0 4096 "0x1000" ?q 3] m(5,6) unfolding hv_only_iff
    by (auto simp: mapped_ptrs_def)
  obtain vs where vs: "get_registers P ?v [Rip] [0] w5 = Some (Inr vs, w5)"
    using get_registers_ready [of w5 ?v "[Rip]" "[0]"] w5(2,3) inv4 by auto
  have "\<exists>hp'. dealloc ?q ?l (w_heap w5) = Some (Inr (), hp')" by (simp add: w5(2) dealloc_def)
  then obtain hp' where d: "dealloc ?q ?l (w_heap w5) = Some (Inr (), hp')" by blast
  show ?thesis
    using m(1,2,3) al w5(1) vs d drops_return [of P ?v vm "w5\<lparr>w_heap := hp'\<rparr>"]
    unfolding test_phase1_interception_foundation_def Let_def as_raw_def ly
    by (auto simp add: bindE_step thenE_step expect_some_def on_heap_def)
qed

lemma test_phase3_injection_passes:
  assumes room: "room (w_hv w)" and inv: "heap_inv (w_heap w)" and acc: "reject [Rax] [mk_Reg64 0xDEADBEEF] = None"
  shows "\<exists>w'. test_phase3_replay_engine_injection P w = Some (Inr (), w')"
proof -
  obtain vm w1 w2 w3 where m: "VmPartition_new P w = Some (Inr vm, w1)" "configure_interceptions P vm w1 = Some (Inr (), w2)"
    "Vcpu_new P (vp_handle vm) 0 w2 = Some (Inr \<lparr>vc_partition = vp_handle vm, vc_index = 0\<rparr>, w3)"
    "w_heap w3 = w_heap w" "live (w_hv w3) (vp_handle vm) 0"
    using machine_ready [OF room] by metis
  let ?v = "\<lparr>vc_partition = vp_handle vm, vc_index = 0\<rparr>"
  let ?r = "register_vcpu 0 ?v (ReplayEngine_new vm 0)"
  let ?e = "\<lparr>instruction_count = 0, event = Syscall 0xDEADBEEF []\<rparr> :: TraceEvent"
  have rd: "ready ?v w3" using m(4,5) inv by simp
  have r: "replays_on vm ?v ?r" by simp
  have "abs_inject reject (event ?e) (arch ?v w3) = Inr ((arch ?v w3)\<lparr>a_regs := upd_regs (a_regs (arch ?v w3)) [(Rax, mk_Reg64 0xDEADBEEF)]\<rparr>)"
    using acc by (simp add: abs_inject_def abs_set_def)
  then obtain w4 where w4: "inject_event P ?r ?e w3 = Some (Inr (), w4)" "frame ?v w3 w4"
    "arch ?v w4 = (arch ?v w3)\<lparr>a_regs := upd_regs (a_regs (arch ?v w3)) [(Rax, mk_Reg64 0xDEADBEEF)]\<rparr>"
    using inject_event_ready [OF rd r] by blast
  have g: "get_registers P ?v [Rax] [0] w4 = Some (Inr [a_regs (arch ?v w4) Rax], w4)"
    using get_registers_ready [OF frame_ready [OF w4(2)], of "[Rax]" "[0]"] by simp
  have "Reg64 (a_regs (arch ?v w4) Rax) = 0xDEADBEEF" by (simp add: w4(3) Reg64_upd_regs)
  then show ?thesis
    using m(1,2,3) w4(1) g drops_return [of P ?v vm w4]
    unfolding test_phase3_replay_engine_injection_def Let_def as_raw_def
    by (simp add: bindE_step thenE_step assert_that_def ret_def)
qed

lemma test_phase3_interleaving_passes:
  assumes room: "room (w_hv w)"
  shows "\<exists>w'. test_phase3_replay_engine_interleaving P w = Some (Inr (), w')"
proof -
  obtain vm w1 w2 w3 where m: "VmPartition_new P w = Some (Inr vm, w1)" "configure_interceptions P vm w1 = Some (Inr (), w2)"
    "Vcpu_new P (vp_handle vm) 0 w2 = Some (Inr \<lparr>vc_partition = vp_handle vm, vc_index = 0\<rparr>, w3)"
    using machine_ready [OF room] by metis
  let ?v = "\<lparr>vc_partition = vp_handle vm, vc_index = 0\<rparr>"
  have r: "replays_on vm ?v (register_vcpu 0 ?v (ReplayEngine_new vm 0))" by simp
  have i: "active_vcpu_id (register_vcpu 0 ?v (ReplayEngine_new vm 0)) = 0"
    by (simp add: register_vcpu_def ReplayEngine_new_def)
  show ?thesis
    using m drops_return [of P ?v vm w3]
    unfolding test_phase3_replay_engine_interleaving_def Let_def as_raw_def inject_event_def
    by (simp add: bindE_step thenE_step assert_that_def i active_vcpu_ret [OF r]) (simp add: thenE_step ret_def)
qed

end

section \<open>The end-to-end test\<close>

definition e2e_code :: "u8 list" where
  "e2e_code = [0x0F, 0x31, 0xF4] @ replicate 4093 0"

lemma e2e_code_patches:
  "patch 2 [0xF4] (patch 1 [0x31] (patch 0 [0x0F] (replicate 4096 0))) = e2e_code" "length e2e_code = 4096"
proof -
  show "patch 2 [0xF4] (patch 1 [0x31] (patch 0 [0x0F] (replicate 4096 0))) = e2e_code"
    by (simp add: patch_def e2e_code_def numeral_2_eq_2)
  show "length e2e_code = 4096" by (simp add: e2e_code_def)
qed

text \<open>The page the test writes its three instructions into.\<close>

lemma e2e_page:
  assumes inv: "heap_inv hp" and av: "4096 \<le> h_avail hp"
  obtains hp1 hp2 hp3 hp4 where
    "alloc_zeroed \<lparr>l_size = 4096, l_align = 4096\<rparr> hp = Some (Inr (h_next hp), hp1)"
    "heap_write (h_next hp) 0 [0x0F] hp1 = Some (Inr (), hp2)" "heap_write (h_next hp) 1 [0x31] hp2 = Some (Inr (), hp3)"
    "heap_write (h_next hp) 2 [0xF4] hp3 = Some (Inr (), hp4)"
    "heap_inv hp4" "heap_content hp4 (h_next hp) = Some e2e_code" "h_avail hp4 = h_avail hp - 4096"
proof -
  let ?l = "\<lparr>l_size = 4096, l_align = 4096\<rparr> :: layout" and ?p = "h_next hp"
  obtain hp1 where h1: "alloc_zeroed ?l hp = Some (Inr ?p, hp1)" "?p \<noteq> 0" "heap_inv hp1"
    "heap_content hp1 = (heap_content hp)(?p \<mapsto> replicate 4096 0)"
    using alloc_zeroed_fresh [OF inv, of ?l] av by auto
  have a1: "h_avail hp1 = h_avail hp - 4096"
    using alloc_zeroed_frame [OF h1(1,2)] by auto
  obtain hp2 where h2: "heap_write ?p 0 [0x0F] hp1 = Some (Inr (), hp2)" "heap_inv hp2"
    "heap_content hp2 = (heap_content hp1)(?p \<mapsto> patch 0 [0x0F] (replicate 4096 0))"
    using heap_write_ok [OF h1(3), of ?p "replicate 4096 0" 0 "[0x0F]"] h1(4) by auto
  obtain hp3 where h3: "heap_write ?p 1 [0x31] hp2 = Some (Inr (), hp3)" "heap_inv hp3"
    "heap_content hp3 = (heap_content hp2)(?p \<mapsto> patch 1 [0x31] (patch 0 [0x0F] (replicate 4096 0)))"
    using heap_write_ok [OF h2(2), of ?p _ 1 "[0x31]"] h2(3) by fastforce
  obtain hp4 where h4: "heap_write ?p 2 [0xF4] hp3 = Some (Inr (), hp4)" "heap_inv hp4"
    "heap_content hp4 = (heap_content hp3)(?p \<mapsto> e2e_code)"
    using heap_write_ok [OF h3(2), of ?p _ 2 "[0xF4]"] h3(3) unfolding e2e_code_patches(1) [symmetric] by fastforce
  have a4: "h_avail hp4 = h_avail hp - 4096"
    using heap_write_shape(1) [OF h2(1)] heap_write_shape(1) [OF h3(1)] heap_write_shape(1) [OF h4(1)] a1
    by (simp add: same_shape_def)
  have c4: "heap_content hp4 ?p = Some e2e_code" using h4(3) by simp
  show ?thesis by (rule that [OF h1(1) h2(1) h3(1) h4(1,2) c4 a4])
qed

lemma e2e_record_ok:
  assumes inv: "heap_inv (w_heap w)" and av: "32768 \<le> h_avail (w_heap w)"
  shows "\<exists>s w' tbl. e2e_record P 0x2000 w = Some (Inr s, w') \<and> w_hv w' = w_hv w \<and> heap_inv (w_heap w') \<and> snap_inv (w_heap w') s
    \<and> registers s = [] \<and> region_bytes (w_heap w') s = [0x1000 \<mapsto> e2e_code, 0x2000 \<mapsto> tbl] \<and> identity_table 0x2000 tbl"
proof -
  let ?p = "h_next (w_heap w)"
  have ly: "Layout_from_size_align 4096 4096 = Some \<lparr>l_size = 4096, l_align = 4096\<rparr>" by (rule Layout_4096) simp
  have av0: "4096 \<le> h_avail (w_heap w)" using av by simp
  obtain hp1 hp2 hp3 hp4 where h1: "alloc_zeroed \<lparr>l_size = 4096, l_align = 4096\<rparr> (w_heap w) = Some (Inr ?p, hp1)"
    and h2: "heap_write ?p 0 [0x0F] hp1 = Some (Inr (), hp2)" and h3: "heap_write ?p 1 [0x31] hp2 = Some (Inr (), hp3)"
    and h4: "heap_write ?p 2 [0xF4] hp3 = Some (Inr (), hp4)" "heap_inv hp4"
    and c4: "heap_content hp4 ?p = Some e2e_code" and a4: "h_avail hp4 = h_avail (w_heap w) - 4096"
    by (rule e2e_page [OF inv av0])
  have av4: "4096 \<le> h_avail hp4" using a4 av by simp
  obtain hp5 s1 where h5: "capture_region 0x1000 ?p 4096 Snapshot_new hp4 = Some (Inr s1, hp5)" "heap_inv hp5" "snap_inv hp5 s1"
    "registers s1 = []" "hm_keys (memory_regions s1) = [0x1000]" "region_bytes hp5 s1 = [0x1000 \<mapsto> e2e_code]" "h_avail hp5 = h_avail hp4 - 4096"
    using capture_region_ok [OF h4(2) snap_inv_new(1) _ c4, of "0x1000" 4096] av4 e2e_code_patches(2)
    by (auto simp: hm.get_empty hm_keys_def)
  let ?w5 = "w\<lparr>w_heap := hp5\<rparr>"
  have av5: "12288 \<le> h_avail (w_heap ?w5)" "heap_inv (w_heap ?w5)" using h5(2,7) a4 av by simp_all
  obtain w6 q tbl where h6: "create_identity_mapping P 0x2000 ?w5 = Some (Inr \<lparr>pml4_gpa = 0x2000, pt_host_ptr = q, pt_size = 12288\<rparr>, w6)"
    "w6 = ?w5\<lparr>w_heap := w_heap w6\<rparr>" "heap_inv (w_heap w6)" "heap_content (w_heap w6) = (heap_content hp5)(q \<mapsto> tbl)"
    "length tbl = 12288" "\<forall>k < 1536. entry tbl k = identity_entry 0x2000 k"
    using create_identity_mapping_ok [OF av5(2,1), of "0x2000" P] by auto
  have fr: "h_avail (w_heap w6) + 12288 = h_avail hp5" "\<forall>q. heap_content hp5 q \<noteq> None \<longrightarrow> h_blocks (w_heap w6) q = h_blocks hp5 q"
    using create_identity_mapping_frame [OF h6(1) av5] by simp_all
  have s6: "snap_inv (w_heap w6) s1" "region_bytes (w_heap w6) s1 = region_bytes hp5 s1"
    using snap_frame [OF h5(3), of "w_heap w6"] fr(2) snap_ptrs_allocated [OF h5(3)] by blast+
  have av6: "12288 \<le> h_avail (w_heap w6)" using fr(1) h5(7) a4 av by simp
  have c6: "heap_content (w_heap w6) q = Some tbl" using h6(4) by simp
  have "hm_get (memory_regions s1) 0x2000 = None" using h5(5) by (simp add: hm_get_keys)
  then obtain hp7 s where h7: "capture_region 0x2000 q 12288 s1 (w_heap w6) = Some (Inr s, hp7)" "heap_inv hp7" "snap_inv hp7 s"
    "registers s = []" "region_bytes hp7 s = [0x1000 \<mapsto> e2e_code, 0x2000 \<mapsto> tbl]"
    using capture_region_ok [OF h6(3) s6(1) _ c6, of "0x2000" 12288] h6(5) h5(4,6) av6 s6(2) by auto
  have t: "identity_table 0x2000 tbl" using h6(5,6) by (simp add: identity_table_def)
  have hv: "w_hv w6 = w_hv w" by (subst h6(2)) simp
  have "e2e_record P 0x2000 w = Some (Inr s, w6\<lparr>w_heap := hp7\<rparr>)"
    using h1 h2 h3 h4(1) h5(1) h6(1) h7(1) unfolding e2e_record_def ly
    by (simp add: expect_some_def bindE_step thenE_step on_heap_def)
  then show ?thesis
    using h7 t hv by (intro exI [of _ s] exI [of _ "w6\<lparr>w_heap := hp7\<rparr>"] exI [of _ tbl]) simp
qed

context whp_boot
begin

lemma restore_memory_only:
  assumes ord: "iterates_all P" and snap: "snap_inv (w_heap w) s" and inv: "heap_inv (w_heap w)"
    and lo: "layout_ok (map_option length \<circ> region_bytes (w_heap w) s)" and lv: "live (w_hv w) h i"
    and gp: "gpas (w_hv w) h = (\<lambda>_. None)" and rs: "registers s = []"
    and eng: "replays_on vm \<lparr>vc_partition = h, vc_index = i\<rparr> r"
  shows "\<exists>w'. restore_snapshot P r s names w = Some (Inr (), w') \<and> w_heap w' = w_heap w \<and> live (w_hv w') h i
    \<and> mem_matches (guest_mem (w_heap w') (gpas (w_hv w') h)) (region_bytes (w_heap w) s)
    \<and> exits (w_hv w') h = exits (w_hv w) h \<and> regs (w_hv w') h i = regs (w_hv w) h i"
proof -
  let ?ks = "hash_order P (hm_keys (memory_regions s))"
  have ks: "distinct ?ks" "set ?ks = set (hm_keys (memory_regions s))"
    using ord snap hm.distinct_keys [of "memory_regions s"] by (simp_all add: iterates_all_def snap_inv_def)
  have full: "snap_regions s |` set ?ks = snap_regions s"
    unfolding ks(2) by (auto simp: restrict_map_def snap_regions_def hm.set_keys fun_eq_iff)
  have R: "regions_in (w_heap w) (snap_regions s)" "content_of (w_heap w) (snap_regions s) = region_bytes (w_heap w) s"
    using snap_regions_in [OF inv snap] by blast+
  have "sizes (snap_regions s) = map_option length \<circ> region_bytes (w_heap w) s"
    using regions_in_content [OF R(1)] unfolding R(2) by (simp add: fun_eq_iff)
  then have lo': "layout_ok (sizes (snap_regions s))" using lo by simp
  obtain w1 where w1: "for_each ?ks (\<lambda>gpa. case hm_get (memory_regions s) gpa of None \<Rightarrow> ret ()
        | Some data \<Rightarrow> map_gpa_range P (EptManager_new h) gpa (am_ptr data) (am_size data) 7) w = Some (Inr (), w1)"
    "w_heap w1 = w_heap w" "live (w_hv w1) h i" "maps_regions (gpas (w_hv w1) h) (snap_regions s)"
    "exits (w_hv w1) h = exits (w_hv w) h" "regs (w_hv w1) h i = regs (w_hv w) h i"
    using restore_maps [OF snap inv lo' ks(1), of "{}" w h i] ks(2) lv gp maps_nothing full unfolding hv_only_iff by auto
  have e: "vp_handle (rp_partition r) = h" using eng by (simp add: replays_on_def)
  have "restore_snapshot P r s names w = Some (Inr (), w1)"
    using w1(1) rs unfolding restore_snapshot_def Let_def as_raw_def e by (simp add: thenE_step ret_def)
  then show ?thesis
    using w1 regions_in_mem [OF w1(4) R(1)] R(2) by auto
qed

text \<open>The guest of the test, from its restored state: RDTSC, answered by the trace, then HLT.\<close>

lemma e2e_events_replay:
  assumes rd: "ready v w" and r: "replays_on p v r" and x: "executes_rdtsc_hlt guest" and acc: "\<And>ns vs. reject ns vs = None"
    and mem: "mem_matches (a_mem (arch v w)) [0x1000 \<mapsto> e2e_code, 0x2000 \<mapsto> tbl]" "identity_table 0x2000 tbl"
    and regs: "\<And>n. Reg64 (a_regs (arch v w) n) = Reg64 (upd_regs regs0 (zip long_mode_names (long_mode_values 0x2000) @ [(Rip, mk_Reg64 0x1000)]) n)"
    and ex: "a_exits (arch v w) = intercept_mask"
  shows "\<exists>w'. for_each e2e_events (replay_event P r) w = Some (Inr (), w') \<and> frame v w w'
    \<and> Reg64 (a_regs (arch v w') Rax) = 0x1111"
proof -
  let ?a = "arch v w" and ?C = "[0x1000 \<mapsto> e2e_code, 0x2000 \<mapsto> tbl] :: u64 \<Rightarrow> u8 list option"
  have val: "Reg64 (a_regs ?a Rip) = 0x1000" "Reg64 (a_regs ?a Cr3) = 0x2000" "Reg64 (a_regs ?a Cr0) = 0x80000031"
    "Reg64 (a_regs ?a Cr4) = 0x620" "Reg64 (a_regs ?a Efer) = 0x500"
    unfolding regs by (simp_all add: Reg64_upd_regs long_mode_names_def long_mode_values_def)
  have f: "fetches a bs" if "\<And>n. n \<in> {Cr0, Cr3, Cr4, Efer} \<Longrightarrow> Reg64 (a_regs a n) = Reg64 (a_regs ?a n)" "a_mem a = a_mem ?a"
      "Reg64 (a_regs a Rip) = 0x1000 + of_nat off" "off + length bs \<le> 3" "\<And>i. i < length bs \<Longrightarrow> e2e_code ! (off + i) = bs ! i" for a :: "'x arch" and bs off
    using that mem val e2e_code_patches(2)
    by (intro fetches_identity [where C = ?C and base = "0x2000" and tbl = tbl and g = "0x1000" and page = e2e_code and off = off])
      (simp_all add: bit_numeral_rec)
  have "fetches ?a [0x0F, 0x31]"
    by (rule f [where off = 0]) (use val in \<open>auto simp: e2e_code_def less_Suc_eq\<close>)
  moreover have "bit (a_exits ?a) 3" by (simp add: ex intercept_mask_bits)
  ultimately obtain ctx a1 where a1: "guest ?a = Some (Inr ctx, a1)" "ExitReason ctx = 4099" "exit_instruction_length ctx = 2"
    "\<And>n. Reg64 (a_regs a1 n) = Reg64 (a_regs ?a n)" "a_mem a1 = a_mem ?a"
    using x unfolding executes_rdtsc_hlt_def by metis
  let ?e1 = "\<lparr>instruction_count = 0, event = Rdtsc 0x1111 0\<rparr> :: TraceEvent"
  let ?e2 = "\<lparr>instruction_count = 0, event = ContextSwitch 1\<rparr> :: TraceEvent"
  let ?b = "a1\<lparr>a_regs := upd_regs (a_regs a1) [(Rax, mk_Reg64 0x1111), (Rdx, mk_Reg64 0)]\<rparr>"
  have inj: "abs_inject reject (event ?e1) a1 = Inr ?b"
    using acc by (simp add: abs_inject_def abs_set_def)
  have br: "Reg64 (a_regs ?b Rip) = 0x1000" using a1(4) val(1) by (simp add: Reg64_upd_regs)
  let ?a2 = "?b\<lparr>a_regs := upd_regs (a_regs ?b) [(Rip, set_Reg64 (0x1000 + 2) (a_regs ?b Rip))]\<rparr>"
  have adv: "abs_advance reject (overflow_checks P) (exit_instruction_length ctx) ?b = Inr ?a2"
    unfolding abs_advance_def Let_def br a1(3) using acc by (simp add: abs_set_def)
  obtain w1 where w1: "replay_event P r ?e1 w = Some (Inr (), w1)" "frame v w w1" "arch v w1 = ?a2"
    using replay_event_rdtsc [OF rd r a1(1,2), of ?e1 ?b ?a2] inj adv by auto
  have rg: "Reg64 (a_regs ?a2 n) = (if n = Rip then 0x1002 else if n = Rax then 0x1111 else if n = Rdx then 0 else Reg64 (a_regs ?a n))" for n
    using a1(4) by (simp add: Reg64_upd_regs)
  have "fetches ?a2 [0xF4]"
    by (rule f [where off = 2]) (use a1(5) rg in \<open>auto simp: e2e_code_def\<close>)
  then obtain ctx2 a3 where a3: "guest (arch v w1) = Some (Inr ctx2, a3)" "ExitReason ctx2 = 8" "\<And>n. Reg64 (a_regs a3 n) = Reg64 (a_regs ?a2 n)"
    using x w1(3) unfolding executes_rdtsc_hlt_def by metis
  obtain w2 where w2: "replay_event P r ?e2 w1 = Some (Inr (), w2)" "frame v w1 w2" "arch v w2 = a3"
    using replay_event_halt [OF frame_ready [OF w1(2)] r a3(1), of ?e2] a3(2) by auto
  have "for_each e2e_events (replay_event P r) w = Some (Inr (), w2)"
    using w1(1) w2(1) by (simp add: e2e_events_def log_event_def TraceLogger_new_def thenE_step ret_def)
  then show ?thesis
    using keeps_trans [OF w1(2) w2(2)] a3(3) [of Rax] rg w2(3) by auto
qed

lemma e2e_replay_ok:
  assumes room: "room (w_hv w)" and inv: "heap_inv (w_heap w)" and snap: "snap_inv (w_heap w) s" "registers s = []"
    and mem: "region_bytes (w_heap w) s = [0x1000 \<mapsto> e2e_code, 0x2000 \<mapsto> tbl]" "identity_table 0x2000 tbl"
    and ord: "iterates_all P" and x: "executes_rdtsc_hlt guest" and acc: "\<And>ns vs. reject ns vs = None"
  shows "\<exists>vm v r w'. e2e_replay P 0x2000 s w = Some (Inr (vm, v, r), w') \<and> active_vcpu_id r = 0
    \<and> ready v w' \<and> Reg64 (a_regs (arch v w') Rax) = 0x1111 \<and> snap_inv (w_heap w') s"
proof -
  obtain vm w1 w2 w3 where m: "VmPartition_new P w = Some (Inr vm, w1)" "configure_interceptions P vm w1 = Some (Inr (), w2)"
    "Vcpu_new P (vp_handle vm) 0 w2 = Some (Inr \<lparr>vc_partition = vp_handle vm, vc_index = 0\<rparr>, w3)"
    "w_heap w3 = w_heap w" "live (w_hv w3) (vp_handle vm) 0" "gpas (w_hv w3) (vp_handle vm) = (\<lambda>_. None)"
    "exits (w_hv w3) (vp_handle vm) = intercept_mask" "regs (w_hv w3) (vp_handle vm) 0 = regs0"
    using machine_ready [OF room] by metis
  let ?h = "vp_handle vm"
  let ?v = "\<lparr>vc_partition = ?h, vc_index = 0\<rparr>"
  let ?r = "register_vcpu 0 ?v (ReplayEngine_new vm 0)"
  obtain w4 where w4: "setup_long_mode P ?v 0x2000 w3 = Some (Inr (), w4)"
    using set_registers_run [OF m(5), of long_mode_names "long_mode_values 0x2000"] acc by (auto simp: setup_long_mode_def)
  note i4 = set_registers_inv [OF m(5) length_long_mode [symmetric] w4 [unfolded setup_long_mode_def]]
  then have l4: "live (w_hv w4) ?h 0" by blast
  obtain w5 where w5: "set_registers P ?v [Rip] [mk_Reg64 0x1000] w4 = Some (Inr (), w5)"
    using set_registers_run [OF l4, of "[Rip]" "[mk_Reg64 0x1000]"] acc by auto
  have i5: "w_heap w5 = w_heap w" "live (w_hv w5) ?h 0" "gpas (w_hv w5) ?h = (\<lambda>_. None)" "exits (w_hv w5) ?h = intercept_mask"
    "regs (w_hv w5) ?h 0 = upd_regs (upd_regs regs0 (zip long_mode_names (long_mode_values 0x2000))) [(Rip, mk_Reg64 0x1000)]"
    using set_registers_inv [OF l4 _ w5] i4 m(4,6,7,8) unfolding hv_only_iff by simp_all
  have r: "replays_on vm ?v ?r" by simp
  have lo: "layout_ok (map_option length \<circ> region_bytes (w_heap w5) s)"
    unfolding i5(1) mem(1) layout_ok_def using mem(2) e2e_code_patches(2) by (auto simp: identity_table_def split: if_splits)
  obtain w6 where w6: "restore_snapshot P ?r s [] w5 = Some (Inr (), w6)" "w_heap w6 = w_heap w" "live (w_hv w6) ?h 0"
    "mem_matches (guest_mem (w_heap w6) (gpas (w_hv w6) ?h)) [0x1000 \<mapsto> e2e_code, 0x2000 \<mapsto> tbl]"
    "exits (w_hv w6) ?h = intercept_mask" "regs (w_hv w6) ?h 0 = regs (w_hv w5) ?h 0"
    using restore_memory_only [OF ord, of w5 s ?h 0 vm ?r "[]"] snap inv i5 lo r mem(1) by auto
  have rd: "ready ?v w6" using w6(2,3) inv by simp
  have rg: "Reg64 (a_regs (arch ?v w6) n) = Reg64 (upd_regs regs0 (zip long_mode_names (long_mode_values 0x2000) @ [(Rip, mk_Reg64 0x1000)]) n)" for n
    by (simp add: arch_of_def w6(6) i5(5) upd_regs_def)
  obtain w7 where w7: "for_each e2e_events (replay_event P ?r) w6 = Some (Inr (), w7)" "frame ?v w6 w7"
    "Reg64 (a_regs (arch ?v w7) Rax) = 0x1111"
    using e2e_events_replay [OF rd r x acc _ mem(2) rg] w6(4,5) by (auto simp: arch_of_def)
  have s7: "snap_inv (w_heap w7) s"
    using snap_inv_shape [of "w_heap w6" "w_heap w7" s] w7(2) snap(1) w6(2) by (simp add: keeps_def)
  have "e2e_replay P 0x2000 s w = Some (Inr (vm, ?v, ?r), w7)"
    using m(1-3) w4 w5 w6(1) for_each_expect [OF w7(1)] unfolding e2e_replay_def Let_def as_raw_def
    by (simp add: bindE_step thenE_step ret_def)
  moreover have "active_vcpu_id ?r = 0" by (simp add: register_vcpu_def ReplayEngine_new_def)
  ultimately show ?thesis using frame_ready [OF w7(2)] w7(3) s7 by blast
qed

lemma test_phase4_passes:
  assumes room: "room (w_hv w)" and inv: "heap_inv (w_heap w)" and av: "32768 \<le> h_avail (w_heap w)"
    and ord: "iterates_all P" and x: "executes_rdtsc_hlt guest" and acc: "\<And>ns vs. reject ns vs = None"
  shows "\<exists>w'. test_phase4_e2e_record_replay_pipeline P w = Some (Inr (), w')"
proof -
  obtain s w1 tbl where s: "e2e_record P 0x2000 w = Some (Inr s, w1)" "w_hv w1 = w_hv w" "heap_inv (w_heap w1)" "snap_inv (w_heap w1) s"
    "registers s = []" "region_bytes (w_heap w1) s = [0x1000 \<mapsto> e2e_code, 0x2000 \<mapsto> tbl]" "identity_table 0x2000 tbl"
    using e2e_record_ok [OF inv av] by blast
  obtain vm v r w2 where e: "e2e_replay P 0x2000 s w1 = Some (Inr (vm, v, r), w2)" "active_vcpu_id r = 0" "ready v w2"
    "Reg64 (a_regs (arch v w2) Rax) = 0x1111" "snap_inv (w_heap w2) s"
    using e2e_replay_ok [OF _ s(3,4,5,6,7) ord x acc] s(2) room by auto
  have g: "get_registers P v [Rax] [0] w2 = Some (Inr [a_regs (arch v w2) Rax], w2)"
    using get_registers_ready [OF e(3), of "[Rax]" "[0]"] by simp
  obtain w3 where w3: "Vcpu_drop P v w2 = Some (Inr (), w3)" "w_heap w3 = w_heap w2"
    by (simp add: Vcpu_drop_def ignore_hv_def)
  obtain w4 where w4: "VmPartition_drop P vm w3 = Some (Inr (), w4)" "w_heap w4 = w_heap w3"
    by (cases "vp_handle vm = 0") (simp_all add: VmPartition_drop_def ignore_hv_def ret_def)
  obtain w5 where "Snapshot_drop P s w4 = Some (Inr (), w5)"
    using Snapshot_drop_ok [OF ord, of w4 s] e(5) w3(2) w4(2) by auto
  then show ?thesis
    using s(1) e(1,2,4) g w3(1) w4(1) unfolding test_phase4_e2e_record_replay_pipeline_def
    by (simp add: bindE_step thenE_step assert_that_def ret_def)
qed

end

section \<open>A processor for the tests\<close>

text \<open>It decodes the two instructions, and the reference hypervisor runs it.\<close>

definition tiny_cpu :: "unit prog" where
  "tiny_cpu a =
    (if fetches a [0x0F, 0x31] \<and> bit (a_exits a) 3 then
       Some (Inr \<lparr>ExitReason = 4099, vp_bitfield = 0x32, mem_Gpa = 0, mem_Gva = 0\<rparr>, a_regs a, [], ())
     else if fetches a [0xF4] then
       Some (Inr \<lparr>ExitReason = 8, vp_bitfield = 0x31, mem_Gpa = 0, mem_Gva = 0\<rparr>, a_regs a, [], ())
     else None)"

definition tiny_platform :: "unit ref_hv platform" where
  "tiny_platform = ref_platform True rev () tiny_cpu"

definition tiny_world :: "unit ref_hv world" where
  "tiny_world =
    \<lparr>w_heap = \<lparr>h_blocks = [1 \<mapsto> \<lparr>b_layout = \<lparr>l_size = 3, l_align = 1\<rparr>, b_bytes = [0x90, 0x90, 0xCC]\<rparr>],
       h_next = 2, h_avail = 0x100000\<rparr>,
     w_hv = \<lparr>hv_parts = Map.empty, hv_next = 1, hv_room = 1\<rparr>, w_out = [], w_files = []\<rparr>"

lemma tiny_world_ok:
  "ref_room (w_hv tiny_world)" "heap_inv (w_heap tiny_world)" "h_avail (w_heap tiny_world) = 0x100000"
  "heap_content (w_heap tiny_world) 1 = Some [0x90, 0x90, 0xCC]" "iterates_all tiny_platform"
  by (simp_all add: tiny_world_def ref_room_def heap_inv_def heap_content_def iterates_all_def tiny_platform_def ref_platform_def)

lemma tiny_cpu_executes: "executes_rdtsc_hlt (run_prog tiny_cpu)"
proof -
  have "\<not> fetches a [0x0F, 0x31]" if "fetches a [0xF4]" for a :: "unit arch"
    using that by (auto simp: fetches_def split: option.splits)
  then show ?thesis
    unfolding executes_rdtsc_hlt_def
    by (auto simp: run_prog_def tiny_cpu_def reg_canon_def exit_instruction_length_def)
qed

interpretation tiny: whp_boot tiny_platform ref_live ref_regs ref_gpas ref_exits "ref_rest ()"
    "\<lambda>_ _. None" "run_prog tiny_cpu" ref_room ref_created ref_idle reset_regs "()"
  unfolding tiny_platform_def by (rule ref_boot.whp_boot_axioms)

section \<open>Properties\<close>







end
