(* ===== verification/Build_Scripts.thy ===== *)
theory Build_Scripts
  imports Cli
begin

text \<open>
  The two build scripts, \<open>target_app/build.rs\<close> and \<open>crates/test_target/build.rs\<close>: the lines they print
  for cargo. A script writes nothing but these lines, so it is modelled by their list. What cargo
  and the linker make of them is not modelled; that the address in them is the one at which \<open>record\<close>
  maps an image is checked here.
\<close>

definition target_app_build :: "string list" where
  "target_app_build =
    [''cargo:rustc-link-arg=/ENTRY:_start'',
     ''cargo:rustc-link-arg=/DYNAMICBASE:NO'',
     ''cargo:rustc-link-arg=/FIXED'',
     ''cargo:rustc-link-arg=/NODEFAULTLIB'',
     ''cargo:rustc-link-arg=/SUBSYSTEM:CONSOLE'',
     ''cargo:rerun-if-changed=build.rs'']"

definition test_target_build :: "string list" where
  "test_target_build =
    [''cargo:rustc-link-arg-bin=test_target=/ENTRY:vm_entry'',
     ''cargo:rustc-link-arg-bin=test_target=/SUBSYSTEM:CONSOLE'',
     ''cargo:rustc-link-arg-bin=test_target=vcruntime.lib'',
     ''cargo:rustc-link-arg-bin=test_target=ucrt.lib'',
     ''cargo:rustc-link-arg-bin=test_target=/BASE:0x100000'',
     ''cargo:rustc-link-arg-bin=test_target=/DYNAMICBASE:NO'',
     ''cargo:rustc-link-arg-bin=test_target=/FIXED'']"

text \<open>A number as the linker reads it: hexadecimal digits after \<open>0x\<close>.\<close>

definition hex_digit :: "char \<Rightarrow> nat option" where
  "hex_digit c = (let n = of_char c :: nat in
     if 48 \<le> n \<and> n \<le> 57 then Some (n - 48) else if 97 \<le> n \<and> n \<le> 102 then Some (n - 87)
     else if 65 \<le> n \<and> n \<le> 70 then Some (n - 55) else None)"

fun hex_value :: "nat \<Rightarrow> string \<Rightarrow> nat option" where
  "hex_value acc [] = Some acc"
| "hex_value acc (c # cs) = (case hex_digit c of None \<Rightarrow> None | Some d \<Rightarrow> hex_value (16 * acc + d) cs)"

text \<open>What follows the first occurrence of a key in a line.\<close>

fun after :: "string \<Rightarrow> string \<Rightarrow> string option" where
  "after key [] = (if key = [] then Some [] else None)"
| "after key (c # cs) = (if take (length key) (c # cs) = key then Some (drop (length key) (c # cs)) else after key cs)"

definition linked_bases :: "string list \<Rightarrow> nat list" where
  "linked_bases lines = List.map_filter (\<lambda>l. case after ''/BASE:0x'' l of None \<Rightarrow> None | Some ds \<Rightarrow> hex_value 0 ds) lines"

text \<open>
  The fixed address of \<open>test_target\<close> is the guest address at which \<open>record\<close> maps it; \<open>target_app\<close> is
  linked without relocations too, but at no stated address.
\<close>

lemma linked_where_mapped: "linked_bases test_target_build = [unat base_gpa]" "linked_bases target_app_build = []"
  by (simp_all add: linked_bases_def test_target_build_def target_app_build_def hex_digit_def map_filter_simps base_gpa_def)

end
