(* ===== verification/Hasher_Vector.thy ===== *)
theory Hasher_Vector
  imports Std_Hasher
begin

text \<open>
  A check of the hasher against the standard library: \<open>DefaultHasher::new().finish()\<close> is
  15130871412783076140, the value of SipHash-1-3 with the zero key on no input. One lemma per round.
\<close>

lemma vector_round1:
  "sip_round \<lparr>sip_v0 = 0x736f6d6570736575, sip_v1 = 0x646f72616e646f6d, sip_v2 = 0x6c7967656e657261, sip_v3 = 0x7465646279746573, sip_tail = [], sip_len = 0\<rparr>
    = \<lparr>sip_v0 = 0x639487965a898377, sip_v1 = 0xfe651ba6cbca2366, sip_v2 = 0x3b1450431a71bdd2, sip_v3 = 0x35e4d2c22cb914e1, sip_tail = [], sip_len = 0\<rparr>"
  by code_simp

lemma vector_round2:
  "sip_round \<lparr>sip_v0 = 0x639487965a898377, sip_v1 = 0xfe651ba6cbca2366, sip_v2 = 0x3b1450431a71bd2d, sip_v3 = 0x35e4d2c22cb914e1, sip_tail = [], sip_len = 0\<rparr>
    = \<lparr>sip_v0 = 0xc88eb699b5c58b27, sip_v1 = 0xc70e59375b49ce05, sip_v2 = 0xa96a4b1f33869d49, sip_v3 = 0x3f04cfe54891cc46, sip_tail = [], sip_len = 0\<rparr>"
  by code_simp

lemma vector_round3:
  "sip_round \<lparr>sip_v0 = 0xc88eb699b5c58b27, sip_v1 = 0xc70e59375b49ce05, sip_v2 = 0xa96a4b1f33869d49, sip_v3 = 0x3f04cfe54891cc46, sip_tail = [], sip_len = 0\<rparr>
    = \<lparr>sip_v0 = 0x3899acc23ffb665c, sip_v1 = 0xe45aae236772c22b, sip_v2 = 0xa4e84b5c2d2affbc, sip_v3 = 0x4a2fa708ee9f9716, sip_tail = [], sip_len = 0\<rparr>"
  by code_simp

lemma vector_round4:
  "sip_round \<lparr>sip_v0 = 0x3899acc23ffb665c, sip_v1 = 0xe45aae236772c22b, sip_v2 = 0xa4e84b5c2d2affbc, sip_v3 = 0x4a2fa708ee9f9716, sip_tail = [], sip_len = 0\<rparr>
    = \<lparr>sip_v0 = 0xef8d4581a9d137e2, sip_v1 = 0x545fd627b2ed78be, sip_v2 = 0x1af5eade38482871, sip_v3 = 0x70dcde1a36783401, sip_tail = [], sip_len = 0\<rparr>"
  by code_simp

lemma empty_hasher_finish: "sip_finish DefaultHasher_new = 15130871412783076140"
  by (simp add: sip_finish_def sip_absorb_def DefaultHasher_new_def Let_def of_le_bytes_def vector_round1 vector_round2 vector_round3 vector_round4)

end
