(* ===== verification/Spec2Isabelle.thy ===== *)
theory Spec2Isabelle
  imports Engine_Properties Boot_Properties Release_Properties Safety_Properties Repo_Tests Build_Scripts Hasher_Vector
begin

text \<open>
  A verification development for Vestigium, a record-and-replay engine for bare-metal programs on
  the Windows Hypervisor Platform. \<open>record\<close> loads a PE executable into a virtual machine, runs it,
  answers the instructions whose result is not determined by the machine state (CPUID, RDTSC) and
  the scheduling hypercall, logs an event for each of them, and writes an archive: a snapshot of the
  machine before the run, the events, and a hash of the machine after it. \<open>replay\<close> restores the
  snapshot into a new virtual machine, feeds it the events, runs it to its end and compares the
  hash. The main theorem (C1) is that this comparison succeeds.

  \<^bold>\<open>How the code is modelled.\<close> Every effectful function is a command
  \<open>'s \<Rightarrow> ((failure + 'a) \<times> 's) option\<close>: \<open>None\<close> is a call that never returns; a failure is a
  returned error (\<open>WinErr\<close>, \<open>CodecErr\<close>), a panic, or the point at which \<open>unsafe\<close> code leaves its
  contract (\<open>Undefined\<close>). The state is the host heap with its allocations, the hypervisor, the
  lines printed and the files. Machine integers are words of the source's width; \<open>overflow_checks\<close>
  is the cargo profile's setting, and every \<open>+\<close> of the source that can overflow is \<open>add_u64\<close>.

  \<^bold>\<open>Parts and theories\<close>, in the order of the code:
  \<^item> \<open>Vestigium_Prelude\<close>: integers, failures, commands, byte encodings (locale \<open>byte_codec\<close>), the
    association-list model of \<open>HashMap\<close> (locale \<open>finite_map\<close>).
  \<^item> \<open>Host_Heap\<close>: \<open>std::alloc\<close> and raw pointers (locale \<open>host_memory\<close>). \<open>Std_Hasher\<close>: the
    standard library's \<open>DefaultHasher\<close>, SipHash-1-3 (locale \<open>byte_hasher\<close>), checked against a known
    value in \<open>Hasher_Vector\<close>.
  \<^item> \<open>Trace_Format\<close>: \<open>crates/trace/src/format.rs\<close> and \<open>TraceLogger\<close>.
  \<^item> \<open>Whp_Api\<close>: the calls of the hypervisor as a record of functions, registers and exit contexts;
    the console and the files.
  \<^item> \<open>Vmm_Partition\<close> (\<open>partition.rs\<close>, \<open>ept.rs\<close>), \<open>Vmm_Vcpu\<close> (\<open>vcpu.rs\<close>), \<open>Vmm_Paging\<close>
    (\<open>paging.rs\<close>, with the architecture's page walk as its specification).
  \<^item> \<open>Snapshot_State\<close>: \<open>AlignedMemory\<close> and \<open>Snapshot\<close> of \<open>crates/engine/src/record.rs\<close>.
    \<open>Record_Engine\<close>: \<open>runner.rs\<close> and \<open>RecordEngine\<close>. \<open>Replay_Engine\<close>: \<open>replay.rs\<close>.
  \<^item> \<open>Pe_Loader\<close>: \<open>loader.rs\<close>. \<open>Serde_Archive\<close>: the \<open>serde\<close> implementations, hand-written and
    derived, over a binary format (locale \<open>binary_format\<close>).
  \<^item> \<open>Cli\<close>: \<open>crates/cli/src/main.rs\<close>, both commands with the drops at the end of their scope.
  \<^item> \<open>Guest_Programs\<close>: the guests \<open>target_app\<close> and \<open>test_target\<close>. \<open>Repo_Tests\<close>: the test functions
    of all crates. \<open>Build_Scripts\<close>: the lines the two build scripts print.

  \<^bold>\<open>What is assumed of code that is not in the repository.\<close> The hypervisor is an argument of the
  definitions. Locale \<open>whp_contract\<close> (theory \<open>Whp_Contract\<close>) states what the engines rely on:
  reading and writing registers, and that running a processor is a function, \<open>guest\<close>, of the
  architectural state (registers, guest memory, interception mask, the rest of the processor) that
  writes only mapped memory. Locale \<open>whp_boot\<close> (\<open>Whp_Boot\<close>) extends it with creating partitions and
  processors and mapping memory, and \<open>whp_release\<close> (\<open>Whp_Release\<close>) with deleting them.
  Memory safety needs much less, locale \<open>whp_spares\<close> (\<open>Memory_Safety\<close>): running a processor neither
  allocates nor frees host memory. \<open>Reference_Hypervisor\<close> is an executable hypervisor that satisfies
  all four; \<open>End_To_End\<close> puts \<open>target_app\<close> on it. The PE parser \<open>goblin\<close> is a function argument, the
  primitive encodings of \<open>bincode\<close> are the argument \<open>F\<close> with the round-trip laws of
  \<open>binary_format\<close>, or only the law of \<open>shrinking\<close> that reading consumes input (\<open>bincode_ref\<close> satisfies
  both), and the iteration order of a \<open>HashMap\<close> is an
  arbitrary permutation (\<open>iterates_all\<close>).

  \<^bold>\<open>What is shown.\<close>
  \<^item> \<open>Record_Correct\<close>, \<open>Replay_Correct\<close>: the abstract recorder \<open>abs_record\<close>, an inductive relation
    on architectural states; the record loop implements it in both directions, and the replay
    engine follows every trace it derives. \<open>Record_Failure\<close> adds the recordings that fail
    (\<open>abs_record_fails\<close>), so that the loop's ends, failures and divergence are all characterised.
    \<open>Engine_Properties\<close> states this for the engines, with numbering, isolation of the host,
    determinism, every error branch, and the ways in which a trace that does not fit the guest goes
    unnoticed.
  \<^item> \<open>Host_Accounting\<close>, \<open>Cli_Layout\<close>, \<open>Cli_Determinism\<close>, \<open>Cli_Completes\<close>: what the record command
    allocates and maps, that a returned recording replays, and that recording returns.
    \<open>Boot_Properties\<close> states the guest that \<open>record\<close> builds, long mode, page tables, the archive
    round trip and restoring.
  \<^item> \<open>Cli_Output\<close>: \<open>replay\<close> writes no file and returns only when the two hashes agree, for every
    archive and every hypervisor. \<open>Heap_Ownership\<close>: the relation \<open>grown\<close> between two host heaps,
    which every operation that allocates, stores or releases moves along; \<open>Engine_Isolation\<close>: what
    the replay engine cannot touch, whatever the trace; \<open>Cli_Release\<close>: what the commands have
    allocated when they end. \<open>Release_Properties\<close> states this for the commands: what a recording
    leaves behind, and that it can be replayed again and again.
  \<^item> \<open>Memory_Safety\<close>: triples for the absence of undefined behaviour, commands that keep the
    allocations (\<open>steady\<close>), and how reading an archive can fail. \<open>Safety_Properties\<close>: the complete list
    of the ways in which each command can leave the contract of its \<open>unsafe\<close> code, for any hypervisor
    results, any guest and any archive.
  \<^item> \<open>Machine_Code\<close>: instruction fetch through the page tables, for the end-to-end test of the
    engine crate, which passes on every conforming hypervisor (\<open>Repo_Tests\<close>).
  \<^item> This theory: the two commands together, and the traces of the two guests.

  \<^bold>\<open>Bounds.\<close> The loops of \<open>RecordEngine::run\<close> and \<open>ReplayEngine::replay_event\<close> are partial functions
  without fuel; that they return is proved from a finite abstract recording, and that they do not is
  proved where it happens. The numbers in the hypotheses are the code's: an image of at most
  \<open>0xF0000\<close> bytes keeps the stack below the page tables at \<open>0x200000\<close>, and \<open>0x14000\<close> bytes are the
  stack, the null page and the tables; \<open>record\<close> needs the guest's memory three times, \<open>replay\<close> once.

  \<^bold>\<open>Not modelled.\<close> Command-line parsing (derived by \<open>clap\<close>) and the text of printed lines; the
  machine code of the guests and the addresses the compiler gives it (a guest is the tree of its
  intercepted instructions); what cargo and the linker make of the build scripts' lines; accessors that
  only return a field (\<open>as_ptr\<close>, \<open>events\<close>), which are the record selectors; the source of the
  Windows, \<open>goblin\<close>, \<open>serde\<close> and \<open>bincode\<close> crates, which are the parameters above.
\<close>


text \<open>A processor that has just been created, about to run \<open>c\<close>.\<close>

definition cold_arch :: "guest_code \<Rightarrow> guest_state arch" where
  "cold_arch c = \<lparr>a_regs = reset_regs, a_mem = (\<lambda>_. None), a_exits = 0, a_rest = guest_state0 c\<rparr>"

section \<open>The two commands\<close>

text \<open>
  C1. Recording and then replaying a program succeeds end to end. On a conforming hypervisor, with
  a binary format that round-trips, a well-formed executable of at most \<open>0xF0000\<close>
  bytes, enough host memory and a guest that reaches an exit that is not intercepted,
  \<open>record\<close> returns; and \<open>replay\<close> of the archive it wrote, on any machine
  with room for it, returns and adds lines to the console of which the last says that the
  verification succeeded.
\<close>

theorem record_then_replay_verifies:
  assumes whp: "whp_boot P live regs gpas exits rest reject guest room created idle regs0 rest0"
    and F: "binary_format F" and ord: "iterates_all P" and fs: "fs_writable P out"
    and w: "room (w_hv w)" "heap_inv (w_heap w)"
    and tgt: "hm_get (w_files w) target = Some data" "goblin data = Inr pe"
    and l: "l = \<lparr>pl_pe = pe, raw_bytes = data\<rparr>"
    and sz: "aligned_size l \<noteq> 0" "unat (aligned_size l) \<le> 0xF0000"
    and ok: "\<forall>s \<in> set (pe_sections pe). section_ok (unat (aligned_size l)) (length data) s"
    and acc: "boot_accepted reject l"
    and av: "3 * (unat (aligned_size l) + 0x14000) \<le> h_avail (w_heap w)"
    and stops: "\<forall>a. boots_as regs0 rest0 l a \<longrightarrow>
      (\<exists>es ctx a'. abs_record guest reject (overflow_checks P) 0 a es ctx a' \<and> length es < 2 ^ 64)"
  shows "\<exists>w'. main P goblin F (Record target out) w = Some (Inr (), w')
    \<and> (\<forall>u. hm_get (w_files u) trace = hm_get (w_files w') out \<longrightarrow> room (w_hv u) \<longrightarrow> heap_inv (w_heap u) \<longrightarrow>
         unat (aligned_size l) + 0x14000 \<le> h_avail (w_heap u) \<longrightarrow>
         (\<exists>u' lines. main P goblin F (Replay trace) u = Some (Inr (), u') \<and> w_out u' = w_out u @ lines @ [VerificationSuccess]))"
proof -
  have st: "\<exists>es ctx a'. abs_record guest reject (overflow_checks P) 0 a es ctx a'" if "boots_as regs0 rest0 l a" for a
    using stops that by blast
  obtain w' where w': "cli_record P goblin F target out w = Some (Inr (), w')"
    using whp_boot.cli_record_returns [OF whp ord fs w, of target data goblin pe l, OF tgt l sz ok acc av st] by blast
  have few: "length es < 2 ^ 64"
    if "boots_as regs0 rest0 \<lparr>pl_pe = pe, raw_bytes = data\<rparr> a" "abs_record guest reject (overflow_checks P) 0 a es ctx a'"
    for a es ctx a'
    using stops that abs_record_unique [OF that(2)] unfolding l by blast
  have "\<exists>u' lines. cli_replay P F trace u = Some (Inr (), u') \<and> w_out u' = w_out u @ lines @ [VerificationSuccess]"
    if u: "hm_get (w_files u) trace = hm_get (w_files w') out" "room (w_hv u)" "heap_inv (w_heap u)"
      "unat (aligned_size l) + 0x14000 \<le> h_avail (w_heap u)" for u
  proof -
    obtain u' where u': "cli_replay P F trace u = Some (Inr (), u')"
      by (rule whp_boot.record_then_replay [OF whp F ord w' w tgt sz(2) [unfolded l] few u [unfolded l]])
    then obtain h lines where "w_out u' = w_out u @ (lines @ [ExpectedHash h, ReplayHash h]) @ [VerificationSuccess]"
      using cli_replay_output [OF u'] by auto
    then show ?thesis using u' by blast
  qed
  then show ?thesis
    using w' by (auto simp: main_def)
qed

theorem record_then_replay_verifies_witness:
  "\<exists>w' u' lines. main app_platform app_goblin bincode_ref (Record ''target_app.exe'' ''trace.bin'') app_world = Some (Inr (), w')
    \<and> main app_platform app_goblin bincode_ref (Replay ''trace.bin'') (app_world\<lparr>w_files := w_files w'\<rparr>) = Some (Inr (), u')
    \<and> w_out u' = lines @ [VerificationSuccess]"
proof -
  have st: "\<forall>a. boots_as reset_regs (guest_state0 (app_start True)) app_loader a \<longrightarrow>
      (\<exists>es ctx a'. abs_record (run_prog guest_prog) (\<lambda>_ _. None) (overflow_checks app_platform) 0 a es ctx a' \<and> length es < 2 ^ 64)"
    using app_guest_stops by blast
  obtain w' where w': "main app_platform app_goblin bincode_ref (Record ''target_app.exe'' ''trace.bin'') app_world = Some (Inr (), w')"
    "\<And>u. hm_get (w_files u) ''trace.bin'' = hm_get (w_files w') ''trace.bin'' \<Longrightarrow> ref_room (w_hv u) \<Longrightarrow> heap_inv (w_heap u) \<Longrightarrow>
         unat (aligned_size app_loader) + 0x14000 \<le> h_avail (w_heap u) \<Longrightarrow>
         \<exists>u' lines. main app_platform app_goblin bincode_ref (Replay ''trace.bin'') u = Some (Inr (), u')
           \<and> w_out u' = w_out u @ lines @ [VerificationSuccess]"
    using record_then_replay_verifies [where goblin = app_goblin and out = "''trace.bin''" and trace = "''trace.bin''",
        OF app.whp_boot_axioms bincode_ref.binary_format_axioms app_world_ok(5,6,1,2,4) app_input(1,2)
        app_size(2) app_input(3,6,4,5) st] by blast
  let ?u = "app_world\<lparr>w_files := w_files w'\<rparr>"
  have "unat (aligned_size app_loader) + 0x14000 \<le> h_avail (w_heap ?u)" using app_input(5) by simp
  then obtain u' lines where "main app_platform app_goblin bincode_ref (Replay ''trace.bin'') ?u = Some (Inr (), u')"
    "w_out u' = w_out ?u @ lines @ [VerificationSuccess]"
    using w'(2) [of ?u] app_world_ok(1,2) by auto
  then show ?thesis
    using w'(1) by - (rule exI [of _ w'], rule exI [of _ u'], rule exI [of _ "w_out ?u @ lines"], simp)
qed

lemma demo_snap: "snap_inv (w_heap demo_world) Snapshot_new" by simp

text \<open>
  C13. What the verification step of \<open>replay\<close> decides: it prints both hashes and then
  reports success exactly when the hash of the final registers and of the final memory equals the
  recorded hash; otherwise it panics after printing them.
\<close>

theorem success_means_equal_state:
  assumes whp: "whp_contract P live regs gpas exits rest reject guest"
    and rd: "live (w_hv w) (vc_partition v) (vc_index v)" "heap_inv (w_heap w)" and s: "snap_inv (w_heap w) s"
  shows "replay_verify P s expected v w =
    (let h = state_hash (map (regs (w_hv w) (vc_partition v) (vc_index v)) capture_names) (region_bytes (w_heap w) s);
         w1 = w\<lparr>w_out := w_out w @ [ExpectedHash expected, ReplayHash h]\<rparr>;
         s1 = s\<lparr>registers := map (regs (w_hv w) (vc_partition v) (vc_index v)) capture_names\<rparr>
     in if h = expected then Some (Inr s1, w1\<lparr>w_out := w_out w1 @ [VerificationSuccess]\<rparr>)
        else Some (Inl (Panic AssertFailed), w1))"
proof -
  let ?s = "s\<lparr>registers := map (regs (w_hv w) (vc_partition v) (vc_index v)) capture_names\<rparr>"
  have "hash_state ?s (w_heap w) = Some (Inr (state_hash (registers ?s) (region_bytes (w_heap w) ?s)), w_heap w)"
    using hash_state_eq [OF rd(2), of ?s] s by simp
  then show ?thesis
    using whp_contract.capture_registers_live [OF whp rd(1), of capture_names s]
    by (simp add: replay_verify_def bindE_def thenE_def println_def assert_that_def ret_def raise_def on_heap_def Let_def expect_ok_def)
qed

theorem success_means_equal_state_witness:
  "\<exists>h. replay_verify demo_platform Snapshot_new h demo_vcpu demo_world =
      Some (Inr (Snapshot_new\<lparr>registers := map (ref_regs (w_hv demo_world) 1 0) capture_names\<rparr>),
        demo_world\<lparr>w_out := [ExpectedHash h, ReplayHash h, VerificationSuccess]\<rparr>)
    \<and> replay_verify demo_platform Snapshot_new (h + 1) demo_vcpu demo_world =
      Some (Inl (Panic AssertFailed), demo_world\<lparr>w_out := [ExpectedHash (h + 1), ReplayHash h]\<rparr>)"
proof -
  let ?h = "state_hash (map (ref_regs (w_hv demo_world) 1 0) capture_names) (region_bytes (w_heap demo_world) Snapshot_new)"
  have o: "w_out demo_world = []" by (simp add: demo_world_def)
  have v: "vc_partition demo_vcpu = 1" "vc_index demo_vcpu = 0" by (simp_all add: demo_vcpu_def)
  show ?thesis
    using success_means_equal_state [OF demo.whp_contract_axioms demo_ready(1,2) demo_snap, of ?h]
      success_means_equal_state [OF demo.whp_contract_axioms demo_ready(1,2) demo_snap, of "?h + 1"]
    unfolding v o Let_def by (intro exI [of _ ?h]) simp
qed

text \<open>
  C37. Inputs that cannot be used are reported before the hypervisor is touched and before any file
  is written: \<open>record\<close> panics with the corresponding message when the target cannot be read or the
  PE parser rejects it, with host memory unchanged; \<open>replay\<close> does when the archive cannot be read
  or decoded, with the host memory the decoder left.
\<close>

theorem input_errors:
  "(hm_get (w_files w) path = None \<longrightarrow>
      main P goblin F (Record path out) w =
        Some (Inl (Panic (Expect ''Failed to read target binary'')), w\<lparr>w_out := w_out w @ [RecordingTarget path]\<rparr>)
      \<and> main P goblin F (Replay path) w =
        Some (Inl (Panic (Expect ''Failed to read trace file'')), w\<lparr>w_out := w_out w @ [ReplayingTrace path]\<rparr>))
   \<and> (hm_get (w_files w) path = Some data \<longrightarrow> goblin data = Inl e \<longrightarrow>
      main P goblin F (Record path out) w =
        Some (Inl (Panic (Expect ''Failed to parse PE file'')), w\<lparr>w_out := w_out w @ [RecordingTarget path]\<rparr>))
   \<and> (hm_get (w_files w) path = Some data \<longrightarrow> de_archive F data (w_heap w) = Some (Inl CodecErr, hp) \<longrightarrow>
      main P goblin F (Replay path) w =
        Some (Inl (Panic (Expect ''Failed to deserialize trace archive'')),
          w\<lparr>w_out := w_out w @ [ReplayingTrace path], w_heap := hp\<rparr>))"
  by (simp add: main_def cli_record_def record_prepare_def cli_replay_def replay_prepare_def println_def fs_read_def
      expect_some_def expect_right_def expect_ok_def PeLoader_parse_def thenE_def bindE_def raise_def ret_def on_heap_def)

theorem input_errors_witness:
  "main app_platform app_goblin bincode_ref (Record ''missing.exe'' ''o'') app_world =
     Some (Inl (Panic (Expect ''Failed to read target binary'')), app_world\<lparr>w_out := [RecordingTarget ''missing.exe'']\<rparr>)
   \<and> main app_platform app_goblin bincode_ref (Replay ''short.bin'') (app_world\<lparr>w_files := [(''short.bin'', [1, 2])]\<rparr>) =
     Some (Inl (Panic (Expect ''Failed to deserialize trace archive'')),
       app_world\<lparr>w_files := [(''short.bin'', [1, 2])], w_out := [ReplayingTrace ''short.bin'']\<rparr>)"
proof -
  let ?w = "app_world\<lparr>w_files := [(''short.bin'', [1, 2])]\<rparr>"
  have "de_archive bincode_ref [1, 2] (w_heap ?w) = Some (Inl CodecErr, w_heap ?w)"
    by (simp add: de_archive_def de_Snapshot_def bindE_def read_with_def bincode_ref_def take_word_def)
  then show ?thesis
    using input_errors [of app_world "''missing.exe''" app_platform app_goblin bincode_ref "''o''"]
      input_errors [of ?w "''short.bin''" app_platform app_goblin bincode_ref "''o''" "[1, 2]" _ "w_heap ?w"]
    by (simp add: hm_get_def app_world_def)
qed

section \<open>The guests of the repository\<close>



end
